(* ===== verification/Sarm_Prelude.thy ===== *)
theory Sarm_Prelude
  imports Main "HOL-Library.Monad_Syntax"
begin

text \<open>
  Prelude of the development: what the components share.

  \<^item> the collections \<open>limb_simps\<close> (translation of bit operations on Python
    integers into arithmetic), \<open>flow_simps\<close> (unfolding of dataflow sweeps) and
    \<open>asm_simps\<close> (unfolding of the assembly parser);
  \<^item> the loop shapes the scripts use: an \<open>assert\<close> in the option monad and the
    bounded fixpoint loop \<open>for _ in range(k): ...; if not changed: break\<close>;
  \<^item> generic lemmas on lists and folds.
\<close>

named_theorems limb_simps "bit operations on limbs as arithmetic"
named_theorems flow_simps "unfolding of dataflow sweeps"
named_theorems asm_simps "unfolding of the assembly parser"

section \<open>Loop shapes\<close>

text \<open>
  A Python \<open>assert\<close>: an \<open>AssertionError\<close> is \<open>None\<close>.
\<close>

definition py_assert :: "bool \<Rightarrow> unit option" where
  "py_assert b = (if b then Some () else None)"

lemma py_assert_simps [simp]:
  "py_assert True = Some ()"
  "py_assert False = None"
  by (simp_all add: py_assert_def)

lemma py_assert_Some_iff [simp]: "py_assert b = Some u \<longleftrightarrow> b"
  by (simp add: py_assert_def)

text \<open>
  The bounded fixpoint loop: at most \<open>k\<close> passes of \<open>f\<close>, which returns the new state
  and its \<open>changed\<close> flag; the loop stops after the first pass that changed nothing.
\<close>

fun bounded_loop :: "nat \<Rightarrow> ('s \<Rightarrow> 's \<times> bool) \<Rightarrow> 's \<Rightarrow> 's" where
  "bounded_loop 0 f s = s"
| "bounded_loop (Suc k) f s =
     (case f s of (s', changed) \<Rightarrow> if changed then bounded_loop k f s' else s')"

text \<open>
  Does the loop leave by \<open>break\<close> (that is, with a pass that changed nothing)?
\<close>

fun loop_converges :: "nat \<Rightarrow> ('s \<Rightarrow> 's \<times> bool) \<Rightarrow> 's \<Rightarrow> bool" where
  "loop_converges 0 f s = False"
| "loop_converges (Suc k) f s =
     (case f s of (s', changed) \<Rightarrow> if changed then loop_converges k f s' else True)"

lemma bounded_loop_invariant:
  assumes "P s" and "\<And>s. P s \<Longrightarrow> P (fst (f s))"
  shows "P (bounded_loop k f s)"
  using assms
  by (induction k f s rule: bounded_loop.induct) (force split: prod.splits)+

lemma bounded_loop_converged:
  assumes "loop_converges k f s" and "P s" and "\<And>s. P s \<Longrightarrow> P (fst (f s))"
  shows "\<exists>s'. P s' \<and> f s' = (bounded_loop k f s, False)"
  using assms
proof (induction k f s rule: bounded_loop.induct)
  case (1 f s)
  then show ?case by simp
next
  case (2 k f s)
  obtain s' changed where fs: "f s = (s', changed)" by (cases "f s")
  then show ?case
  proof (cases changed)
    case True
    have "P s'" using 2(3,4) fs by (metis fst_conv)
    then show ?thesis using 2 fs True by simp
  next
    case False
    then show ?thesis using 2(3) fs by auto
  qed
qed

section \<open>Lists\<close>

lemma nth_update_other [simp]: "i \<noteq> j \<Longrightarrow> xs[i := x] ! j = xs ! j"
  by simp

lemma set_update_subset: "P x \<Longrightarrow> \<forall>y \<in> set xs. P y \<Longrightarrow> \<forall>y \<in> set (xs[i := x]). P y"
  using set_update_subset_insert [of xs i x] by auto

lemma find_SomeD: "find P xs = Some x \<Longrightarrow> x \<in> set xs \<and> P x"
  by (auto simp: find_Some_iff)

lemma list4_cases:
  assumes "length xs = 4"
  obtains a b c d where "xs = [a, b, c, d]"
  using assms
  by (auto simp: length_Suc_conv eval_nat_numeral)

lemma fold_invariant:
  assumes "P 0 s" and "\<And>i s. i < m \<Longrightarrow> P i s \<Longrightarrow> P (Suc i) (f i s)"
  shows "P m (fold f [0..<m] s)"
  using assms
proof (induction m)
  case 0
  then show ?case by simp
next
  case (Suc m)
  then have "P m (fold f [0..<m] s)" by simp
  then show ?case using Suc.prems(2) by simp
qed

lemma opt_Max:
  "(if xs \<noteq> [] then Some (Max (set xs)) else None) = Some (v :: 'a :: linorder)
     \<longleftrightarrow> v \<in> set xs \<and> (\<forall>w \<in> set xs. w \<le> v)"
  by (cases "xs = []") (auto simp: Max_eq_iff eq_commute [of "Max (set xs)"] intro: Max_eqI [symmetric])

lemma opt_Min:
  "(if xs \<noteq> [] then Some (Min (set xs)) else None) = Some (v :: 'a :: linorder)
     \<longleftrightarrow> v \<in> set xs \<and> (\<forall>w \<in> set xs. v \<le> w)"
  by (cases "xs = []") (auto simp: Min_eq_iff eq_commute [of "Min (set xs)"] intro: Min_eqI [symmetric])

end
