(* ===== verification/Limbs.thy ===== *)
theory Limbs
  imports Sarm_Prelude "HOL-Library.Word"
begin

text \<open>
  Multi-limb integers as the P-256 derivation scripts hold them: Python lists of
  64-bit words, least significant first, worked on with \<open>& MASK\<close> and \<open>>> 64\<close>.

  Python integers are unbounded, so a limb is an \<^typ>\<open>int\<close>; \<open>limbs_ok\<close> says that
  every element of a list fits in 64 bits. The lemmas of \<open>limb_simps\<close> turn the bit
  operations into arithmetic modulo \<open>LB\<close>, the limb base, and the two carry-loop
  lemmas say what a whole carry chain adds.
\<close>

unbundle bit_operations_syntax

section \<open>Limbs and their value\<close>

definition LB :: int where
  "LB = 2 ^ 64"

definition MASK :: int where
  "MASK = push_bit 64 1 - 1"

definition words :: "int \<Rightarrow> int list" where
  "words v = map (\<lambda>i. drop_bit (64 * i) v AND MASK) [0..<4]"

definition value_w :: "int list \<Rightarrow> int" where
  "value_w w = sum_list (map (\<lambda>(i, x). push_bit (64 * i) x) (List.enumerate 0 w))"

definition limb_ok :: "int \<Rightarrow> bool" where
  "limb_ok x \<longleftrightarrow> 0 \<le> x \<and> x < LB"

definition limbs_ok :: "int list \<Rightarrow> bool" where
  "limbs_ok w \<longleftrightarrow> (\<forall>x \<in> set w. limb_ok x)"

section \<open>Bit operations as arithmetic\<close>

lemma LB_pos [simp]: "0 < LB"
  by (simp add: LB_def)

lemma LB_gt_1 [simp]: "1 < LB"
  by (simp add: LB_def)

lemma LB_ge_0 [simp]: "0 \<le> LB"
  by (simp add: LB_def)

lemma LB_ge_1 [simp]: "1 \<le> LB"
  by (simp add: LB_def)

lemma LB_neq_0 [simp]: "LB \<noteq> 0"
  using LB_pos by linarith

lemma LB_power_pos [simp]: "0 < LB ^ k"
  by simp

lemma MASK_eq: "MASK = LB - 1"
  by (simp add: MASK_def LB_def)

lemma MASK_mask: "MASK = mask 64"
  by (simp add: MASK_def mask_eq_exp_minus_1)

lemma and_MASK [limb_simps]: "x AND MASK = x mod LB"
  by (simp only: MASK_mask LB_def flip: take_bit_eq_mask take_bit_eq_mod)

lemma drop_64 [limb_simps]: "drop_bit 64 (x :: int) = x div LB"
  by (simp add: LB_def drop_bit_eq_div)

lemma LB_power: "LB ^ k = 2 ^ (64 * k)"
  by (simp add: LB_def power_mult)

lemma push_64k [limb_simps]: "push_bit (64 * k) (x :: int) = x * LB ^ k"
  by (simp add: LB_power push_bit_eq_mult)

lemma drop_64k [limb_simps]: "drop_bit (64 * k) (x :: int) = x div LB ^ k"
  by (simp add: LB_power drop_bit_eq_div)

lemma div_LB_less: "x < n * LB \<Longrightarrow> x div LB < n"
proof -
  assume "x < n * LB"
  moreover have "x div LB * LB \<le> x"
    using div_mult_mod_eq [of x LB] pos_mod_sign [OF LB_pos, of x] by linarith
  ultimately have "x div LB * LB < n * LB" by linarith
  then show ?thesis by (simp add: mult_less_cancel_right)
qed

lemma limb_ok_mod [simp]: "limb_ok (x mod LB)"
  by (simp add: limb_ok_def)

lemma limb_ok_0 [simp]: "limb_ok 0"
  by (simp add: limb_ok_def)

lemma limbs_ok_Nil [simp]: "limbs_ok []"
  by (simp add: limbs_ok_def)

lemma limbs_ok_Cons [simp]: "limbs_ok (x # xs) \<longleftrightarrow> limb_ok x \<and> limbs_ok xs"
  by (simp add: limbs_ok_def)

lemma limbs_ok_append [simp]: "limbs_ok (xs @ ys) \<longleftrightarrow> limbs_ok xs \<and> limbs_ok ys"
  by (auto simp: limbs_ok_def)

lemma limbs_ok_replicate [simp]: "limbs_ok (replicate n 0)"
  by (simp add: limbs_ok_def)

lemma limbs_ok_update [intro]: "limbs_ok t \<Longrightarrow> limb_ok x \<Longrightarrow> limbs_ok (t[i := x])"
  unfolding limbs_ok_def by (rule set_update_subset) auto

lemma limbs_ok_nth: "limbs_ok t \<Longrightarrow> i < length t \<Longrightarrow> limb_ok (t ! i)"
  by (simp add: limbs_ok_def)

lemma limbs_ok_take: "limbs_ok t \<Longrightarrow> limbs_ok (take k t)"
  by (auto simp: limbs_ok_def dest: in_set_takeD)

lemma limbs_ok_drop: "limbs_ok t \<Longrightarrow> limbs_ok (drop k t)"
  by (auto simp: limbs_ok_def dest: in_set_dropD)

section \<open>Algebra of the value\<close>

lemma value_w_sum: "value_w w = (\<Sum>i<length w. w ! i * LB ^ i)"
proof -
  have "sum_list (map (\<lambda>(i, x). push_bit (64 * i) x) (List.enumerate k w))
        = (\<Sum>i<length w. w ! i * LB ^ (k + i))" for k
  proof (induction w arbitrary: k)
    case Nil
    then show ?case by simp
  next
    case (Cons a w)
    show ?case
      by (simp only: enumerate_simps list.map sum_list.Cons Cons.IH prod.case)
         (simp add: push_64k sum.lessThan_Suc_shift del: sum.lessThan_Suc)
  qed
  from this[of 0] show ?thesis by (simp add: value_w_def)
qed

lemma value_w_Nil [simp]: "value_w [] = 0"
  by (simp add: value_w_sum)

lemma value_w_Cons: "value_w (x # xs) = x + LB * value_w xs"
  by (simp add: value_w_sum sum.lessThan_Suc_shift sum_distrib_left algebra_simps
      del: sum.lessThan_Suc)

lemma value_w_replicate_0 [simp]: "value_w (replicate n 0) = 0"
  by (simp add: value_w_sum)

lemma value_w_append: "value_w (xs @ ys) = value_w xs + LB ^ length xs * value_w ys"
  by (induction xs) (simp_all add: value_w_Cons algebra_simps)

lemma value_w_update:
  assumes "i < length t"
  shows "value_w (t[i := x]) = value_w t + (x - t ! i) * LB ^ i"
proof -
  have "value_w (t[i := x]) = (\<Sum>j<length t. (t[i := x]) ! j * LB ^ j)"
    by (simp add: value_w_sum)
  also have "\<dots> = (\<Sum>j<length t. t ! j * LB ^ j + (if j = i then (x - t ! i) * LB ^ i else 0))"
    by (intro sum.cong) (auto simp: algebra_simps nth_list_update)
  also have "\<dots> = value_w t + (x - t ! i) * LB ^ i"
    using assms by (simp add: sum.distrib value_w_sum)
  finally show ?thesis .
qed

lemma value_w_bounds: "limbs_ok w \<Longrightarrow> 0 \<le> value_w w \<and> value_w w < LB ^ length w"
proof (induction w)
  case Nil
  then show ?case by simp
next
  case (Cons x xs)
  then have x: "0 \<le> x" "x < LB" and v: "0 \<le> value_w xs" "value_w xs + 1 \<le> LB ^ length xs"
    by (auto simp: limb_ok_def)
  have "LB * (value_w xs + 1) \<le> LB * LB ^ length xs"
    using v by (intro mult_left_mono) auto
  then show ?case
    using x v by (simp add: value_w_Cons algebra_simps)
qed

lemma value_w_take_Suc:
  "m < length v \<Longrightarrow> value_w (take (Suc m) v) = value_w (take m v) + v ! m * LB ^ m"
  by (simp add: take_Suc_conv_app_nth value_w_append value_w_Cons)

lemma length_words [simp]: "length (words v) = 4"
  by (simp add: words_def)

lemma limbs_ok_words [simp]: "limbs_ok (words v)"
  by (auto simp: words_def limbs_ok_def limb_simps)

lemma value_words: "value_w (words v) = v mod LB ^ 4"
proof -
  have "value_w (map (\<lambda>i. (v div LB ^ i) mod LB) [0..<k]) = v mod LB ^ k" for k
  proof (induction k)
    case 0
    then show ?case by simp
  next
    case (Suc k)
    have "v mod (LB ^ k * LB) = LB ^ k * (v div LB ^ k mod LB) + v mod LB ^ k"
      by (rule zmod_zmult2_eq) simp
    then show ?case
      using Suc.IH by (simp add: value_w_append value_w_Cons mult.commute)
  qed
  then show ?thesis by (simp add: words_def limb_simps)
qed

section \<open>Carry chains\<close>

text \<open>
  The inner loop of every row:
  \<^verbatim>\<open>
  c = 0
  for j in range(m):
      s = t[k + j] + v[j] + c
      t[k + j] = s & MASK
      c = s >> 64
  \<close>
\<close>

definition add_chain :: "nat \<Rightarrow> nat \<Rightarrow> int list \<Rightarrow> int list \<Rightarrow> int list \<times> int" where
  "add_chain m k v t =
     fold (\<lambda>j (t, c). let s = t ! (k + j) + v ! j + c
                      in (t[k + j := s AND MASK], drop_bit 64 s)) [0..<m] (t, 0)"

text \<open>
  The propagation loop:
  \<^verbatim>\<open>
  for k in range(lo, hi):
      s = t[k] + c
      t[k] = s & MASK
      c = s >> 64
  \<close>
\<close>

definition prop_chain :: "nat \<Rightarrow> nat \<Rightarrow> int list \<Rightarrow> int \<Rightarrow> int list \<times> int" where
  "prop_chain lo hi t c =
     fold (\<lambda>k (t, c). let s = t ! k + c
                      in (t[k := s AND MASK], drop_bit 64 s)) [lo..<hi] (t, c)"

text \<open>One step of a chain keeps the limbs, the carry bit and the value it carries.\<close>

lemma chain_step:
  assumes "limbs_ok t" and "i < length t" and "limb_ok x" and "0 \<le> c" "c \<le> 1"
  defines "s \<equiv> t ! i + x + c"
  shows "limbs_ok (t[i := s mod LB])" and "0 \<le> s div LB" and "s div LB \<le> 1"
    and "value_w (t[i := s mod LB]) + s div LB * LB ^ Suc i = value_w t + (x + c) * LB ^ i"
proof -
  have ti: "0 \<le> t ! i" "t ! i < LB" and x: "0 \<le> x" "x < LB"
    using limbs_ok_nth [OF assms(1,2)] assms(3) by (auto simp: limb_ok_def)
  show "limbs_ok (t[i := s mod LB])"
    using assms(1) by auto
  show "0 \<le> s div LB"
    using ti x assms(4) by (simp add: s_def pos_imp_zdiv_nonneg_iff)
  have "s < 2 * LB"
    using ti x assms(5) unfolding s_def by linarith
  then have "s div LB < 2"
    by (rule div_LB_less)
  then show "s div LB \<le> 1" by simp
  have "s mod LB + s div LB * LB = s" by simp
  then have "s mod LB * LB ^ i + s div LB * LB ^ Suc i = s * LB ^ i"
    by (metis distrib_right mult.assoc mult.commute power_Suc)
  then show "value_w (t[i := s mod LB]) + s div LB * LB ^ Suc i = value_w t + (x + c) * LB ^ i"
    using assms(2) by (simp add: value_w_update s_def algebra_simps)
qed

lemma add_chain_correct:
  assumes t: "limbs_ok t" and v: "limbs_ok v" and "m \<le> length v" and "k + m \<le> length t"
    and res: "add_chain m k v t = (t', c)"
  shows "length t' = length t" and "limbs_ok t'" and "0 \<le> c" and "c \<le> 1"
    and "value_w t' + c * LB ^ (k + m) = value_w t + value_w (take m v) * LB ^ k"
    and "\<And>i. i < k \<or> k + m \<le> i \<Longrightarrow> t' ! i = t ! i"
proof -
  define P where "P = (\<lambda>m (t', c). length t' = length t \<and> limbs_ok t' \<and> 0 \<le> c \<and> c \<le> 1
    \<and> value_w t' + c * LB ^ (k + m) = value_w t + value_w (take m v) * LB ^ k
    \<and> (\<forall>i. i < k \<or> k + m \<le> i \<longrightarrow> t' ! i = t ! i))"
  have "P m (fold (\<lambda>j (t, c). let s = t ! (k + j) + v ! j + c
                      in (t[k + j := s AND MASK], drop_bit 64 s)) [0..<m] (t, 0))"
  proof (rule fold_invariant)
    show "P 0 (t, 0)" using t by (simp add: P_def)
    fix j s assume j: "j < m" and Ps: "P j s"
    obtain u c where s: "s = (u, c)" by (cases s)
    have u: "limbs_ok u" "k + j < length u" "limb_ok (v ! j)" "0 \<le> c" "c \<le> 1"
      using Ps s j assms by (auto simp: P_def limbs_ok_nth)
    note step = chain_step [OF u]
    have tk: "value_w (take (Suc j) v) = value_w (take j v) + v ! j * LB ^ j"
      using j assms(3) by (intro value_w_take_Suc) simp
    show "P (Suc j) (case s of (t, c) \<Rightarrow> let s = t ! (k + j) + v ! j + c
                      in (t[k + j := s AND MASK], drop_bit 64 s))"
      using Ps step tk
      by (auto simp: s P_def Let_def limb_simps power_add algebra_simps)
  qed
  then have "P m (t', c)" using res by (simp add: add_chain_def)
  then show "length t' = length t" "limbs_ok t'" "0 \<le> c" "c \<le> 1"
    "value_w t' + c * LB ^ (k + m) = value_w t + value_w (take m v) * LB ^ k"
    "\<And>i. i < k \<or> k + m \<le> i \<Longrightarrow> t' ! i = t ! i"
    by (auto simp: P_def)
qed

lemma prop_chain_correct:
  assumes "limbs_ok t" and "lo \<le> hi" and "hi \<le> length t" and "0 \<le> c" and "c \<le> 1"
    and "prop_chain lo hi t c = (t', c')"
  shows "length t' = length t" and "limbs_ok t'" and "0 \<le> c'" and "c' \<le> 1"
    and "value_w t' + c' * LB ^ hi = value_w t + c * LB ^ lo"
    and "\<And>i. i < lo \<or> hi \<le> i \<Longrightarrow> t' ! i = t ! i"
proof -
  define f where "f = (\<lambda>k (t, c). let s = t ! k + c in (t[k := s AND MASK], drop_bit 64 s))"
  define P where "P = (\<lambda>k (t', c'). length t' = length t \<and> limbs_ok t' \<and> 0 \<le> c' \<and> c' \<le> 1
    \<and> value_w t' + c' * LB ^ (lo + k) = value_w t + c * LB ^ lo
    \<and> (\<forall>i. i < lo \<or> lo + k \<le> i \<longrightarrow> t' ! i = t ! i))"
  have "P k (fold f [lo..<lo + k] (t, c))" if "lo + k \<le> length t" for k
    using that
  proof (induction k)
    case 0
    then show ?case using assms by (simp add: P_def)
  next
    case (Suc k)
    obtain u d where s: "fold f [lo..<lo + k] (t, c) = (u, d)"
      by (cases "fold f [lo..<lo + k] (t, c)")
    with Suc have Ps: "P k (u, d)" by simp
    have u: "limbs_ok u" "lo + k < length u" "limb_ok 0" "0 \<le> d" "d \<le> 1"
      using Ps Suc.prems by (auto simp: P_def)
    have "fold f [lo..<lo + Suc k] (t, c) = f (lo + k) (u, d)"
      using s by simp
    also have "P (Suc k) (f (lo + k) (u, d))"
      using Ps chain_step [OF u]
      by (auto simp: P_def f_def Let_def limb_simps power_add algebra_simps)
    finally show ?case .
  qed
  from this[of "hi - lo"] have "P (hi - lo) (t', c')"
    using assms by (simp add: prop_chain_def f_def)
  then show "length t' = length t" "limbs_ok t'" "0 \<le> c'" "c' \<le> 1"
    "value_w t' + c' * LB ^ hi = value_w t + c * LB ^ lo"
    "\<And>i. i < lo \<or> hi \<le> i \<Longrightarrow> t' ! i = t ! i"
    using assms(2) by (auto simp: P_def)
qed

text \<open>The lowest limb a chain writes is final after its first step.\<close>

lemma add_chain_first:
  assumes "0 < m" and "k + m \<le> length t"
  shows "fst (add_chain m k v t) ! k = (t ! k + v ! 0) mod LB"
proof -
  define f where "f = (\<lambda>j (t, c). let s = t ! (k + j) + v ! j + c
                      in (t[k + j := s AND MASK], drop_bit 64 s))"
  have "fst (fold f [0..<Suc j] (t, 0)) ! k = (t ! k + v ! 0) mod LB" if "k < length t" for j
  proof (induction j)
    case 0
    show ?case using that by (simp add: f_def limb_simps Let_def)
  next
    case (Suc j)
    obtain u c where u: "fold f [0..<Suc j] (t, 0) = (u, c)"
      by (cases "fold f [0..<Suc j] (t, 0)")
    have "fold f [0..<Suc (Suc j)] (t, 0) = f (Suc j) (u, c)"
      using u by simp
    then show ?case using Suc u by (simp add: f_def Let_def)
  qed
  from this[of "m - 1"] show ?thesis
    using assms by (simp add: add_chain_def f_def)
qed

text \<open>
  The borrow chain of a four-limb subtraction:
  \<^verbatim>\<open>
  borrow = 0
  for j in range(4):
      s = x[j] - y[j] - borrow
      d[j] = s & MASK
      borrow = 1 if s < 0 else 0
  \<close>
\<close>

definition sub_chain :: "int list \<Rightarrow> int list \<Rightarrow> int list \<times> int" where
  "sub_chain x y =
     fold (\<lambda>j (d, borrow). let s = x ! j - y ! j - borrow
                           in (d[j := s AND MASK], if s < 0 then 1 else 0))
       [0..<4] (replicate 4 0, 0)"

lemma sub_chain_correct:
  assumes "length x = 4" "length y = 4" "limbs_ok x" "limbs_ok y"
    and res: "sub_chain x y = (d, borrow)"
  shows "length d = 4" "limbs_ok d" "borrow = 0 \<or> borrow = 1"
    and "value_w d - borrow * LB ^ 4 = value_w x - value_w y"
proof -
  define P where "P = (\<lambda>m (d, b). length d = 4 \<and> limbs_ok d \<and> (b = 0 \<or> b = 1)
    \<and> (\<forall>i. m \<le> i \<and> i < 4 \<longrightarrow> d ! i = 0)
    \<and> value_w d - b * LB ^ m = value_w (take m x) - value_w (take m y))"
  have "P 4 (fold (\<lambda>j (d, borrow). let s = x ! j - y ! j - borrow
                           in (d[j := s AND MASK], if s < 0 then 1 else (0::int)))
       [0..<4] (replicate 4 0, 0))"
  proof (rule fold_invariant)
    show "P 0 (replicate 4 0, 0)" by (simp add: P_def)
    fix j s assume j: "j < (4::nat)" and Ps: "P j s"
    obtain d b where s: "s = (d, b)" by (cases s)
    define e where "e = x ! j - y ! j - b"
    have lims: "0 \<le> x ! j" "x ! j < LB" "0 \<le> y ! j" "y ! j < LB"
      using assms j limbs_ok_nth [of x j] limbs_ok_nth [of y j] by (auto simp: limb_ok_def)
    then have e: "- LB \<le> e" "e < LB" using Ps s by (auto simp: P_def e_def)
    define q :: int where "q = (if e < 0 then 1 else 0)"
    have "e div LB = - q"
      using e by (auto simp: q_def div_pos_pos_trivial intro!: int_div_pos_eq [where r = "e + LB"])
    then have em: "e mod LB = e + q * LB"
      using div_mult_mod_eq [of e LB] by simp
    have "value_w (take (Suc j) x) = value_w (take j x) + x ! j * LB ^ j"
      "value_w (take (Suc j) y) = value_w (take j y) + y ! j * LB ^ j"
      using j assms by (auto intro!: value_w_take_Suc)
    moreover have "value_w (d[j := e mod LB]) - q * LB ^ Suc j = value_w d + e * LB ^ j"
      using Ps s j em by (simp add: P_def value_w_update algebra_simps)
    moreover have "value_w d - b * LB ^ j = value_w (take j x) - value_w (take j y)"
      using Ps s by (simp add: P_def)
    ultimately have "value_w (d[j := e mod LB]) - q * LB ^ Suc j
        = value_w (take (Suc j) x) - value_w (take (Suc j) y)"
      by (simp add: e_def algebra_simps)
    then have "P (Suc j) (d[j := e mod LB], q)"
      using Ps s by (auto simp: P_def q_def)
    then show "P (Suc j) (case s of (d, borrow) \<Rightarrow> let s = x ! j - y ! j - borrow
                           in (d[j := s AND MASK], if s < 0 then 1 else (0::int)))"
      by (simp add: s e_def q_def Let_def limb_simps)
  qed
  then have "P 4 (d, borrow)" using res by (simp add: sub_chain_def)
  then show "length d = 4" "limbs_ok d" "borrow = 0 \<or> borrow = 1"
    "value_w d - borrow * LB ^ 4 = value_w x - value_w y"
    using assms by (auto simp: P_def)
qed

lemma value_w_high_zero:
  assumes "limbs_ok t" and "k \<le> length t" and "\<And>j. k \<le> j \<Longrightarrow> j < length t \<Longrightarrow> t ! j = 0"
  shows "value_w t < LB ^ k"
proof -
  have "drop k t = replicate (length t - k) 0"
    using assms(3) by (intro nth_equalityI) auto
  then have "value_w t = value_w (take k t)"
    by (metis append_take_drop_id value_w_append value_w_replicate_0 mult_zero_right add_0_right)
  then show ?thesis
    using value_w_bounds [OF limbs_ok_take [OF assms(1), of k]] assms(2) by simp
qed

lemma value_w_low_zero:
  assumes "k \<le> length t" and "\<And>j. j < k \<Longrightarrow> t ! j = 0"
  shows "value_w t = LB ^ k * value_w (drop k t)"
proof -
  have "take k t = replicate k 0"
    using assms by (intro nth_equalityI) auto
  then show ?thesis
    by (metis append_take_drop_id value_w_append value_w_replicate_0 add_0_left length_replicate)
qed

section \<open>The limbs of a scalar product\<close>

text \<open>
  \<open>lo[j] = (a[j] * b) & MASK\<close> and \<open>hi[j] = (a[j] * b) >> 64\<close>, the two halves of
  every limb product of a row.
\<close>

definition lo_halves :: "int list \<Rightarrow> int \<Rightarrow> int list" where
  "lo_halves a b = map (\<lambda>j. (a ! j * b) AND MASK) [0..<4]"

definition hi_halves :: "int list \<Rightarrow> int \<Rightarrow> int list" where
  "hi_halves a b = map (\<lambda>j. drop_bit 64 (a ! j * b)) [0..<4]"

lemma length_halves [simp]: "length (lo_halves a b) = 4" "length (hi_halves a b) = 4"
  by (simp_all add: lo_halves_def hi_halves_def)

lemma limbs_ok_lo_halves [simp]: "limbs_ok (lo_halves a b)"
  by (auto simp: lo_halves_def limbs_ok_def limb_simps)

lemma limb_mult_high:
  assumes "limb_ok x" and "limb_ok y"
  shows "0 \<le> x * y div LB" and "x * y div LB \<le> LB - 2"
proof -
  have xy: "0 \<le> x" "x \<le> LB - 1" "0 \<le> y" "y \<le> LB - 1"
    using assms by (auto simp: limb_ok_def)
  show "0 \<le> x * y div LB" using xy by (simp add: pos_imp_zdiv_nonneg_iff)
  have "x * y \<le> (LB - 1) * (LB - 1)" using xy by (intro mult_mono) auto
  also have "\<dots> < (LB - 1) * LB" by (simp add: algebra_simps)
  finally have "x * y div LB < LB - 1" by (rule div_LB_less)
  then show "x * y div LB \<le> LB - 2" by simp
qed

lemma limbs_ok_hi_halves:
  assumes "limbs_ok a" and "length a = 4" and "limb_ok b"
  shows "limbs_ok (hi_halves a b)"
proof -
  have "limb_ok (a ! j * b div LB)" if "j < 4" for j
    using limb_mult_high [OF limbs_ok_nth [OF assms(1)] assms(3), of j] that assms(2)
    by (auto simp: limb_ok_def)
  then show ?thesis by (auto simp: hi_halves_def limbs_ok_def limb_simps)
qed

lemma value_halves:
  assumes "length a = 4"
  shows "value_w (lo_halves a b) + LB * value_w (hi_halves a b) = value_w a * b"
proof -
  obtain a0 a1 a2 a3 where a: "a = [a0, a1, a2, a3]"
    using assms by (rule list4_cases)
  have split: "x * b = x * b mod LB + LB * (x * b div LB)" for x
    by simp
  have u: "[0..<4] = [0, 1, 2, 3]" by (simp add: upt_rec)
  show ?thesis
    unfolding lo_halves_def hi_halves_def a u limb_simps
    apply (simp add: value_w_Cons)
    using split [of a0] split [of a1] split [of a2] split [of a3]
    by algebra
qed

end
