(* ===== verification/P256_Mont.thy ===== *)
theory P256_Mont
  imports Limbs
begin

text \<open>
  The Montgomery multiply of \<open>scripts/p256_scalar_inv_derivation.py\<close>
  (\<open>mont_mul_hw\<close>): a 4x4 schoolbook product followed by four reduction rounds and one
  conditional subtraction, in the word-and-carry order of the assembly. Every
  \<open>assert\<close> of the script is a \<open>py_assert\<close>, so that \<open>Some\<close> means that none fired.
\<close>

section \<open>Constants\<close>

definition N :: int where
  "N = 0xFFFFFFFF00000000FFFFFFFFFFFFFFFFBCE6FAADA7179E84F3B9CAC2FC632551"

definition R :: int where
  "R = push_bit 256 1"

definition RR :: int where
  "RR = (R * R) mod N"

text \<open>
  Python's \<open>pow(x, -1, m)\<close>: the inverse of \<open>x\<close> modulo \<open>m\<close>, in \<open>[0, m)\<close>. It raises
  \<open>ValueError\<close> where \<open>x\<close> has no inverse, which is \<open>None\<close> here.
\<close>

function egcd :: "int \<Rightarrow> int \<Rightarrow> int \<Rightarrow> int \<Rightarrow> int \<times> int" where
  "egcd r0 r1 s0 s1 =
     (if r1 \<le> 0 then (r0, s0) else egcd r1 (r0 mod r1) s1 (s0 - (r0 div r1) * s1))"
  by pat_completeness auto
termination
  by (relation "measure (\<lambda>(r0, r1, s0, s1). nat r1)") auto

declare egcd.simps [simp del]

definition pow_inv :: "int \<Rightarrow> int \<Rightarrow> int option" where
  "pow_inv x m = (case egcd (x mod m) m 1 0 of
     (g, s) \<Rightarrow> if g = 1 then Some (s mod m) else None)"

definition N0INV :: int where
  "N0INV = (case pow_inv N (push_bit 64 1) of Some i \<Rightarrow> (- i) mod push_bit 64 1 | None \<Rightarrow> 0)"

definition NW :: "int list" where
  "NW = map (\<lambda>i. drop_bit (64 * i) N AND MASK) [0..<4]"

section \<open>The multiply\<close>

definition product_row :: "int list \<Rightarrow> int list \<Rightarrow> nat \<Rightarrow> int list \<Rightarrow> int list option" where
  "product_row aw bw i t =
     (let bi = bw ! i;
          lo = lo_halves aw bi;
          hi = hi_halves aw bi;
          (t, c) = add_chain 4 i lo t;
          t = t[i + 4 := c];
          (t, c) = add_chain 4 (i + 1) hi t
      in do { py_assert (c = 0); Some t })"

definition product_4x4 :: "int list \<Rightarrow> int list \<Rightarrow> int list option" where
  "product_4x4 aw bw = do {
     t \<leftarrow> product_row aw bw 0 (replicate 8 0);
     t \<leftarrow> product_row aw bw 1 t;
     t \<leftarrow> product_row aw bw 2 t;
     product_row aw bw 3 t }"

definition mont_round :: "nat \<Rightarrow> int list \<times> int \<Rightarrow> (int list \<times> int) option" where
  "mont_round i = (\<lambda>(t, ext).
     let m = (t ! i * N0INV) AND MASK;
         lo = lo_halves NW m;
         hi = hi_halves NW m;
         (t, c) = add_chain 4 i lo t
     in do {
       py_assert (t ! i = 0);
       let c1 = c;
       let (t, c) = add_chain 3 (i + 1) hi t;
       let s = c1 + hi ! 3 + c;
       let c1 = s AND MASK;
       let c2 = drop_bit 64 s;
       py_assert (c2 \<le> 1);
       let s = t ! (i + 4) + c1;
       let t = t[i + 4 := s AND MASK];
       let c = drop_bit 64 s;
       let s = (if i + 5 \<le> 7 then t ! (i + 5) else ext) + c2 + c;
       let t = (if i + 5 \<le> 7 then t[i + 5 := s AND MASK] else t);
       let ext = (if i + 5 \<le> 7 then ext else s);
       let c = drop_bit 64 s;
       let (t, c) = prop_chain (i + 6) 8 t c;
       let ext = (if i + 6 \<le> 8 then ext + c else ext);
       py_assert (ext \<le> 1);
       Some (t, ext) })"

record mont_audit =
  au_ext :: int
  au_subtracted :: bool

definition mont_mul_hw :: "int list \<Rightarrow> int list \<Rightarrow> (int list \<times> mont_audit) option" where
  "mont_mul_hw aw bw = do {
     t \<leftarrow> product_4x4 aw bw;
     py_assert (value_w aw * value_w bw = value_w t);
     st \<leftarrow> mont_round 0 (t, 0);
     st \<leftarrow> mont_round 1 st;
     st \<leftarrow> mont_round 2 st;
     (t, ext) \<leftarrow> mont_round 3 st;
     let res = drop 4 t;
     let resv = value_w res + push_bit 256 ext;
     py_assert (resv < 2 * N);
     let (d, borrow) = sub_chain res NW;
     let borrow = (if ext - borrow < 0 then 1 else (0 :: int));
     let out = (if borrow \<noteq> 0 then res else d);
     let val = value_w out;
     py_assert (val < N);
     rinv \<leftarrow> pow_inv R N;
     py_assert (val = (value_w aw * value_w bw * rinv) mod N);
     Some (out, \<lparr>au_ext = ext, au_subtracted = (borrow = 0)\<rparr>) }"

definition mont_mul :: "int \<Rightarrow> int \<Rightarrow> int option" where
  "mont_mul a b = map_option (value_w \<circ> fst) (mont_mul_hw (words a) (words b))"

section \<open>Constants\<close>

lemma N_pos [simp]: "0 < N"
  by (simp add: N_def)

lemma N_ge_0 [simp]: "0 \<le> N"
  by (simp add: N_def)

lemma N_less: "N < LB ^ 4"
  by (simp add: N_def LB_def)

lemma R_LB: "R = LB ^ 4"
  by (simp add: R_def LB_def push_bit_eq_mult)

lemma push_256: "push_bit 256 (x :: int) = x * LB ^ 4"
  by (simp add: LB_def push_bit_eq_mult)

lemma NW_words: "NW = words N"
  by (simp add: NW_def words_def)

lemma NW_props [simp]: "length NW = 4" "limbs_ok NW" "value_w NW = N"
  using N_less N_pos by (simp_all add: NW_words value_words del: N_pos)

lemma N0INV_eq: "N0INV = 0xccd1c8aaee00bc4f"
  by code_simp

lemma N0INV_spec: "LB dvd 1 + NW ! 0 * N0INV"
proof -
  have "NW ! 0 = N mod LB"
    by (simp add: NW_def and_MASK)
  then show ?thesis
    unfolding N0INV_eq N_def LB_def by (simp add: dvd_eq_mod_eq_0)
qed

lemma egcd_invariant:
  assumes "egcd r0 r1 s0 s1 = (g, s)" and "m dvd s0 * x - r0" and "m dvd s1 * x - r1"
  shows "m dvd s * x - g"
  using assms
proof (induction r0 r1 s0 s1 rule: egcd.induct)
  case (1 r0 r1 s0 s1)
  show ?case
  proof (cases "r1 \<le> 0")
    case True
    with "1.prems" show ?thesis by (simp add: egcd.simps)
  next
    case False
    have "(s0 - r0 div r1 * s1) * x - r0 mod r1
        = (s0 * x - r0) - r0 div r1 * (s1 * x - r1)"
      by (simp add: algebra_simps minus_mult_div_eq_mod [symmetric])
    then have "m dvd (s0 - r0 div r1 * s1) * x - r0 mod r1"
      using "1.prems"(2,3) by simp
    moreover have "egcd r1 (r0 mod r1) s1 (s0 - r0 div r1 * s1) = (g, s)"
      using "1.prems"(1) False by (simp add: egcd.simps [of r0])
    ultimately show ?thesis using "1.IH" False "1.prems"(3) by simp
  qed
qed

lemma pow_inv_correct:
  assumes "pow_inv x m = Some i" and "0 < m"
  shows "m dvd x * i - 1" and "0 \<le> i" and "i < m"
proof -
  obtain g s where e: "egcd (x mod m) m 1 0 = (g, s)" by (cases "egcd (x mod m) m 1 0")
  with assms have g: "g = 1" and i: "i = s mod m"
    by (auto simp: pow_inv_def split: if_splits)
  have "m dvd 1 * x - x mod m" by (simp add: minus_mod_eq_mult_div)
  then have "m dvd s * x - 1"
    using egcd_invariant [OF e, of m x] g by simp
  moreover have "m dvd x * (s - s mod m)" by (simp add: minus_mod_eq_mult_div)
  ultimately have "m dvd (s * x - 1) - x * (s - s mod m)" by (rule dvd_diff)
  then show "m dvd x * i - 1" by (simp add: i algebra_simps)
  show "0 \<le> i" "i < m" using assms(2) by (simp_all add: i)
qed

section \<open>The product rows\<close>

lemma product_row_correct:
  assumes aw: "length aw = 4" "limbs_ok aw" and bw: "limb_ok (bw ! i)"
    and t: "length t = 8" "limbs_ok t" and i: "i < 4"
    and zero: "\<And>j. i + 4 \<le> j \<Longrightarrow> j < 8 \<Longrightarrow> t ! j = 0"
  obtains t' where "product_row aw bw i t = Some t'" "length t' = 8" "limbs_ok t'"
    "\<And>j. i + 5 \<le> j \<Longrightarrow> j < 8 \<Longrightarrow> t' ! j = 0"
    "value_w t' = value_w t + value_w aw * bw ! i * LB ^ i"
proof -
  define lo hi where "lo = lo_halves aw (bw ! i)" and "hi = hi_halves aw (bw ! i)"
  have hi: "limbs_ok hi" "length hi = 4"
    using limbs_ok_hi_halves [OF aw(2,1) bw] by (simp_all add: hi_def)
  have lo: "limbs_ok lo" "length lo = 4" by (simp_all add: lo_def)
  obtain t1 c1 where 1: "add_chain 4 i lo t = (t1, c1)" by (cases "add_chain 4 i lo t")
  have le1: "4 \<le> length lo" "i + 4 \<le> length t" using lo t i by auto
  note c1 = add_chain_correct [OF t(2) lo(1) le1 1]
  define t2 where "t2 = t1[i + 4 := c1]"
  have "limb_ok c1" using c1(3,4) LB_gt_1 unfolding limb_ok_def by linarith
  then have t2: "limbs_ok t2" "length t2 = 8"
    using c1(1,2) t by (auto simp: t2_def)
  have v2: "value_w t2 = value_w t + value_w lo * LB ^ i"
    using c1(5) c1(6) [of "i + 4"] zero [of "i + 4"] c1(1) t i lo
    by (simp add: t2_def value_w_update)
  obtain t3 c3 where 3: "add_chain 4 (i + 1) hi t2 = (t3, c3)"
    by (cases "add_chain 4 (i + 1) hi t2")
  have le3: "4 \<le> length hi" "i + 1 + 4 \<le> length t2" using hi t2 i by auto
  note c3 = add_chain_correct [OF t2(1) hi(1) le3 3]
  have total: "value_w t3 + c3 * LB ^ (i + 5) = value_w t + value_w aw * bw ! i * LB ^ i"
  proof -
    have "value_w t3 + c3 * LB ^ (i + 5) = value_w t + (value_w lo + LB * value_w hi) * LB ^ i"
      using c3(5) v2 hi(2) by (simp add: algebra_simps)
    then show ?thesis
      using value_halves [OF aw(1), of "bw ! i"] by (simp add: lo_def hi_def)
  qed
  have "value_w t < LB ^ (i + 4)"
    using t i zero by (intro value_w_high_zero) auto
  moreover have "value_w aw * bw ! i \<le> (LB ^ 4 - 1) * (LB - 1)"
    using value_w_bounds [OF aw(2)] aw(1) bw by (intro mult_mono) (auto simp: limb_ok_def)
  then have "value_w aw * bw ! i * LB ^ i \<le> (LB ^ 4 - 1) * (LB - 1) * LB ^ i"
    by (intro mult_right_mono) auto
  moreover have "(LB ^ 4 - 1) * (LB - 1) * LB ^ i
      = LB ^ (i + 5) - LB ^ (i + 4) - (LB - 1) * LB ^ i"
    by (simp add: algebra_simps power_add eval_nat_numeral)
  moreover have "0 \<le> (LB - 1) * LB ^ i" using LB_gt_1 by simp
  ultimately have "value_w t3 + c3 * LB ^ (i + 5) < 1 * LB ^ (i + 5)"
    using total by linarith
  moreover have "0 \<le> value_w t3" using value_w_bounds [OF c3(2)] by simp
  ultimately have "c3 * LB ^ (i + 5) < 1 * LB ^ (i + 5)" by linarith
  then have "c3 = 0" using c3(3) by (simp add: mult_less_cancel_right)
  show thesis
  proof
    show "product_row aw bw i t = Some t3"
      using 1 3 \<open>c3 = 0\<close> by (simp add: product_row_def lo_def hi_def t2_def)
    show "length t3 = 8" "limbs_ok t3" using c3(1,2) t2 by auto
    show "value_w t3 = value_w t + value_w aw * bw ! i * LB ^ i"
      using total \<open>c3 = 0\<close> by simp
    fix j assume j: "i + 5 \<le> j" "j < 8"
    then have "t3 ! j = t2 ! j" using c3(6) by simp
    also have "\<dots> = 0" using j c1(6) [of j] zero [of j] by (simp add: t2_def)
    finally show "t3 ! j = 0" .
  qed
qed

lemma product_4x4_correct:
  assumes aw: "length aw = 4" "limbs_ok aw" and bw: "length bw = 4" "limbs_ok bw"
  obtains t where "product_4x4 aw bw = Some t" "length t = 8" "limbs_ok t"
    "value_w t = value_w aw * value_w bw"
proof -
  have b: "limb_ok (bw ! i)" if "i < 4" for i using bw that by (simp add: limbs_ok_nth)
  obtain t0 where 0: "product_row aw bw 0 (replicate 8 0) = Some t0" "length t0 = 8" "limbs_ok t0"
    "\<And>j. 0 + 5 \<le> j \<Longrightarrow> j < 8 \<Longrightarrow> t0 ! j = 0"
    "value_w t0 = value_w (replicate 8 0) + value_w aw * bw ! 0 * LB ^ 0"
    by (rule product_row_correct [OF aw b, of 0 "replicate 8 0"]) auto
  obtain t1 where 1: "product_row aw bw 1 t0 = Some t1" "length t1 = 8" "limbs_ok t1"
    "\<And>j. 1 + 5 \<le> j \<Longrightarrow> j < 8 \<Longrightarrow> t1 ! j = 0"
    "value_w t1 = value_w t0 + value_w aw * bw ! 1 * LB ^ 1"
    by (rule product_row_correct [OF aw b 0(2,3), of 1]) (use 0(4) in auto)
  obtain t2 where 2: "product_row aw bw 2 t1 = Some t2" "length t2 = 8" "limbs_ok t2"
    "\<And>j. 2 + 5 \<le> j \<Longrightarrow> j < 8 \<Longrightarrow> t2 ! j = 0"
    "value_w t2 = value_w t1 + value_w aw * bw ! 2 * LB ^ 2"
    by (rule product_row_correct [OF aw b 1(2,3), of 2]) (use 1(4) in auto)
  obtain t3 where 3: "product_row aw bw 3 t2 = Some t3" "length t3 = 8" "limbs_ok t3"
    "value_w t3 = value_w t2 + value_w aw * bw ! 3 * LB ^ 3"
    by (rule product_row_correct [OF aw b 2(2,3), of 3]) (use 2(4) in auto)
  have "value_w bw = bw ! 0 + bw ! 1 * LB + bw ! 2 * LB ^ 2 + bw ! 3 * LB ^ 3"
    by (simp add: value_w_sum bw eval_nat_numeral)
  then have "value_w t3 = value_w aw * value_w bw"
    using 0(5) 1(5) 2(5) 3(4) by (simp add: algebra_simps)
  then show thesis
    using that [of t3] 0(1) 1(1) 2(1) 3 by (simp add: product_4x4_def)
qed

section \<open>The reduction rounds\<close>

lemma mont_round_correct:
  assumes t: "length t = 8" "limbs_ok t" and i: "i < 4" and ext: "0 \<le> ext"
    and low: "\<And>j. j < i \<Longrightarrow> t ! j = 0"
    and bound: "value_w t + ext * LB ^ 8 + (LB - 1) * N * LB ^ i < 2 * LB ^ 8"
  obtains t' ext' m where "mont_round i (t, ext) = Some (t', ext')" "length t' = 8" "limbs_ok t'"
    "0 \<le> ext'" "ext' \<le> 1" "0 \<le> m" "m < LB" "\<And>j. j < Suc i \<Longrightarrow> t' ! j = 0"
    "value_w t' + ext' * LB ^ 8 = value_w t + ext * LB ^ 8 + m * N * LB ^ i"
proof -
  define m where "m = (t ! i * N0INV) mod LB"
  have m: "0 \<le> m" "m < LB" "limb_ok m" by (simp_all add: m_def)
  define lo hi where "lo = lo_halves NW m" and "hi = hi_halves NW m"
  have hi: "limbs_ok hi" "length hi = 4"
    using limbs_ok_hi_halves [of NW m] m(3) by (simp_all add: hi_def)
  have lo: "limbs_ok lo" "length lo = 4" by (simp_all add: lo_def)
  have halves: "value_w lo + LB * value_w hi = m * N"
    using value_halves [of NW m] by (simp add: lo_def hi_def)
  obtain t1 c1 where 1: "add_chain 4 i lo t = (t1, c1)" by (cases "add_chain 4 i lo t")
  have le1: "4 \<le> length lo" "i + 4 \<le> length t" using lo t i by auto
  note c1 = add_chain_correct [OF t(2) lo(1) le1 1]
  have t1i: "t1 ! i = 0"
  proof -
    have "t1 ! i = (t ! i + lo ! 0) mod LB"
      using add_chain_first [of 4 i t lo] 1 t i by simp
    also have "lo ! 0 = NW ! 0 * m mod LB" by (simp add: lo_def lo_halves_def and_MASK)
    also have "(t ! i + NW ! 0 * m mod LB) mod LB = t ! i * (1 + NW ! 0 * N0INV) mod LB"
      by (simp add: m_def algebra_simps mod_simps)
    also have "\<dots> = 0" using N0INV_spec by (simp add: dvd_eq_mod_eq_0 [symmetric])
    finally show ?thesis .
  qed
  obtain t2 c2 where 2: "add_chain 3 (i + 1) hi t1 = (t2, c2)"
    by (cases "add_chain 3 (i + 1) hi t1")
  have le2: "3 \<le> length hi" "i + 1 + 3 \<le> length t1" using hi c1(1) t i by auto
  note c2 = add_chain_correct [OF c1(2) hi(1) le2 2]
  have hi3: "0 \<le> hi ! 3" "hi ! 3 \<le> LB - 2"
    using limb_mult_high [OF limbs_ok_nth [of NW 3] m(3)]
    by (simp_all add: hi_def hi_halves_def drop_64)
  define s where "s = c1 + hi ! 3 + c2"
  have s: "0 \<le> s" "s \<le> LB" using hi3 c1(3,4) c2(3,4) by (auto simp: s_def)
  have vs: "value_w t2 + s * LB ^ (i + 4) = value_w t + m * N * LB ^ i"
  proof -
    have "take (Suc 3) hi = hi" using hi(2) by simp
    then have h: "value_w hi = value_w (take 3 hi) + hi ! 3 * LB ^ 3"
      using value_w_take_Suc [of 3 hi] hi(2) by simp
    have "value_w t2 + s * LB ^ (i + 4) = value_w t + (value_w lo + LB * value_w hi) * LB ^ i"
      using c1(5) c2(5) lo(2) unfolding s_def h
      by (simp add: algebra_simps power_add eval_nat_numeral)
    then show ?thesis using halves by simp
  qed
  have "s < 2 * LB" using s LB_pos by linarith
  then have sd: "0 \<le> s div LB" "s div LB \<le> 1" "s = s mod LB + s div LB * LB"
    using s div_LB_less [of s 2] by (auto simp: pos_imp_zdiv_nonneg_iff)
  define u where "u = t2 ! (i + 4) + s mod LB"
  define t3 where "t3 = t2[i + 4 := u mod LB]"
  have l2: "limbs_ok t2" "i + 4 < length t2" "limb_ok (s mod LB)" "(0::int) \<le> 0" "0 \<le> (1::int)"
    using c1(1) c2(1,2) t i by auto
  note st3 = chain_step [OF l2]
  have t3: "limbs_ok t3" "length t3 = 8" "0 \<le> u div LB" "u div LB \<le> 1"
    "value_w t3 + u div LB * LB ^ (i + 5) = value_w t2 + s mod LB * LB ^ (i + 4)"
    using st3 c1(1) c2(1) t by (simp_all add: t3_def u_def add.commute)
  have v3: "value_w t3 + (s div LB + u div LB) * LB ^ (i + 5) = value_w t + m * N * LB ^ i"
  proof -
    have "s * LB ^ (i + 4) = s mod LB * LB ^ (i + 4) + s div LB * LB ^ (i + 5)"
    proof -
      have "LB ^ (i + 5) = LB * LB ^ (i + 4)" by (simp flip: power_Suc)
      then have "s mod LB * LB ^ (i + 4) + s div LB * LB ^ (i + 5)
          = (s mod LB + s div LB * LB) * LB ^ (i + 4)"
        by (simp only: distrib_right mult.assoc)
      then show ?thesis using sd(3) by simp
    qed
    then show ?thesis using vs t3(5) by (simp add: algebra_simps)
  qed
  have low3: "t3 ! j = 0" if "j < Suc i" for j
    using that low [of j] t1i c1(6) [of j] c2(6) [of j] by (cases "j = i") (auto simp: t3_def)
  define R where "R = (\<lambda>t' ext'. length t' = 8 \<and> limbs_ok t' \<and> 0 \<le> ext'
     \<and> (\<forall>j < Suc i. t' ! j = 0)
     \<and> value_w t' + ext' * LB ^ 8 = value_w t + ext * LB ^ 8 + m * N * LB ^ i)"
  have fin: "ext' \<le> 1" if "R t' ext'" for t' ext'
  proof -
    have "m * N * LB ^ i \<le> (LB - 1) * N * LB ^ i"
      using m(2) N_pos by (intro mult_right_mono) auto
    moreover have "0 \<le> value_w t'" using that value_w_bounds by (simp add: R_def)
    ultimately have "ext' * LB ^ 8 < 2 * LB ^ 8"
      using that bound unfolding R_def by linarith
    then show ?thesis by (simp add: mult_less_cancel_right)
  qed
  show thesis
  proof (cases "i + 5 \<le> 7")
    case True
    define w where "w = t3 ! (i + 5) + s div LB + u div LB"
    define t4 where "t4 = t3[i + 5 := w mod LB]"
    have "limb_ok (s div LB)" using sd(1,2) LB_gt_1 unfolding limb_ok_def by linarith
    then have l3: "limbs_ok t3" "i + 5 < length t3" "limb_ok (s div LB)" "0 \<le> u div LB" "u div LB \<le> 1"
      using t3 True by auto
    note st4 = chain_step [OF l3, folded w_def, folded t4_def]
    obtain t5 c5 where 5: "prop_chain (i + 6) 8 t4 (w div LB) = (t5, c5)"
      by (cases "prop_chain (i + 6) 8 t4 (w div LB)")
    have l4: "i + 6 \<le> 8" "8 \<le> length t4" using True t3(2) by (auto simp: t4_def)
    note c5 = prop_chain_correct [OF st4(1) l4 st4(2,3) 5]
    have RR: "R t5 (ext + c5)"
      using c5 st4(4) v3 ext t3(2) True low3
      by (auto simp: R_def t4_def algebra_simps)
    have w2: "t2 ! (i + 5) + s div LB + u div LB = w"
      by (simp add: w_def t3_def)
    have "mont_round i (t, ext) = Some (t5, ext + c5)"
      using 1 2 5 t1i sd(2) True fin [OF RR] l4
      by (simp add: mont_round_def limb_simps Let_def w2
          flip: m_def lo_def hi_def s_def u_def t3_def t4_def)
    then show thesis using that RR fin [OF RR] m unfolding R_def by blast
  next
    case False
    with i have i3: "i = 3" by simp
    have RR: "R t3 (ext + s div LB + u div LB)"
      using v3 ext t3 sd low3 by (auto simp: R_def i3 algebra_simps)
    have "\<not> i + 6 \<le> 8" "[i + 6..<8] = []" using i3 by simp_all
    then have "mont_round i (t, ext) = Some (t3, ext + s div LB + u div LB)"
      using 1 2 t1i sd(2) fin [OF RR] False
      by (simp add: mont_round_def limb_simps Let_def prop_chain_def
          flip: m_def lo_def hi_def s_def u_def t3_def)
    then show thesis using that RR fin [OF RR] m unfolding R_def by blast
  qed
qed

text \<open>
  The four rounds: from \<open>t\<close> the state holds \<open>t + n * M\<close> for some \<open>M < LB ^ i\<close>, with
  its lowest \<open>i\<close> limbs zero.
\<close>

definition mont_inv :: "int \<Rightarrow> nat \<Rightarrow> int list \<times> int \<Rightarrow> bool" where
  "mont_inv v i = (\<lambda>(t, ext). length t = 8 \<and> limbs_ok t \<and> 0 \<le> ext \<and> ext \<le> 1
     \<and> (\<forall>j < i. t ! j = 0)
     \<and> (\<exists>M. 0 \<le> M \<and> M < LB ^ i \<and> value_w t + ext * LB ^ 8 = v + N * M))"

lemma mont_round_inv:
  assumes inv: "mont_inv v i st" and i: "i < 4" and v: "v < LB ^ 8"
  obtains st' where "mont_round i st = Some st'" "mont_inv v (Suc i) st'"
proof -
  obtain t ext where st: "st = (t, ext)" by (cases st)
  from inv obtain M where t: "length t = 8" "limbs_ok t" "0 \<le> ext" "ext \<le> 1"
    and low: "\<And>j. j < i \<Longrightarrow> t ! j = 0"
    and M: "0 \<le> M" "M < LB ^ i" "value_w t + ext * LB ^ 8 = v + N * M"
    by (auto simp: mont_inv_def st)
  have Ni: "N * LB ^ Suc i \<le> LB ^ 8"
  proof -
    have "N * LB ^ Suc i \<le> LB ^ 4 * LB ^ 4"
      using N_less N_pos i LB_gt_1 by (intro mult_mono power_increasing) auto
    then show ?thesis by (simp flip: power_add)
  qed
  have "N * M \<le> N * (LB ^ i - 1)" using M N_pos by (intro mult_left_mono) auto
  then have "v + N * M + (LB - 1) * N * LB ^ i < LB ^ 8 + N * LB ^ Suc i"
    using v N_pos by (simp add: algebra_simps del: N_pos)
  then have bound: "value_w t + ext * LB ^ 8 + (LB - 1) * N * LB ^ i < 2 * LB ^ 8"
    using Ni M(3) by linarith
  obtain t' ext' m where r: "mont_round i (t, ext) = Some (t', ext')" "length t' = 8" "limbs_ok t'"
    "0 \<le> ext'" "ext' \<le> 1" "0 \<le> m" "m < LB" "\<And>j. j < Suc i \<Longrightarrow> t' ! j = 0"
    "value_w t' + ext' * LB ^ 8 = value_w t + ext * LB ^ 8 + m * N * LB ^ i"
    using mont_round_correct [OF t(1,2) i t(3) low bound] by metis
  have "M + m * LB ^ i < LB ^ Suc i"
  proof -
    have "m * LB ^ i \<le> (LB - 1) * LB ^ i" using r(7) by (intro mult_right_mono) auto
    then show ?thesis using M(2) by (simp add: algebra_simps)
  qed
  moreover have "value_w t' + ext' * LB ^ 8 = v + N * (M + m * LB ^ i)"
    using r(9) M(3) by (simp add: algebra_simps)
  ultimately have "mont_inv v (Suc i) (t', ext')"
    using r M(1) by (auto simp: mont_inv_def intro!: exI [of _ "M + m * LB ^ i"])
  then show thesis using that r(1) st by simp
qed

lemma mont_rounds:
  assumes t: "length t = 8" "limbs_ok t"
  obtains s0 s1 s2 t' ext where "mont_round 0 (t, 0) = Some s0" "mont_round 1 s0 = Some s1"
    "mont_round 2 s1 = Some s2" "mont_round 3 s2 = Some (t', ext)" "mont_inv (value_w t) 4 (t', ext)"
proof -
  have v: "value_w t < LB ^ 8" using value_w_bounds [OF t(2)] t(1) by simp
  have "mont_inv (value_w t) 0 (t, 0)" using t by (auto simp: mont_inv_def)
  then obtain s0 where 0: "mont_round 0 (t, 0) = Some s0" "mont_inv (value_w t) (Suc 0) s0"
    by (rule mont_round_inv [OF _ _ v]) auto
  obtain s1 where 1: "mont_round (Suc 0) s0 = Some s1" "mont_inv (value_w t) (Suc (Suc 0)) s1"
    by (rule mont_round_inv [OF 0(2) _ v]) auto
  obtain s2 where 2: "mont_round (Suc (Suc 0)) s1 = Some s2"
    "mont_inv (value_w t) (Suc (Suc (Suc 0))) s2"
    by (rule mont_round_inv [OF 1(2) _ v]) auto
  obtain s3 where 3: "mont_round (Suc (Suc (Suc 0))) s2 = Some s3"
    "mont_inv (value_w t) (Suc (Suc (Suc (Suc 0)))) s3"
    by (rule mont_round_inv [OF 2(2) _ v]) auto
  show thesis
    using that [of s0 s1 s2 "fst s3" "snd s3"] 0 1 2 3 by (simp add: eval_nat_numeral)
qed

section \<open>The whole multiply\<close>

lemma final_subtract:
  assumes res: "length res = 4" "limbs_ok res" and ext: "0 \<le> ext" "ext \<le> 1"
    and bound: "value_w res + ext * LB ^ 4 < 2 * N"
    and sub: "sub_chain res NW = (d, borrow)"
    and out: "out = (if ext - borrow < 0 then res else d)"
  shows "limbs_ok out" "length out = 4" "value_w out = (value_w res + ext * LB ^ 4) mod N"
proof -
  note d = sub_chain_correct [OF res(1) NW_props(1) res(2) NW_props(2) sub]
  show "limbs_ok out" "length out = 4" using d res by (auto simp: out)
  have eq: "value_w res + ext * LB ^ 4 - N = value_w d + (ext - borrow) * LB ^ 4"
    using d(4) by (simp add: algebra_simps)
  have dpos: "0 \<le> value_w d" "value_w d < LB ^ 4" using value_w_bounds [OF d(2)] d(1) by auto
  have rpos: "0 \<le> value_w res" using value_w_bounds [OF res(2)] by simp
  show "value_w out = (value_w res + ext * LB ^ 4) mod N"
  proof (cases "ext - borrow < 0")
    case True
    with ext d(3) have e: "ext = 0" "borrow = 1" by auto
    then have "value_w res < N" using eq dpos by simp
    then show ?thesis using True e rpos by (simp add: out)
  next
    case False
    have "ext - borrow = 0"
    proof (rule ccontr)
      assume "ext - borrow \<noteq> 0"
      with False ext d(3) have "ext - borrow = 1" by auto
      then show False using eq dpos bound N_less by simp
    qed
    then have v: "value_w res + ext * LB ^ 4 = value_w d + N" using eq by simp
    then have "value_w d < N" using bound by linarith
    then show ?thesis using False dpos v by (simp add: out)
  qed
qed

lemma pow_inv_R: "pow_inv R N \<noteq> None"
  by code_simp

text \<open>
  The multiply returns (no assert fires) whenever the product of its operands is below
  \<open>n * 2^256\<close>, and its result is the Montgomery product, reduced.
\<close>

lemma mont_mul_hw_correct:
  assumes aw: "length aw = 4" "limbs_ok aw" and bw: "length bw = 4" "limbs_ok bw"
    and bound: "value_w aw * value_w bw < N * LB ^ 4"
  obtains out au where "mont_mul_hw aw bw = Some (out, au)" "length out = 4" "limbs_ok out"
    "0 \<le> value_w out" "value_w out < N" "N dvd value_w out * R - value_w aw * value_w bw"
proof -
  obtain t where t: "product_4x4 aw bw = Some t" "length t = 8" "limbs_ok t"
    "value_w t = value_w aw * value_w bw"
    by (rule product_4x4_correct [OF aw bw])
  obtain s0 s1 s2 u ext where r: "mont_round 0 (t, 0) = Some s0" "mont_round 1 s0 = Some s1"
    "mont_round 2 s1 = Some s2" "mont_round 3 s2 = Some (u, ext)" "mont_inv (value_w t) 4 (u, ext)"
    by (rule mont_rounds [OF t(2,3)])
  then obtain M where u: "length u = 8" "limbs_ok u" "0 \<le> ext" "ext \<le> 1"
    and low: "\<And>j. j < 4 \<Longrightarrow> u ! j = 0"
    and M: "0 \<le> M" "M < LB ^ 4" "value_w u + ext * LB ^ 8 = value_w aw * value_w bw + N * M"
    by (auto simp: mont_inv_def t(4))
  define res where "res = drop 4 u"
  have res: "length res = 4" "limbs_ok res" using u by (auto simp: res_def limbs_ok_drop)
  define resv where "resv = value_w res + ext * LB ^ 4"
  have "value_w u = LB ^ 4 * value_w res"
    unfolding res_def by (rule value_w_low_zero) (use u low in auto)
  then have resv: "resv * LB ^ 4 = value_w aw * value_w bw + N * M"
    using M(3) by (simp add: resv_def algebra_simps flip: power_add)
  have "N * M \<le> N * LB ^ 4" using M(2) by (intro mult_left_mono) auto
  then have "resv * LB ^ 4 < (2 * N) * LB ^ 4"
    using resv bound unfolding mult.assoc [of 2] by linarith
  then have lt: "resv < 2 * N" by (simp add: mult_less_cancel_right)
  obtain d borrow where sub: "sub_chain res NW = (d, borrow)" by (cases "sub_chain res NW")
  define out where "out = (if ext - borrow < 0 then res else d)"
  note f = final_subtract [OF res u(3,4) lt [unfolded resv_def] sub out_def, folded resv_def]
  have "0 \<le> value_w out" "value_w out < N" using f(3) by simp_all
  have cong: "N dvd value_w out * R - value_w aw * value_w bw"
  proof -
    have "N dvd (resv - resv mod N) * R" by (simp add: minus_mod_eq_mult_div)
    moreover have "resv * R - value_w aw * value_w bw = N * M"
      using resv by (simp add: R_LB)
    ultimately have "N dvd (resv * R - value_w aw * value_w bw) - (resv - resv mod N) * R"
      by (metis dvd_diff dvd_triv_left)
    then show ?thesis by (simp add: f(3) algebra_simps)
  qed
  obtain rinv where ri: "pow_inv R N = Some rinv" using pow_inv_R by blast
  have "N dvd R * rinv - 1" using pow_inv_correct(1) [OF ri] by simp
  then have "N dvd (value_w out * R - value_w aw * value_w bw) * rinv - value_w out * (R * rinv - 1)"
    using cong by (intro dvd_diff) auto
  then have "N dvd value_w out - value_w aw * value_w bw * rinv"
    by (simp add: algebra_simps)
  then have last: "value_w out = (value_w aw * value_w bw * rinv) mod N"
    using \<open>0 \<le> value_w out\<close> \<open>value_w out < N\<close>
    by (metis mod_eq_dvd_iff mod_pos_pos_trivial)
  have "mont_mul_hw aw bw = Some (out, \<lparr>au_ext = ext, au_subtracted = \<not> ext - borrow < 0\<rparr>)"
    using t(1,4) r lt sub ri last [symmetric] \<open>value_w out < N\<close>
    by (cases "ext - borrow < 0")
       (simp_all add: mont_mul_hw_def push_256 out_def Let_def flip: res_def resv_def)
  then show thesis
    using that f \<open>0 \<le> value_w out\<close> \<open>value_w out < N\<close> cong by blast
qed

text \<open>
  C1. The word-level Montgomery multiply is total and right: on four-limb operands
  whose product is below \<open>n * 2^256\<close> none of its asserts fires (no carry is dropped),
  and the four limbs it returns are the canonical residue \<open>a * b * R^-1\<close> modulo \<open>n\<close>.
\<close>

theorem mont_mul_hw_total:
  assumes "length aw = 4" and "limbs_ok aw" and "length bw = 4" and "limbs_ok bw"
    and "value_w aw * value_w bw < N * 2 ^ 256"
  shows "\<exists>out au. mont_mul_hw aw bw = Some (out, au) \<and> length out = 4 \<and> limbs_ok out
    \<and> value_w out < N \<and> (value_w out * R) mod N = (value_w aw * value_w bw) mod N"
proof -
  have "value_w aw * value_w bw < N * LB ^ 4" using assms(5) by (simp add: LB_def)
  then obtain out au where "mont_mul_hw aw bw = Some (out, au)" "length out = 4" "limbs_ok out"
      "value_w out < N" "N dvd value_w out * R - value_w aw * value_w bw"
    using mont_mul_hw_correct [OF assms(1-4)] by metis
  then show ?thesis by (auto simp: mod_eq_dvd_iff)
qed

theorem mont_mul_hw_total_witness:
  "\<exists>out au. mont_mul_hw [0xFFFFFFFFFFFFFFFF, 7, 0, 1] [5, 0, 0xFFFFFFFFFFFFFFFF, 9] = Some (out, au)
    \<and> length out = 4 \<and> limbs_ok out \<and> value_w out < N
    \<and> (value_w out * R) mod N
      = (value_w [0xFFFFFFFFFFFFFFFF, 7, 0, 1] * value_w [5, 0, 0xFFFFFFFFFFFFFFFF, 9]) mod N"
  by (rule mont_mul_hw_total; code_simp)

end
