(* ===== verification/P256_Scalar_Inv.thy ===== *)
theory P256_Scalar_Inv
  imports P256_Mont
begin

text \<open>
  Scalar inversion modulo the group order
  (\<open>scripts/p256_scalar_inv_derivation.py\<close>): the addition-chain program for
  \<open>n - 2\<close> (\<open>build_chain\<close>), its interpreter over an opaque multiply (\<open>run_chain\<close>) and
  the inversion that runs it in Montgomery form (\<open>scalar_inv_hw\<close>).

  The interface between the interpreter and the multiply is the locale
  \<open>chain_mul\<close>: a multiply that adds the exponents its operands stand for. Integer
  addition (how the script replays the chain on the exponents themselves) and the
  Montgomery multiply are its two interpretations.
\<close>

section \<open>The program\<close>

definition E :: int where
  "E = N - 2"

definition SLOT :: "(nat \<times> nat) list" where
  "SLOT = [(1, 0), (2, 1), (3, 2), (4, 3), (5, 4), (6, 5), (8, 6), (16, 7), (32, 8)]"

definition ACC :: nat where "ACC = 9"
definition NSLOTS :: nat where "NSLOTS = 10"
definition NO_MUL :: nat where "NO_MUL = 0xFF"

type_synonym chain_insn = "nat \<times> nat \<times> nat \<times> nat"

text \<open>\<open>SLOT[k]\<close>, a \<open>KeyError\<close> being \<open>None\<close>.\<close>

definition slot :: "nat \<Rightarrow> nat option" where
  "slot k = map_of SLOT k"

text \<open>\<open>bin(n)[2:]\<close> for a non-negative integer.\<close>

function bin_digits :: "int \<Rightarrow> string" where
  "bin_digits n =
     (if n < 2 then [if n = 1 then CHR ''1'' else CHR ''0'']
      else bin_digits (n div 2) @ [if n mod 2 = 1 then CHR ''1'' else CHR ''0''])"
  by pat_completeness auto
termination
  by (relation "measure nat") auto

declare bin_digits.simps [simp del]

text \<open>
  The loop over the unstructured low bits: one instruction per run of ones, after the
  zeros pending before it. A run length outside the ladder, or zeros left over at the
  end, fail the script's asserts.
\<close>

function low_runs :: "string \<Rightarrow> nat \<Rightarrow> chain_insn list option" where
  "low_runs [] pending = do { py_assert (pending = 0); Some [] }"
| "low_runs (c # cs) pending =
     (if c = CHR ''0'' then low_runs cs (Suc pending)
      else if c = CHR ''1'' then
        (let run = Suc (length (takeWhile (\<lambda>d. d = CHR ''1'') cs));
             rest = low_runs (dropWhile (\<lambda>d. d = CHR ''1'') cs) 0
         in do { s \<leftarrow> slot run; prog \<leftarrow> rest; Some ((ACC, ACC, pending + run, s) # prog) })
      else None)"
  by pat_completeness auto
termination
  by (relation "measure (\<lambda>(s, p). length s)") (auto simp: le_imp_less_Suc length_dropWhile_le)

definition ladder :: "chain_insn list option" where
  "ladder = do {
     s1 \<leftarrow> slot 1;
     small \<leftarrow> those (map (\<lambda>k. do { d \<leftarrow> slot k; s \<leftarrow> slot (k - 1); Some (d, s, 1, s1) }) [2, 3, 4, 5, 6]);
     doubling \<leftarrow> those (map (\<lambda>k. do { d \<leftarrow> slot k; s \<leftarrow> slot (k div 2); Some (d, s, k div 2, s) }) [8, 16, 32]);
     Some (small @ doubling) }"

definition build_chain :: "chain_insn list option" where
  "build_chain = do {
     prog \<leftarrow> ladder;
     let bits = bin_digits E;
     py_assert (length bits = 256);
     py_assert (take 32 bits = replicate 32 CHR ''1'' \<and> take 32 (drop 32 bits) = replicate 32 CHR ''0'');
     py_assert (take 65 (drop 64 bits) = replicate 65 CHR ''1'');
     s32 \<leftarrow> slot 32;
     s1 \<leftarrow> slot 1;
     let main = [(ACC, s32, 32, NO_MUL), (ACC, ACC, 32, s32), (ACC, ACC, 32, s32), (ACC, ACC, 1, s1)];
     low \<leftarrow> low_runs (drop 129 bits) 0;
     Some (prog @ main @ low) }"

definition chain_cost :: "chain_insn list \<Rightarrow> nat \<times> nat" where
  "chain_cost prog =
     (sum_list (map (\<lambda>(_, _, nsq, _). nsq) prog),
      length (filter (\<lambda>(_, _, _, m). m \<noteq> NO_MUL) prog))"

section \<open>The interpreter\<close>

text \<open>
  A slot holds \<open>None\<close> until it is written; multiplying an unwritten slot, or an
  index out of range, is an exception of the script. \<open>mul\<close> itself may fail (an assert
  of the Montgomery model).
\<close>

definition slot_get :: "'a option list \<Rightarrow> nat \<Rightarrow> 'a option" where
  "slot_get slots i = (if i < length slots then slots ! i else None)"

fun square_times :: "('a \<Rightarrow> 'a \<Rightarrow> 'a option) \<Rightarrow> nat \<Rightarrow> 'a \<Rightarrow> 'a option" where
  "square_times mul 0 t = Some t"
| "square_times mul (Suc n) t = do { t \<leftarrow> mul t t; square_times mul n t }"

definition mul_slot :: "('a \<Rightarrow> 'a \<Rightarrow> 'a option) \<Rightarrow> 'a option list \<Rightarrow> nat \<Rightarrow> 'a \<Rightarrow> 'a option" where
  "mul_slot mul slots m t =
     (if m \<noteq> NO_MUL then do { y \<leftarrow> slot_get slots m; mul t y } else Some t)"

definition run_insn ::
  "('a \<Rightarrow> 'a \<Rightarrow> 'a option) \<Rightarrow> chain_insn \<Rightarrow> 'a option list \<Rightarrow> 'a option list option" where
  "run_insn mul insn slots = (case insn of (dst, src, nsq, m) \<Rightarrow> do {
     t \<leftarrow> slot_get slots src;
     t \<leftarrow> square_times mul nsq t;
     t \<leftarrow> mul_slot mul slots m t;
     if dst < length slots then Some (slots[dst := Some t]) else None })"

fun run_prog ::
  "('a \<Rightarrow> 'a \<Rightarrow> 'a option) \<Rightarrow> chain_insn list \<Rightarrow> 'a option list \<Rightarrow> 'a option list option" where
  "run_prog mul [] slots = Some slots"
| "run_prog mul (i # is) slots = do { slots \<leftarrow> run_insn mul i slots; run_prog mul is slots }"

definition run_chain :: "'a \<Rightarrow> chain_insn list \<Rightarrow> ('a \<Rightarrow> 'a \<Rightarrow> 'a option) \<Rightarrow> 'a option" where
  "run_chain x prog mul = do {
     s1 \<leftarrow> slot 1;
     slots \<leftarrow> run_prog mul prog ((replicate NSLOTS None)[s1 := Some x]);
     slot_get slots ACC }"

definition scalar_inv_hw :: "int \<Rightarrow> int option" where
  "scalar_inv_hw a = do {
     let x = a mod N;
     xm \<leftarrow> mont_mul x RR;
     prog \<leftarrow> build_chain;
     accm \<leftarrow> run_chain xm prog mont_mul;
     mont_mul accm 1 }"

section \<open>The interface of the multiply\<close>

text \<open>
  \<open>rep e a\<close> reads: the value \<open>a\<close> stands for the exponent \<open>e\<close>. Multiplying adds
  exponents and does not fail on values that stand for one.
\<close>

locale chain_mul =
  fixes mul :: "'a \<Rightarrow> 'a \<Rightarrow> 'a option"
    and rep :: "int \<Rightarrow> 'a \<Rightarrow> bool"
  assumes mul_rep: "rep e a \<Longrightarrow> rep f b \<Longrightarrow> \<exists>c. mul a b = Some c \<and> rep (e + f) c"
begin

abbreviation slots_rel :: "int option list \<Rightarrow> 'a option list \<Rightarrow> bool" where
  "slots_rel \<equiv> list_all2 (rel_option rep)"

lemma slot_get_rel:
  assumes "slots_rel es xs" and "slot_get es i = Some e"
  obtains a where "slot_get xs i = Some a" "rep e a"
proof -
  from assms have i: "i < length es" "es ! i = Some e"
    by (auto simp: slot_get_def split: if_splits)
  then have "rel_option rep (Some e) (xs ! i)" and "length es = length xs"
    using assms(1) by (force simp: list_all2_conv_all_nth)+
  then show thesis
    using that i by (auto simp: slot_get_def option_rel_Some1)
qed

lemma square_times_rel:
  "rep e a \<Longrightarrow> square_times (\<lambda>a b. Some (a + b)) n e = Some e'
    \<Longrightarrow> \<exists>a'. square_times mul n a = Some a' \<and> rep e' a'"
proof (induction n arbitrary: e a)
  case 0
  then show ?case by simp
next
  case (Suc n)
  from mul_rep [OF Suc.prems(1) Suc.prems(1)] obtain c where "mul a a = Some c" "rep (e + e) c"
    by blast
  then show ?case using Suc by simp
qed

lemma run_insn_rel:
  assumes rel: "slots_rel es xs" and run: "run_insn (\<lambda>a b. Some (a + b)) i es = Some es'"
  obtains xs' where "run_insn mul i xs = Some xs'" "slots_rel es' xs'"
proof -
  obtain dst src nsq m where i: "i = (dst, src, nsq, m)" by (cases i)
  from run obtain e0 e1 e2 where e: "slot_get es src = Some e0"
      "square_times (\<lambda>a b. Some (a + b)) nsq e0 = Some e1"
      "mul_slot (\<lambda>a b. Some (a + b)) es m e1 = Some e2"
      "dst < length es" "es' = es[dst := Some e2]"
    by (auto simp: run_insn_def i bind_eq_Some_conv split: if_splits)
  obtain a0 where a0: "slot_get xs src = Some a0" "rep e0 a0"
    by (rule slot_get_rel [OF rel e(1)])
  obtain a1 where a1: "square_times mul nsq a0 = Some a1" "rep e1 a1"
    using square_times_rel [OF a0(2) e(2)] by blast
  obtain a2 where a2: "mul_slot mul xs m a1 = Some a2" "rep e2 a2"
  proof (cases "m = NO_MUL")
    case True
    then show thesis using that e(3) a1(2) by (simp add: mul_slot_def)
  next
    case False
    then obtain y where y: "slot_get es m = Some y" "e2 = e1 + y"
      using e(3) by (auto simp: mul_slot_def bind_eq_Some_conv)
    obtain b where b: "slot_get xs m = Some b" "rep y b"
      by (rule slot_get_rel [OF rel y(1)])
    obtain c where "mul a1 b = Some c" "rep (e1 + y) c"
      using mul_rep [OF a1(2) b(2)] by blast
    then show thesis using that False b y by (simp add: mul_slot_def)
  qed
  have "run_insn mul i xs = Some (xs[dst := Some a2])"
    using a0 a1 a2 e(4) rel by (simp add: run_insn_def i list_all2_lengthD)
  moreover have "slots_rel es' (xs[dst := Some a2])"
    unfolding e(5) using rel a2(2) by (intro list_all2_update_cong) auto
  ultimately show thesis by (rule that)
qed

lemma run_prog_rel:
  "slots_rel es xs \<Longrightarrow> run_prog (\<lambda>a b. Some (a + b)) is es = Some es'
    \<Longrightarrow> \<exists>xs'. run_prog mul is xs = Some xs' \<and> slots_rel es' xs'"
proof (induction "is" arbitrary: es xs)
  case Nil
  then show ?case by simp
next
  case (Cons i "is")
  then obtain es1 where 1: "run_insn (\<lambda>a b. Some (a + b)) i es = Some es1"
      "run_prog (\<lambda>a b. Some (a + b)) is es1 = Some es'"
    by (auto simp: bind_eq_Some_conv)
  obtain xs1 where "run_insn mul i xs = Some xs1" "slots_rel es1 xs1"
    by (rule run_insn_rel [OF Cons.prems(1) 1(1)])
  then show ?case using Cons.IH 1(2) by simp
qed

text \<open>
  Whatever exponent the chain builds on integers, it builds over \<open>mul\<close>, and it does
  not fail there either.
\<close>

lemma run_chain_rep:
  assumes "run_chain 1 prog (\<lambda>a b. Some (a + b)) = Some e" and "rep 1 x"
  shows "\<exists>y. run_chain x prog mul = Some y \<and> rep e y"
proof -
  from assms(1) obtain s1 es where s1: "slot 1 = Some s1"
    and es: "run_prog (\<lambda>a b. Some (a + b)) prog ((replicate NSLOTS None)[s1 := Some 1]) = Some es"
    and e: "slot_get es ACC = Some e"
    by (auto simp: run_chain_def bind_eq_Some_conv)
  have "slots_rel ((replicate NSLOTS None)[s1 := Some 1]) ((replicate NSLOTS None)[s1 := Some x])"
    using assms(2) by (intro list_all2_update_cong) (auto simp: list_all2_conv_all_nth)
  from run_prog_rel [OF this es] obtain xs where
    xs: "run_prog mul prog ((replicate NSLOTS None)[s1 := Some x]) = Some xs" "slots_rel es xs"
    by blast
  obtain y where "slot_get xs ACC = Some y" "rep e y"
    by (rule slot_get_rel [OF xs(2) e])
  then show ?thesis using s1 xs(1) by (simp add: run_chain_def)
qed

end

section \<open>The two multiplies\<close>

interpretation exponents: chain_mul "\<lambda>a b :: int. Some (a + b)" "(=)"
  by unfold_locales simp

text \<open>
  Montgomery form: \<open>a\<close> stands for \<open>x ^ e\<close> when \<open>a = x ^ e * R\<close> modulo \<open>n\<close>.
\<close>

definition mont_rep :: "int \<Rightarrow> int \<Rightarrow> int \<Rightarrow> bool" where
  "mont_rep x e a \<longleftrightarrow> 0 \<le> e \<and> 0 \<le> a \<and> a < N \<and> N dvd a - x ^ nat e * R"

lemma mont_mul_correct:
  assumes "0 \<le> a" "a < LB ^ 4" "0 \<le> b" "b < LB ^ 4" "a * b < N * LB ^ 4"
  obtains c where "mont_mul a b = Some c" "0 \<le> c" "c < N" "N dvd c * R - a * b"
proof -
  have v: "value_w (words a) = a" "value_w (words b) = b"
    using assms by (simp_all add: value_words)
  obtain out au where "mont_mul_hw (words a) (words b) = Some (out, au)"
      "0 \<le> value_w out" "value_w out < N"
      "N dvd value_w out * R - value_w (words a) * value_w (words b)"
    by (rule mont_mul_hw_correct [of "words a" "words b"]) (use assms v in auto)
  then show thesis using that [of "value_w out"] v by (simp add: mont_mul_def)
qed

lemma R_cancel:
  assumes "N dvd x * R"
  shows "N dvd x"
proof -
  obtain rinv where "pow_inv R N = Some rinv" using pow_inv_R by blast
  then have "N dvd R * rinv - 1" by (intro pow_inv_correct(1)) auto
  then have "N dvd x * R * rinv - x * (R * rinv - 1)"
    using assms by (intro dvd_diff) auto
  then show ?thesis by (simp add: algebra_simps)
qed

lemma less_N_mult: "0 \<le> a \<Longrightarrow> a < N \<Longrightarrow> 0 \<le> b \<Longrightarrow> b < LB ^ 4 \<Longrightarrow> a * b < N * LB ^ 4"
  by (intro mult_strict_mono') auto

interpretation mont: chain_mul mont_mul "mont_rep x" for x
proof
  fix e a f b
  assume "mont_rep x e a" and "mont_rep x f b"
  then have a: "0 \<le> e" "0 \<le> a" "a < N" "N dvd a - x ^ nat e * R"
    and b: "0 \<le> f" "0 \<le> b" "b < N" "N dvd b - x ^ nat f * R"
    by (auto simp: mont_rep_def)
  have small: "a < LB ^ 4" "b < LB ^ 4" using a(3) b(3) N_less by auto
  obtain c where c: "mont_mul a b = Some c" "0 \<le> c" "c < N" "N dvd c * R - a * b"
    by (rule mont_mul_correct [OF a(2) small(1) b(2) small(2) less_N_mult [OF a(2,3) b(2) small(2)]])
  have "N dvd (c * R - a * b) + (a - x ^ nat e * R) * b + x ^ nat e * R * (b - x ^ nat f * R)"
    using a(4) b(4) c(4) by (intro dvd_add) auto
  then have "N dvd (c - x ^ nat e * x ^ nat f * R) * R"
    by (simp add: algebra_simps)
  then have "N dvd c - x ^ nat (e + f) * R"
    using a(1) b(1) by (simp only: nat_add_distrib power_add R_cancel)
  then show "\<exists>c. mont_mul a b = Some c \<and> mont_rep x (e + f) c"
    using c a(1) b(1) by (auto simp: mont_rep_def)
qed

text \<open>Plain multiplication in a commutative monoid: the slots hold powers.\<close>

interpretation powers: chain_mul "\<lambda>a b :: 'm :: comm_monoid_mult. Some (a * b)"
  "\<lambda>e a. 0 \<le> e \<and> a = x ^ nat e" for x
  by unfold_locales (auto simp: nat_add_distrib power_add)

section \<open>The chain and the inversion\<close>

lemma chain_exponent:
  "do { prog \<leftarrow> build_chain; run_chain 1 prog (\<lambda>a b. Some (a + b)) } = Some E"
  by code_simp

lemma RR_bounds: "0 \<le> RR" "RR < N" "N dvd RR - R * R"
  by (simp_all add: RR_def mod_eq_dvd_iff [symmetric])

lemma enter_mont:
  assumes "0 \<le> x" "x < N"
  obtains xm where "mont_mul x RR = Some xm" "mont_rep x 1 xm"
proof -
  have small: "x < LB ^ 4" "RR < LB ^ 4" using assms RR_bounds N_less by auto
  obtain c where c: "mont_mul x RR = Some c" "0 \<le> c" "c < N" "N dvd c * R - x * RR"
    by (rule mont_mul_correct [OF assms(1) small(1) RR_bounds(1) small(2)
          less_N_mult [OF assms RR_bounds(1) small(2)]])
  have "N dvd (c * R - x * RR) + x * (RR - R * R)"
    using c(4) RR_bounds(3) by (intro dvd_add) auto
  then have "N dvd (c - x * R) * R" by (simp add: algebra_simps)
  then have "N dvd c - x * R" by (rule R_cancel)
  then have "mont_rep x 1 c" using c by (simp add: mont_rep_def)
  then show thesis using that c(1) by blast
qed

lemma leave_mont:
  assumes "mont_rep x e a"
  shows "mont_mul a 1 = Some (x ^ nat e mod N)"
proof -
  have a: "0 \<le> a" "a < N" "a < LB ^ 4" "N dvd a - x ^ nat e * R"
    using assms N_less by (auto simp: mont_rep_def)
  have one: "(0::int) \<le> 1" "1 < LB ^ 4" by (simp_all add: LB_def)
  obtain c where c: "mont_mul a 1 = Some c" "0 \<le> c" "c < N" "N dvd c * R - a * 1"
    by (rule mont_mul_correct [OF a(1,3) one less_N_mult [OF a(1,2) one]])
  have "N dvd (c * R - a * 1) + (a - x ^ nat e * R)"
    using c(4) a(4) by (intro dvd_add) auto
  then have "N dvd c - x ^ nat e" using R_cancel [of "c - x ^ nat e"] by (simp add: algebra_simps)
  then have "c mod N = x ^ nat e mod N" by (simp add: mod_eq_dvd_iff)
  then show ?thesis using c by simp
qed

text \<open>
  C29. The generated program builds (none of its asserts fires) and computes the power
  \<open>n - 2\<close> of its input in every commutative monoid, with 257 squarings and 43
  multiplications.
\<close>

theorem chain_computes_power:
  "\<exists>prog. build_chain = Some prog \<and> chain_cost prog = (257, 43)
    \<and> (\<forall>x :: 'm :: comm_monoid_mult. run_chain x prog (\<lambda>a b. Some (a * b)) = Some (x ^ nat E))"
proof -
  have "map_option chain_cost build_chain = Some (257, 43)" by code_simp
  then obtain prog where prog: "build_chain = Some prog" "chain_cost prog = (257, 43)" by auto
  have "run_chain (1 :: int) prog (\<lambda>a b. Some (a + b)) = Some E"
    using chain_exponent unfolding prog(1) by simp
  then have "run_chain x prog (\<lambda>a b. Some (a * b)) = Some (x ^ nat E)" for x :: 'm
    using powers.run_chain_rep [of prog E x x] by auto
  then show ?thesis using prog by blast
qed

text \<open>
  C5. The inversion runs to the end on every integer (no assert of the Montgomery model
  or of the program builder fires, no slot is read before it is written) and returns the
  Fermat power \<open>a ^ (n - 2)\<close> modulo \<open>n\<close>.
\<close>

theorem scalar_inv_hw_eq: "scalar_inv_hw a = Some ((a mod N) ^ nat (N - 2) mod N)"
proof -
  obtain xm where xm: "mont_mul (a mod N) RR = Some xm" "mont_rep (a mod N) 1 xm"
    by (rule enter_mont [of "a mod N"]) auto
  obtain prog where prog: "build_chain = Some prog"
      "run_chain 1 prog (\<lambda>a b. Some (a + b)) = Some E"
    using chain_exponent by (auto simp: bind_eq_Some_conv)
  obtain y where y: "run_chain xm prog mont_mul = Some y" "mont_rep (a mod N) E y"
    using mont.run_chain_rep [OF prog(2) xm(2)] by blast
  show ?thesis
    by (simp add: scalar_inv_hw_def E_def [symmetric] xm(1) prog(1) y(1) leave_mont [OF y(2)])
qed

end
