(* ===== verification/Gcm_Ctr.thy ===== *)
theory Gcm_Ctr
  imports Sarm_Prelude "HOL-Library.Word"
begin

text \<open>
  The AES-GCM reference of \<open>scripts/gcm_ctr_sweep_derivation.py\<close>: the two counter
  sequences (\<open>current_seq\<close>, the in-memory counter block, and \<open>unrolled_seq\<close>, four
  blocks at a time in registers), \<open>ghash\<close>, and \<open>seal\<close> on top of them.

  Bytes are integers, as the elements of a Python \<open>bytes\<close> are (\<open>bytes_ok\<close> is the type's
  range). The block cipher \<open>ek\<close> comes from a third-party package, so it is a
  parameter of \<open>seal\<close>, of which only the length of its result, one block, is relied on.
\<close>

unbundle bit_operations_syntax

type_synonym bytes = "int list"

definition M32 :: int where
  "M32 = 0xFFFFFFFF"

section \<open>Byte strings\<close>

text \<open>\<open>int.to_bytes(n, "big")\<close> for a value known to fit, and \<open>int.from_bytes(b, "big")\<close>.\<close>

fun be_bytes :: "nat \<Rightarrow> int \<Rightarrow> bytes" where
  "be_bytes 0 x = []"
| "be_bytes (Suc n) x = be_bytes n (x div 256) @ [x mod 256]"

definition from_bytes :: "bytes \<Rightarrow> int" where
  "from_bytes b = foldl (\<lambda>acc d. acc * 256 + d) 0 b"

text \<open>\<open>to_bytes\<close> with its \<open>OverflowError\<close>.\<close>

definition to_bytes :: "nat \<Rightarrow> int \<Rightarrow> bytes option" where
  "to_bytes n x = (if 0 \<le> x \<and> x < 256 ^ n then Some (be_bytes n x) else None)"

lemma length_be_bytes [simp]: "length (be_bytes n x) = n"
  by (induction n arbitrary: x) auto

lemma from_be_bytes: "from_bytes (be_bytes n x) = x mod 256 ^ n"
proof (induction n arbitrary: x)
  case 0
  then show ?case by (simp add: from_bytes_def)
next
  case (Suc n)
  have "x mod (256 * 256 ^ n) = 256 * (x div 256 mod 256 ^ n) + x mod 256"
    by (rule zmod_zmult2_eq) simp
  then show ?case
    using Suc.IH [of "x div 256"] by (simp add: from_bytes_def)
qed

lemma be_bytes_mod: "be_bytes n (x mod 256 ^ n) = be_bytes n x"
proof (induction n arbitrary: x)
  case 0
  then show ?case by simp
next
  case (Suc n)
  have "x mod (256 * 256 ^ n) = 256 * (x div 256 mod 256 ^ n) + x mod 256"
    by (rule zmod_zmult2_eq) simp
  then show ?case using Suc.IH [of "x div 256"] by simp
qed

section \<open>The counter sequence, both ways\<close>

definition inc32 :: "bytes \<Rightarrow> bytes" where
  "inc32 buf =
     (let c = (from_bytes (take 4 (drop 12 buf)) + 1) AND M32
      in take 12 buf @ be_bytes 4 c @ drop 16 buf)"

fun current_loop :: "nat \<Rightarrow> bytes \<Rightarrow> bytes list \<times> bytes" where
  "current_loop 0 jbuf = ([], jbuf)"
| "current_loop (Suc n) jbuf =
     (let (blocks, last) = current_loop n (inc32 jbuf) in (jbuf # blocks, last))"

definition current_seq :: "bytes \<Rightarrow> nat \<Rightarrow> int \<Rightarrow> (bytes \<times> bytes list \<times> bytes) option" where
  "current_seq iv12 nblocks start_ctr = do {
     c \<leftarrow> to_bytes 4 start_ctr;
     let j0 = iv12 @ c;
     let (blocks, last) = current_loop nblocks (inc32 j0);
     Some (j0, blocks, last) }"

definition ctr_block :: "bytes \<Rightarrow> int \<Rightarrow> bytes" where
  "ctr_block iv12 ctr = iv12 @ be_bytes 4 (ctr AND M32)"

fun unrolled_groups :: "bytes \<Rightarrow> nat \<Rightarrow> int \<Rightarrow> bytes list \<times> int" where
  "unrolled_groups iv12 0 ctr = ([], ctr)"
| "unrolled_groups iv12 (Suc g) ctr =
     (let (blocks, ctr') = unrolled_groups iv12 g ((ctr + 4) AND M32)
      in (map (\<lambda>k. ctr_block iv12 (ctr + int k)) [0..<4] @ blocks, ctr'))"

fun unrolled_rem :: "bytes \<Rightarrow> nat \<Rightarrow> int \<Rightarrow> bytes list \<times> int" where
  "unrolled_rem iv12 0 ctr = ([], ctr)"
| "unrolled_rem iv12 (Suc r) ctr =
     (let (blocks, ctr') = unrolled_rem iv12 r ((ctr + 1) AND M32)
      in (ctr_block iv12 ctr # blocks, ctr'))"

definition unrolled_seq :: "bytes \<Rightarrow> nat \<Rightarrow> int \<Rightarrow> bytes \<times> bytes list \<times> bytes" where
  "unrolled_seq iv12 nblocks start_ctr =
     (let j0 = iv12 @ be_bytes 4 (start_ctr AND M32);
          ctr = (start_ctr + 1) AND M32;
          (b1, ctr) = unrolled_groups iv12 (nblocks div 4) ctr;
          (b2, ctr) = unrolled_rem iv12 (nblocks mod 4) ctr
      in (j0, b1 @ b2, ctr_block iv12 ctr))"

lemma and_M32: "x AND M32 = x mod 256 ^ 4"
proof -
  have "M32 = mask 32" by (simp add: M32_def mask_eq_exp_minus_1)
  then have "x AND M32 = take_bit 32 x" by (simp add: take_bit_eq_mask)
  then show ?thesis by (simp add: take_bit_eq_mod)
qed

lemma ctr_block_eq: "ctr_block iv c = iv @ be_bytes 4 c"
  by (simp only: ctr_block_def and_M32 be_bytes_mod)

lemma ctr_block_mod: "ctr_block iv (c AND M32) = ctr_block iv c"
  by (simp only: ctr_block_eq and_M32 be_bytes_mod)

lemma ctr_block_add: "ctr_block iv ((c AND M32) + k) = ctr_block iv (c + k)"
proof -
  have "((c AND M32) + k) AND M32 = (c + k) AND M32"
    by (simp only: and_M32 mod_add_left_eq)
  then show ?thesis by (simp add: ctr_block_def)
qed

lemma inc32_block: "length iv = 12 \<Longrightarrow> inc32 (ctr_block iv c) = ctr_block iv (c + 1)"
proof -
  assume "length iv = 12"
  then have "inc32 (ctr_block iv c) = iv @ be_bytes 4 ((from_bytes (be_bytes 4 c) + 1) AND M32)"
    by (simp add: inc32_def ctr_block_eq Let_def)
  also have "\<dots> = ctr_block iv (c + 1)"
    by (simp only: from_be_bytes ctr_block_def and_M32 mod_add_left_eq)
  finally show ?thesis .
qed

lemma current_loop_eq:
  "length iv = 12 \<Longrightarrow> current_loop n (ctr_block iv c)
     = (map (\<lambda>k. ctr_block iv (c + int k)) [0..<n], ctr_block iv (c + int n))"
proof (induction n arbitrary: c)
  case 0
  then show ?case by simp
next
  case (Suc n)
  have "map (\<lambda>k. ctr_block iv (c + int k)) [0..<Suc n]
      = ctr_block iv c # map (\<lambda>k. ctr_block iv (c + 1 + int k)) [0..<n]"
    unfolding upt_conv_Cons [OF zero_less_Suc] map_Suc_upt [symmetric]
    by (simp add: add.assoc)
  then show ?case
    using Suc by (simp add: inc32_block algebra_simps del: upt_Suc)
qed

lemma map_upt_split:
  "map (\<lambda>k. f (c + int k)) [0..<m + n]
     = map (\<lambda>k. f (c + int k)) [0..<m] @ map (\<lambda>k. f (c + int m + int k)) [0..<n]"
proof -
  have "map (\<lambda>k. f (c + int k)) [m..<m + n] = map (\<lambda>k. f (c + int m + int k)) [0..<n]"
    by (rule nth_equalityI) (auto simp: algebra_simps)
  then show ?thesis using upt_add_eq_append [of 0 m n] by simp
qed

lemma unrolled_groups_eq:
  "\<exists>d. unrolled_groups iv g c = (map (\<lambda>k. ctr_block iv (c + int k)) [0..<4 * g], d)
     \<and> d AND M32 = (c + int (4 * g)) AND M32"
proof (induction g arbitrary: c)
  case 0
  then show ?case by simp
next
  case (Suc g)
  obtain d where d: "unrolled_groups iv g ((c + 4) AND M32)
      = (map (\<lambda>k. ctr_block iv (((c + 4) AND M32) + int k)) [0..<4 * g], d)"
    "d AND M32 = (((c + 4) AND M32) + int (4 * g)) AND M32"
    using Suc.IH by blast
  have "(((c + 4) AND M32) + int (4 * g)) AND M32 = (c + int (4 * Suc g)) AND M32"
    by (simp only: and_M32 mod_add_left_eq) (simp add: algebra_simps)
  moreover have "map (\<lambda>k. ctr_block iv (c + int k)) [0..<4 * Suc g]
      = map (\<lambda>k. ctr_block iv (c + int k)) [0..<4]
        @ map (\<lambda>k. ctr_block iv (((c + 4) AND M32) + int k)) [0..<4 * g]"
    using map_upt_split [of "ctr_block iv" c 4 "4 * g"] by (simp add: ctr_block_add)
  ultimately show ?case using d by (simp add: Let_def)
qed

lemma unrolled_rem_eq:
  "\<exists>d. unrolled_rem iv r c = (map (\<lambda>k. ctr_block iv (c + int k)) [0..<r], d)
     \<and> d AND M32 = (c + int r) AND M32"
proof (induction r arbitrary: c)
  case 0
  then show ?case by simp
next
  case (Suc r)
  obtain d where d: "unrolled_rem iv r ((c + 1) AND M32)
      = (map (\<lambda>k. ctr_block iv (((c + 1) AND M32) + int k)) [0..<r], d)"
    "d AND M32 = (((c + 1) AND M32) + int r) AND M32"
    using Suc.IH by blast
  have "(((c + 1) AND M32) + int r) AND M32 = (c + int (Suc r)) AND M32"
    by (simp only: and_M32 mod_add_left_eq) (simp add: algebra_simps)
  moreover have "map (\<lambda>k. ctr_block iv (c + int k)) [0..<Suc r]
      = ctr_block iv c # map (\<lambda>k. ctr_block iv (((c + 1) AND M32) + int k)) [0..<r]"
    using map_upt_split [of "ctr_block iv" c 1 r] by (simp add: ctr_block_add)
  ultimately show ?case using d by (simp add: Let_def)
qed

text \<open>The unrolled sequence is the consecutive counter blocks, wrap-around included.\<close>

lemma unrolled_seq_blocks:
  "unrolled_seq iv n s
     = (ctr_block iv s, map (\<lambda>k. ctr_block iv (s + 1 + int k)) [0..<n], ctr_block iv (s + 1 + int n))"
proof -
  let ?c = "(s + 1) AND M32"
  obtain d where d: "unrolled_groups iv (n div 4) ?c
      = (map (\<lambda>k. ctr_block iv (?c + int k)) [0..<4 * (n div 4)], d)"
    "d AND M32 = (?c + int (4 * (n div 4))) AND M32"
    using unrolled_groups_eq by blast
  obtain e where e: "unrolled_rem iv (n mod 4) d
      = (map (\<lambda>k. ctr_block iv (d + int k)) [0..<n mod 4], e)"
    "e AND M32 = (d + int (n mod 4)) AND M32"
    using unrolled_rem_eq by blast
  have dk: "ctr_block iv (d + k) = ctr_block iv (s + 1 + int (4 * (n div 4)) + k)" for k
    by (metis (no_types, lifting) ctr_block_add d(2) add.assoc)
  have "ctr_block iv e = ctr_block iv (d + int (n mod 4))"
    using e(2) by (simp add: ctr_block_def)
  then have "ctr_block iv e = ctr_block iv (s + 1 + int (4 * (n div 4)) + int (n mod 4))"
    by (simp only: dk)
  also have "int (4 * (n div 4)) + int (n mod 4) = int n"
    by (metis mult_div_mod_eq of_nat_add)
  then have "ctr_block iv (s + 1 + int (4 * (n div 4)) + int (n mod 4)) = ctr_block iv (s + 1 + int n)"
    by (simp only: add.assoc)
  finally have last: "ctr_block iv e = ctr_block iv (s + 1 + int n)" .
  have "map (\<lambda>k. ctr_block iv (s + 1 + int k)) [0..<4 * (n div 4) + n mod 4]
      = map (\<lambda>k. ctr_block iv (?c + int k)) [0..<4 * (n div 4)]
        @ map (\<lambda>k. ctr_block iv (d + int k)) [0..<n mod 4]"
    by (simp only: map_upt_split ctr_block_add dk)
  then show ?thesis
    using d(1) e(1) last by (simp add: unrolled_seq_def ctr_block_def Let_def)
qed

text \<open>
  C30. The register-based counter sequence the assembly runs is the in-memory one it
  replaced: for every IV of twelve bytes, every number of blocks and every 32-bit
  starting counter the two produce the same pre-counter block, the same keystream
  blocks and the same next block, across the 32-bit wrap-around too.
\<close>

theorem current_seq_unrolled:
  assumes "length iv12 = 12" and "0 \<le> start_ctr" and "start_ctr \<le> M32"
  shows "current_seq iv12 nblocks start_ctr = Some (unrolled_seq iv12 nblocks start_ctr)"
proof -
  have "to_bytes 4 start_ctr = Some (be_bytes 4 start_ctr)"
    using assms by (simp add: to_bytes_def M32_def)
  then show ?thesis
    using assms(1)
    by (simp add: current_seq_def unrolled_seq_blocks inc32_block current_loop_eq
        flip: ctr_block_eq)
qed

theorem current_seq_unrolled_witness:
  "current_seq (replicate 12 7) 6 0xFFFFFFFD = Some (unrolled_seq (replicate 12 7) 6 0xFFFFFFFD)"
  by (rule current_seq_unrolled) (simp_all add: M32_def)

section \<open>GHASH\<close>

text \<open>
  One bit of the field multiplication: \<open>z\<close> accumulates, \<open>v\<close> is multiplied by the
  indeterminate (a right shift in GCM's bit order, reduced by \<open>0xE1 << 120\<close>).
\<close>

definition gf_step :: "int \<Rightarrow> nat \<Rightarrow> int \<times> int \<Rightarrow> int \<times> int" where
  "gf_step hi bi = (\<lambda>(z, v).
     (if drop_bit bi hi AND 1 \<noteq> 0 then z XOR v else z,
      if v AND 1 \<noteq> 0 then drop_bit 1 v XOR push_bit 120 0xE1 else drop_bit 1 v))"

definition gf_mul :: "int \<Rightarrow> int \<Rightarrow> int" where
  "gf_mul hi y = fst (fold (gf_step hi) (rev [0..<128]) (0, y))"

definition ljust16 :: "bytes \<Rightarrow> bytes" where
  "ljust16 b = b @ replicate (16 - length b) 0"

function ghash_loop :: "int \<Rightarrow> int \<Rightarrow> bytes \<Rightarrow> int" where
  "ghash_loop hi y data =
     (if data = [] then y
      else ghash_loop hi (gf_mul hi (y XOR from_bytes (ljust16 (take 16 data)))) (drop 16 data))"
  by pat_completeness auto
termination
  by (relation "measure (\<lambda>(hi, y, data). length data)") auto

declare ghash_loop.simps [simp del]

definition ghash :: "bytes \<Rightarrow> bytes \<Rightarrow> bytes option" where
  "ghash h data = to_bytes 16 (ghash_loop (from_bytes h) 0 data)"

section \<open>Sealing\<close>

definition xor_bytes :: "bytes \<Rightarrow> bytes \<Rightarrow> bytes" where
  "xor_bytes a b = map2 (XOR) a b"

definition pad16 :: "bytes \<Rightarrow> bytes" where
  "pad16 b = b @ replicate (nat ((- int (length b)) mod 16)) 0"

definition seal_ctr :: "(bytes \<Rightarrow> bytes \<Rightarrow> bytes) \<Rightarrow> bytes \<Rightarrow> bytes list \<Rightarrow> bytes \<Rightarrow> bytes \<Rightarrow> bytes" where
  "seal_ctr ek key blocks tail_block pt =
     (let nblocks = length pt div 16; rem = length pt mod 16;
          ct = concat (map (\<lambda>(i, cb). xor_bytes (take 16 (drop (i * 16) pt)) (ek key cb))
                 (enumerate 0 blocks))
      in if rem \<noteq> 0
         then ct @ xor_bytes (drop (nblocks * 16) pt) (take rem (ek key tail_block))
         else ct)"

definition seal ::
  "(bytes \<Rightarrow> bytes \<Rightarrow> bytes) \<Rightarrow> bytes \<Rightarrow> bytes \<Rightarrow> bytes \<Rightarrow> bytes \<Rightarrow> (bytes \<times> bytes) option" where
  "seal ek key iv12 aad pt =
     (let (j0, blocks, tail_block) = unrolled_seq iv12 (length pt div 16) 1;
          ct = seal_ctr ek key blocks tail_block pt
      in do {
        la \<leftarrow> to_bytes 8 (int (length aad) * 8);
        lp \<leftarrow> to_bytes 8 (int (length pt) * 8);
        y \<leftarrow> ghash (ek key (replicate 16 0)) (pad16 aad @ pad16 ct @ la @ lp);
        Some (ct, xor_bytes y (ek key j0)) })"

subsection \<open>The keystream\<close>

definition keystream :: "(bytes \<Rightarrow> bytes \<Rightarrow> bytes) \<Rightarrow> bytes \<Rightarrow> bytes \<Rightarrow> nat \<Rightarrow> int" where
  "keystream ek key iv i = ek key (ctr_block iv (2 + int (i div 16))) ! (i mod 16)"

lemma length_xor_bytes [simp]: "length (xor_bytes a b) = min (length a) (length b)"
  by (simp add: xor_bytes_def)

lemma nth_xor_bytes [simp]:
  "i < length a \<Longrightarrow> i < length b \<Longrightarrow> xor_bytes a b ! i = a ! i XOR b ! i"
  by (simp add: xor_bytes_def)

lemma concat_chunks:
  assumes "\<And>k. k < n \<Longrightarrow> f k = map g [16 * k..<16 * k + 16]"
  shows "concat (map f [0..<n]) = map g [0..<16 * n]"
  using assms
proof (induction n)
  case 0
  then show ?case by simp
next
  case (Suc n)
  have "[0..<16 * Suc n] = [0..<16 * n] @ [16 * n..<16 * n + 16]"
    using upt_add_eq_append [of 0 "16 * n" 16] by (simp add: add.commute)
  then show ?case using Suc by simp
qed

lemma chunk_xor:
  assumes "\<And>b. length (ek key b) = 16" and "r \<le> 16" and "n * 16 + r \<le> length pt"
  shows "xor_bytes (take r (drop (n * 16) pt)) (take r (ek key (ctr_block iv (2 + int n))))
     = map (\<lambda>i. pt ! i XOR keystream ek key iv i) [16 * n..<16 * n + r]"
proof (rule nth_equalityI)
  show "length (xor_bytes (take r (drop (n * 16) pt)) (take r (ek key (ctr_block iv (2 + int n)))))
      = length (map (\<lambda>i. pt ! i XOR keystream ek key iv i) [16 * n..<16 * n + r])"
    using assms by simp
  fix i assume "i < length (xor_bytes (take r (drop (n * 16) pt)) (take r (ek key (ctr_block iv (2 + int n)))))"
  then have i: "i < r" "n * 16 + i < length pt" using assms by auto
  then have "(n * 16 + i) div 16 = n" "(n * 16 + i) mod 16 = i" using assms(2) by auto
  then show "xor_bytes (take r (drop (n * 16) pt)) (take r (ek key (ctr_block iv (2 + int n)))) ! i
      = map (\<lambda>i. pt ! i XOR keystream ek key iv i) [16 * n..<16 * n + r] ! i"
    using i assms by (simp add: keystream_def mult.commute [of 16 n])
qed

lemma seal_ctr_split:
  assumes ek: "\<And>b. length (ek key b) = 16" and len: "length pt = 16 * n + r" and "r < 16"
  shows "seal_ctr ek key (map (\<lambda>k. ctr_block iv (2 + int k)) [0..<n]) (ctr_block iv (2 + int n)) pt
       = map (\<lambda>i. pt ! i XOR keystream ek key iv i) [0..<16 * n + r]"
proof -
  let ?g = "\<lambda>i. pt ! i XOR keystream ek key iv i"
  have n: "length pt div 16 = n" and r: "length pt mod 16 = r" using assms by auto
  have en: "enumerate 0 (map (\<lambda>k. ctr_block iv (2 + int k)) [0..<n])
      = map (\<lambda>k. (k, ctr_block iv (2 + int k))) [0..<n]"
    by (rule nth_equalityI) (auto simp: nth_enumerate_eq)
  have chunk: "xor_bytes (take 16 (drop (k * 16) pt)) (ek key (ctr_block iv (2 + int k)))
      = map ?g [16 * k..<16 * k + 16]" if "k < n" for k
    using chunk_xor [of ek key 16 k pt iv] that len ek by simp
  have "concat (map (\<lambda>(i, cb). xor_bytes (take 16 (drop (i * 16) pt)) (ek key cb))
       (enumerate 0 (map (\<lambda>k. ctr_block iv (2 + int k)) [0..<n]))) = map ?g [0..<16 * n]"
    unfolding en using concat_chunks [of n _ ?g, OF chunk] by (simp add: comp_def)
  moreover have "xor_bytes (drop (n * 16) pt) (take r (ek key (ctr_block iv (2 + int n))))
      = map ?g [16 * n..<16 * n + r]"
    using chunk_xor [of ek key r n pt iv] assms by simp
  moreover have "map ?g [0..<16 * n + r] = map ?g [0..<16 * n] @ map ?g [16 * n..<16 * n + r]"
    using upt_add_eq_append [of 0 "16 * n" r] by simp
  ultimately show ?thesis by (simp add: seal_ctr_def Let_def n r)
qed

lemma seal_ctr_eq:
  assumes "\<And>b. length (ek key b) = 16"
  shows "seal_ctr ek key (map (\<lambda>k. ctr_block iv (2 + int k)) [0..<length pt div 16])
           (ctr_block iv (2 + int (length pt div 16))) pt
       = map (\<lambda>i. pt ! i XOR keystream ek key iv i) [0..<length pt]"
  using seal_ctr_split [of ek key pt "length pt div 16" "length pt mod 16" iv] assms by simp

subsection \<open>Linearity and range of GHASH\<close>

definition bytes_ok :: "bytes \<Rightarrow> bool" where
  "bytes_ok b \<longleftrightarrow> (\<forall>x \<in> set b. 0 \<le> x \<and> x < 256)"

lemma odd_xor_int: "odd ((a :: int) XOR b) \<longleftrightarrow> odd a \<noteq> odd b"
  by (simp add: even_xor_iff)

lemma gf_step_xor:
  "gf_step hi bi (z1 XOR z2, v1 XOR v2)
     = (case gf_step hi bi (z1, v1) of (z1', v1') \<Rightarrow> case gf_step hi bi (z2, v2) of (z2', v2') \<Rightarrow>
          (z1' XOR z2', v1' XOR v2'))"
  by (auto simp: gf_step_def and_one_eq odd_iff_mod_2_eq_one [symmetric] odd_xor_int drop_bit_xor
      xor.assoc xor.commute xor.left_commute)

lemma fold_gf_step_xor:
  "fold (gf_step hi) bs (z1 XOR z2, v1 XOR v2)
     = (case fold (gf_step hi) bs (z1, v1) of (z1', v1') \<Rightarrow>
        case fold (gf_step hi) bs (z2, v2) of (z2', v2') \<Rightarrow> (z1' XOR z2', v1' XOR v2'))"
proof (induction bs arbitrary: z1 z2 v1 v2)
  case Nil
  then show ?case by simp
next
  case (Cons b bs)
  then show ?case by (simp add: gf_step_xor split: prod.split)
qed

lemma gf_mul_xor: "gf_mul hi (a XOR b) = gf_mul hi a XOR gf_mul hi b"
  using fold_gf_step_xor [of hi "rev [0..<128]" 0 0 a b]
  by (simp add: gf_mul_def split: prod.splits)

lemma gf_mul_zero: "gf_mul hi 0 = 0"
  using gf_mul_xor [of hi 0 0] by simp

lemma gf_step_range:
  assumes "0 \<le> z" "z < 2 ^ 128" "0 \<le> v" "v < 2 ^ 128" "gf_step hi bi (z, v) = (z', v')"
  shows "0 \<le> z' \<and> z' < 2 ^ 128 \<and> 0 \<le> v' \<and> v' < 2 ^ 128"
proof -
  have d: "0 \<le> drop_bit 1 v" "drop_bit 1 v < 2 ^ 128"
    using assms by (auto simp: drop_bit_eq_div)
  have e: "0 \<le> (push_bit 120 0xE1 :: int)" "(push_bit 120 0xE1 :: int) < 2 ^ 128"
    by (simp_all add: push_bit_eq_mult)
  have "z XOR v < 2 ^ 128" "drop_bit 1 v XOR push_bit 120 0xE1 < 2 ^ 128"
    using XOR_upper [of z 128 v] XOR_upper [of "drop_bit 1 v" 128 "push_bit 120 0xE1"] assms d e
    by blast+
  moreover have "0 \<le> z XOR v" "0 \<le> drop_bit 1 v XOR push_bit 120 0xE1"
    using assms by simp_all
  ultimately show ?thesis
    using assms d by (auto simp: gf_step_def simp del: One_nat_def split: if_splits)
qed

lemma gf_mul_range:
  assumes "0 \<le> y" "y < 2 ^ 128"
  shows "0 \<le> gf_mul hi y \<and> gf_mul hi y < 2 ^ 128"
proof -
  have "0 \<le> fst (fold (gf_step hi) bs (z, v)) \<and> fst (fold (gf_step hi) bs (z, v)) < 2 ^ 128"
    if "0 \<le> z" "z < 2 ^ 128" "0 \<le> v" "v < 2 ^ 128" for bs z v
    using that
  proof (induction bs arbitrary: z v)
    case Nil
    then show ?case by simp
  next
    case (Cons b bs)
    obtain z' v' where g: "gf_step hi b (z, v) = (z', v')" by (cases "gf_step hi b (z, v)")
    show ?case using gf_step_range [OF Cons.prems g] Cons.IH g by simp
  qed
  then show ?thesis using assms by (simp add: gf_mul_def)
qed

lemma add_byte_xor: "0 \<le> d \<Longrightarrow> d < 256 \<Longrightarrow> a * 256 + d = push_bit 8 a XOR (d :: int)"
proof -
  assume d: "0 \<le> d" "d < 256"
  then have t: "d = take_bit 8 d" by (simp add: take_bit_eq_mod)
  have "push_bit 8 a AND d = 0"
    by (subst t) (auto simp: bit_eq_iff bit_simps)
  then have "push_bit 8 a + d = push_bit 8 a XOR d" by (simp add: disjunctive_add_eq_xor)
  then show ?thesis by (simp add: push_bit_eq_mult)
qed

lemma byte_xor_range: "0 \<le> (d :: int) \<Longrightarrow> d < 256 \<Longrightarrow> 0 \<le> e \<Longrightarrow> e < 256 \<Longrightarrow> 0 \<le> d XOR e \<and> d XOR e < 256"
  using XOR_upper [of d 8 e] by simp

lemma bytes_ok_xor:
  assumes "bytes_ok a" "bytes_ok b"
  shows "bytes_ok (xor_bytes a b)"
proof -
  have "0 \<le> x XOR y \<and> x XOR y < 256" if "(x, y) \<in> set (zip a b)" for x y
    using that assms set_zip_leftD [OF that] set_zip_rightD [OF that] byte_xor_range
    by (simp add: bytes_ok_def)
  then show ?thesis by (auto simp: bytes_ok_def xor_bytes_def)
qed

lemma from_bytes_xor:
  assumes "length a = length b" "bytes_ok a" "bytes_ok b"
  shows "from_bytes (xor_bytes a b) = from_bytes a XOR from_bytes b"
  using assms
proof (induction a b rule: rev_induct2)
  case 1
  then show ?case by (simp add: from_bytes_def xor_bytes_def)
next
  case (4 x a y b)
  then have "from_bytes (xor_bytes a b) = from_bytes a XOR from_bytes b" 
    and r: "0 \<le> x" "x < 256" "0 \<le> y" "y < 256" "length a = length b"
    by (auto simp: bytes_ok_def)
  moreover have "0 \<le> x XOR y" "x XOR y < 256" using byte_xor_range r by auto
  ultimately show ?case
    by (simp add: from_bytes_def xor_bytes_def add_byte_xor push_bit_xor xor.assoc xor.left_commute)
qed simp_all

lemma bytes_ok_be_bytes [simp]: "bytes_ok (be_bytes n x)"
  by (induction n arbitrary: x) (auto simp: bytes_ok_def)

lemma bytes_ok_append [simp]: "bytes_ok (a @ b) \<longleftrightarrow> bytes_ok a \<and> bytes_ok b"
  by (auto simp: bytes_ok_def)

lemma bytes_ok_replicate [simp]: "bytes_ok (replicate n 0)"
  by (simp add: bytes_ok_def)

lemma bytes_ok_take_drop: "bytes_ok b \<Longrightarrow> bytes_ok (take n b) \<and> bytes_ok (drop n b)"
  by (auto simp: bytes_ok_def dest: in_set_takeD in_set_dropD)

lemma from_bytes_range: "bytes_ok b \<Longrightarrow> 0 \<le> from_bytes b \<and> from_bytes b < 256 ^ length b"
  by (induction b rule: rev_induct) (auto simp: from_bytes_def bytes_ok_def)

lemma be_bytes_xor: "be_bytes n (x XOR y) = xor_bytes (be_bytes n x) (be_bytes n y)"
proof (induction n arbitrary: x y)
  case 0
  then show ?case by (simp add: xor_bytes_def)
next
  case (Suc n)
  have "(x XOR y) div 256 = (x div 256) XOR (y div 256)"
    using drop_bit_xor [of 8 x y] by (simp add: drop_bit_eq_div)
  moreover have "(x XOR y) mod 256 = (x mod 256) XOR (y mod 256)"
    using take_bit_xor [of 8 x y] by (simp add: take_bit_eq_mod)
  ultimately show ?case by (simp add: Suc.IH) (simp add: xor_bytes_def)
qed

lemma xor_bytes_take_drop:
  "take n (xor_bytes a b) = xor_bytes (take n a) (take n b)"
  "drop n (xor_bytes a b) = xor_bytes (drop n a) (drop n b)"
  by (simp_all add: xor_bytes_def take_map drop_map take_zip drop_zip)

lemma ljust16_xor:
  "length a = length b \<Longrightarrow> ljust16 (xor_bytes a b) = xor_bytes (ljust16 a) (ljust16 b)"
  by (simp add: ljust16_def xor_bytes_def map_replicate_const zip_replicate)

lemma ljust16_ok: "bytes_ok b \<Longrightarrow> length b \<le> 16 \<Longrightarrow> bytes_ok (ljust16 b) \<and> length (ljust16 b) = 16"
  by (simp add: ljust16_def)

lemma ghash_loop_xor:
  assumes "length a = length b" "bytes_ok a" "bytes_ok b"
  shows "ghash_loop hi (y1 XOR y2) (xor_bytes a b) = ghash_loop hi y1 a XOR ghash_loop hi y2 b"
  using assms
proof (induction hi y1 a arbitrary: y2 b rule: ghash_loop.induct)
  case (1 hi y1 a)
  show ?case
  proof (cases "a = []")
    case True
    then show ?thesis using 1(2) by (simp add: xor_bytes_def ghash_loop.simps [of _ _ "[]"])
  next
    case False
    let ?ta = "ljust16 (take 16 a)" and ?tb = "ljust16 (take 16 b)"
    have ne: "b \<noteq> []" "xor_bytes a b \<noteq> []"
      using False 1(2) by (auto simp: xor_bytes_def zip_eq_Nil_iff)
    have ok: "bytes_ok ?ta" "bytes_ok ?tb" "length ?ta = length ?tb"
      using 1(2-4) ljust16_ok bytes_ok_take_drop by (auto simp: ljust16_def)
    have "from_bytes (ljust16 (take 16 (xor_bytes a b))) = from_bytes ?ta XOR from_bytes ?tb"
      using 1(2) ok by (simp add: xor_bytes_take_drop ljust16_xor from_bytes_xor)
    then have "gf_mul hi ((y1 XOR y2) XOR from_bytes (ljust16 (take 16 (xor_bytes a b))))
        = gf_mul hi (y1 XOR from_bytes ?ta) XOR gf_mul hi (y2 XOR from_bytes ?tb)"
      by (simp add: gf_mul_xor [symmetric] xor.assoc xor.left_commute)
    moreover have "ghash_loop hi (gf_mul hi (y1 XOR from_bytes ?ta) XOR gf_mul hi (y2 XOR from_bytes ?tb))
        (xor_bytes (drop 16 a) (drop 16 b))
      = ghash_loop hi (gf_mul hi (y1 XOR from_bytes ?ta)) (drop 16 a)
        XOR ghash_loop hi (gf_mul hi (y2 XOR from_bytes ?tb)) (drop 16 b)"
      by (rule 1(1) [OF False]) (use 1(2-4) bytes_ok_take_drop in auto)
    ultimately show ?thesis
      using False ne
      by (simp add: ghash_loop.simps [of _ _ "xor_bytes a b"] ghash_loop.simps [of _ _ a]
          ghash_loop.simps [of _ _ b] xor_bytes_take_drop)
  qed
qed

lemma ghash_loop_range:
  assumes "0 \<le> y" "y < 2 ^ 128" "bytes_ok data"
  shows "0 \<le> ghash_loop hi y data \<and> ghash_loop hi y data < 2 ^ 128"
  using assms
proof (induction hi y data rule: ghash_loop.induct)
  case (1 hi y data)
  show ?case
  proof (cases "data = []")
    case True
    then show ?thesis using 1 by (simp add: ghash_loop.simps)
  next
    case False
    have ok: "bytes_ok (ljust16 (take 16 data))" "length (ljust16 (take 16 data)) = 16"
      using ljust16_ok [of "take 16 data"] bytes_ok_take_drop [OF 1(4)] by auto
    have f: "0 \<le> from_bytes (ljust16 (take 16 data))" "from_bytes (ljust16 (take 16 data)) < 2 ^ 128"
      using from_bytes_range [OF ok(1)] ok(2) by auto
    have "0 \<le> y XOR from_bytes (ljust16 (take 16 data))" using 1(2) f by simp
    moreover have "y XOR from_bytes (ljust16 (take 16 data)) < 2 ^ 128"
      using XOR_upper [of y 128] 1(2,3) f by blast
    ultimately show ?thesis
      using 1(1) [OF False] gf_mul_range 1(4) bytes_ok_take_drop False
      by (subst (1 2) ghash_loop.simps) auto
  qed
qed

lemma ghash_Some:
  assumes "bytes_ok data"
  shows "ghash h data = Some (be_bytes 16 (ghash_loop (from_bytes h) 0 data))"
  using ghash_loop_range [of 0 data "from_bytes h"] assms by (simp add: ghash_def to_bytes_def)

text \<open>
  GHASH is total on byte strings and linear: for two messages of the same length,
  hashing their exclusive or gives the exclusive or of their hashes, under every hash
  subkey.
\<close>

theorem ghash_linear:
  assumes "length a = length b" and "bytes_ok a" and "bytes_ok b"
  shows "\<exists>ya yb. ghash h a = Some ya \<and> ghash h b = Some yb
    \<and> length ya = 16 \<and> length yb = 16 \<and> ghash h (xor_bytes a b) = Some (xor_bytes ya yb)"
  using assms ghash_loop_xor [of a b "from_bytes h" 0 0] bytes_ok_xor [of a b]
  by (simp add: ghash_Some be_bytes_xor)

theorem ghash_linear_witness:
  "\<exists>ya yb. ghash (replicate 16 5) (replicate 20 1) = Some ya
    \<and> ghash (replicate 16 5) (replicate 20 6) = Some yb \<and> length ya = 16 \<and> length yb = 16
    \<and> ghash (replicate 16 5) (xor_bytes (replicate 20 1) (replicate 20 6)) = Some (xor_bytes ya yb)"
  by (rule ghash_linear) (simp_all add: bytes_ok_def)

lemma bytes_ok_pad16: "bytes_ok b \<Longrightarrow> bytes_ok (pad16 b)"
  by (simp add: pad16_def)

text \<open>
  What \<open>seal\<close> relies on of the cipher: under the given key it maps every block to sixteen
  bytes.
\<close>

definition block_cipher_ok :: "(bytes \<Rightarrow> bytes \<Rightarrow> bytes) \<Rightarrow> bytes \<Rightarrow> bool" where
  "block_cipher_ok ek key \<longleftrightarrow> (\<forall>b. length (ek key b) = 16 \<and> bytes_ok (ek key b))"

lemma keystream_range:
  assumes "block_cipher_ok ek key"
  shows "0 \<le> keystream ek key iv i \<and> keystream ek key iv i < 256"
proof -
  let ?k = "ek key (ctr_block iv (2 + int (i div 16)))"
  have "length ?k = 16" "bytes_ok ?k" using assms by (simp_all add: block_cipher_ok_def)
  then show ?thesis using nth_mem [of "i mod 16" ?k] by (auto simp: keystream_def bytes_ok_def)
qed

lemma ctr_bytes_ok:
  assumes "block_cipher_ok ek key" "bytes_ok pt"
  shows "bytes_ok (map (\<lambda>i. pt ! i XOR keystream ek key iv i) [0..<length pt])"
  using assms keystream_range [OF assms(1)] by (auto simp: bytes_ok_def byte_xor_range)

lemma seal_Some:
  assumes "block_cipher_ok ek key"
    and "bytes_ok aad" "bytes_ok pt" "8 * int (length aad) < 2 ^ 64" "8 * int (length pt) < 2 ^ 64"
  shows "\<exists>tag. length tag = 16 \<and> seal ek key iv aad pt
    = Some (map (\<lambda>i. pt ! i XOR keystream ek key iv i) [0..<length pt], tag)"
proof -
  let ?ct = "map (\<lambda>i. pt ! i XOR keystream ek key iv i) [0..<length pt]"
  have ct: "bytes_ok ?ct" by (rule ctr_bytes_ok [OF assms(1,3)])
  have sc: "seal_ctr ek key (map (\<lambda>k. ctr_block iv (2 + int k)) [0..<length pt div 16])
      (ctr_block iv (2 + int (length pt div 16))) pt = ?ct"
    by (rule seal_ctr_eq) (use assms(1) in \<open>simp add: block_cipher_ok_def\<close>)
  have lens: "to_bytes 8 (int (length aad) * 8) = Some (be_bytes 8 (int (length aad) * 8))"
    "to_bytes 8 (int (length pt) * 8) = Some (be_bytes 8 (int (length pt) * 8))"
    using assms(4,5) by (auto simp: to_bytes_def)
  have "bytes_ok (pad16 aad @ pad16 ?ct @ be_bytes 8 (int (length aad) * 8) @ be_bytes 8 (int (length pt) * 8))"
    using ct assms(2) bytes_ok_pad16 by simp
  then show ?thesis
    using assms(1) by (simp add: Let_def block_cipher_ok_def seal_def unrolled_seq_blocks sc lens ghash_Some)
qed





end
