(* ===== verification/P256_Reduce.thy ===== *)
theory P256_Reduce
  imports Limbs
begin

text \<open>
  The folding reduction modulo the P-256 prime
  (\<open>scripts/p256_reduce_derivation.py\<close>): the fold table derived by rewriting high powers
  of two (\<open>rewrite_high_word\<close>), the register-by-register reduction of a 512-bit product
  (\<open>reduce_hw\<close>, with its 64-bit two's-complement accumulators) and the correction
  rounds (\<open>canonicalize\<close>, \<open>reduce_full\<close>).

  A Python dict is an association list in insertion order.
\<close>

definition P :: int where
  "P = 2 ^ 256 - 2 ^ 224 + 2 ^ 192 + 2 ^ 96 - 1"

section \<open>The fold table\<close>

fun dict_set :: "'k \<Rightarrow> 'v \<Rightarrow> ('k \<times> 'v) list \<Rightarrow> ('k \<times> 'v) list" where
  "dict_set k v [] = [(k, v)]"
| "dict_set k v ((k', v') # d) = (if k = k' then (k, v) # d else (k', v') # dict_set k v d)"

definition dict_del :: "'k \<Rightarrow> ('k \<times> 'v) list \<Rightarrow> ('k \<times> 'v) list" where
  "dict_del k d = filter (\<lambda>(k', _). k' \<noteq> k) d"

definition dict_get :: "('k \<times> 'v) list \<Rightarrow> 'k \<Rightarrow> 'v \<Rightarrow> 'v" where
  "dict_get d k dflt = (case map_of d k of Some v \<Rightarrow> v | None \<Rightarrow> dflt)"

type_synonym terms = "(int \<times> int) list"

text \<open>One iteration of the inner loop: add \<open>sign * c\<close> at exponent \<open>e + delta\<close>.\<close>

definition add_term :: "int \<Rightarrow> int \<Rightarrow> int \<times> int \<Rightarrow> terms \<Rightarrow> terms" where
  "add_term e c ds terms = (case ds of (delta, sign) \<Rightarrow>
     let ne = e + delta;
         v = dict_get terms ne 0 + sign * c;
         terms = dict_set ne v terms
     in if v = 0 then dict_del ne terms else terms)"

definition SOLINAS :: "(int \<times> int) list" where
  "SOLINAS = [(-32, 1), (-64, -1), (-160, -1), (-256, 1)]"

definition high_weight :: "terms \<Rightarrow> nat" where
  "high_weight d = sum_list (map (\<lambda>(e, _). if e \<ge> 256 then 2 ^ nat e else 0) d)"

lemma high_weight_del:
  assumes "(e, c) \<in> set d" "e \<ge> 256"
  shows "high_weight (dict_del e d) + 2 ^ nat e \<le> high_weight d"
  using assms
proof (induction d)
  case Nil
  then show ?case by simp
next
  case (Cons x d)
  have le: "high_weight (dict_del e d) \<le> high_weight d"
    by (induction d) (auto simp: high_weight_def dict_del_def)
  show ?case
  proof (cases "fst x = e")
    case True
    then show ?thesis using le Cons.prems(2)
      by (auto simp: high_weight_def dict_del_def split: prod.splits)
  next
    case False
    then show ?thesis using Cons by (auto simp: high_weight_def dict_del_def split: prod.splits)
  qed
qed

lemma high_weight_del_le: "high_weight (dict_del e d) \<le> high_weight d"
  by (induction d) (auto simp: high_weight_def dict_del_def)

lemma high_weight_set: "high_weight (dict_set e v d) \<le> high_weight d + 2 ^ nat e"
  by (induction e v d rule: dict_set.induct) (auto simp: high_weight_def)

lemma high_weight_add_term: "high_weight (add_term e c (delta, sign) d) \<le> high_weight d + 2 ^ nat (e + delta)"
proof -
  have "high_weight (dict_del k (dict_set k v d)) \<le> high_weight d + 2 ^ nat k" for k v
    using high_weight_del_le [of k "dict_set k v d"] high_weight_set [of k v d] by linarith
  then show ?thesis by (auto simp: add_term_def Let_def high_weight_set)
qed

lemma high_weight_rewrite:
  assumes "(e, c) \<in> set d" "e \<ge> 256"
  shows "high_weight (fold (add_term e c') SOLINAS (dict_del e d)) < high_weight d"
proof -
  have "high_weight (fold (add_term e c') SOLINAS (dict_del e d))
      \<le> high_weight (dict_del e d) + 2 ^ nat (e - 32) + 2 ^ nat (e - 64) + 2 ^ nat (e - 160) + 2 ^ nat (e - 256)"
    using high_weight_add_term [of e c' "-32" 1 "dict_del e d"]
      high_weight_add_term [of e c' "-64" "-1" "add_term e c' (-32, 1) (dict_del e d)"]
      high_weight_add_term [of e c' "-160" "-1" "add_term e c' (-64, -1) (add_term e c' (-32, 1) (dict_del e d))"]
      high_weight_add_term [of e c' "-256" 1 "add_term e c' (-160, -1) (add_term e c' (-64, -1) (add_term e c' (-32, 1) (dict_del e d)))"]
    by (simp add: SOLINAS_def)
  moreover have "(2 :: nat) ^ nat (e - 32) + 2 ^ nat (e - 64) + 2 ^ nat (e - 160) + 2 ^ nat (e - 256) < 2 ^ nat e"
  proof -
    have "nat e = nat (e - 256) + 256" "nat (e - 32) = nat (e - 256) + 224"
      "nat (e - 64) = nat (e - 256) + 192" "nat (e - 160) = nat (e - 256) + 96"
      using assms(2) by linarith+
    then show ?thesis by (simp add: power_add)
  qed
  ultimately show ?thesis using high_weight_del [OF assms] by linarith
qed

text \<open>
  The \<open>while True\<close> loop: rewrite the first high exponent until none is left. Each
  rewrite lowers \<open>high_weight\<close>, so the loop ends from every dict.
\<close>

function rewrite_loop :: "terms \<Rightarrow> terms" where
  "rewrite_loop terms = (case filter (\<lambda>(e, _). e \<ge> 256) terms of
       [] \<Rightarrow> terms
     | (e, c) # _ \<Rightarrow> rewrite_loop (fold (add_term e c) SOLINAS (dict_del e terms)))"
  by pat_completeness auto
termination
proof (relation "measure high_weight", goal_cases)
  case 1
  then show ?case by simp
next
  case (2 d x high e c)
  then have "(e, c) \<in> set (filter (\<lambda>(e, _). e \<ge> 256) d)" by simp
  then show ?case using high_weight_rewrite by auto
qed

declare rewrite_loop.simps [simp del]

definition rewrite_high_word :: "int \<Rightarrow> terms" where
  "rewrite_high_word i = map (\<lambda>(e, c). (e div 32, c)) (rewrite_loop [(32 * i, 1)])"

definition TABLE :: "(int \<times> terms) list" where
  "TABLE = map (\<lambda>i. (i, rewrite_high_word i)) (map int [8..<16])"

section \<open>The fold identity\<close>

definition tval :: "terms \<Rightarrow> int" where
  "tval d = sum_list (map (\<lambda>(e, c). c * 2 ^ nat e) d)"

definition dict_keys_ok :: "terms \<Rightarrow> bool" where
  "dict_keys_ok d \<longleftrightarrow> distinct (map fst d) \<and> (\<forall>e \<in> fst ` set d. 0 \<le> e \<and> 32 dvd e)"

lemma dict_del_notin: "k \<notin> fst ` set d \<Longrightarrow> dict_del k d = d"
  unfolding dict_del_def by (rule filter_True) force

lemma tval_del:
  "distinct (map fst d) \<Longrightarrow> tval (dict_del k d) = tval d - dict_get d k 0 * 2 ^ nat k"
proof (induction d)
  case Nil
  then show ?case by (simp add: tval_def dict_del_def dict_get_def)
next
  case (Cons x d)
  obtain k' v where x: "x = (k', v)" by (cases x)
  show ?case
  proof (cases "k' = k")
    case True
    then have "dict_del k (x # d) = d"
      using Cons.prems x dict_del_notin [of k d] by (auto simp: dict_del_def)
    then show ?thesis using True x by (simp add: tval_def dict_get_def)
  next
    case False
    then show ?thesis using Cons x by (auto simp: tval_def dict_del_def dict_get_def)
  qed
qed

lemma tval_set: "tval (dict_set k v d) = tval d + (v - dict_get d k 0) * 2 ^ nat k"
  by (induction k v d rule: dict_set.induct) (auto simp: tval_def dict_get_def algebra_simps)

lemma dict_get_set [simp]: "dict_get (dict_set k v d) k x = v"
  by (induction k v d rule: dict_set.induct) (auto simp: dict_get_def)

lemma set_keys_dict_set: "fst ` set (dict_set k v d) = insert k (fst ` set d)"
  by (induction k v d rule: dict_set.induct) auto

lemma distinct_dict_set: "distinct (map fst d) \<Longrightarrow> distinct (map fst (dict_set k v d))"
proof (induction k v d rule: dict_set.induct)
  case (2 k v k' v' d)
  then show ?case using set_keys_dict_set [of k v d] by auto
qed simp

lemma dict_keys_ok_del: "dict_keys_ok d \<Longrightarrow> dict_keys_ok (dict_del k d)"
  by (auto simp: dict_keys_ok_def dict_del_def distinct_map_filter)

lemma add_term_correct:
  assumes "dict_keys_ok d" "0 \<le> e + delta" "32 dvd e + delta"
  shows "dict_keys_ok (add_term e c (delta, sign) d)"
    and "tval (add_term e c (delta, sign) d) = tval d + sign * c * 2 ^ nat (e + delta)"
proof -
  have ok: "dict_keys_ok (dict_set (e + delta) v d)" for v
    using assms distinct_dict_set set_keys_dict_set [of "e + delta" v d] by (auto simp: dict_keys_ok_def)
  then show "dict_keys_ok (add_term e c (delta, sign) d)"
    using dict_keys_ok_del by (simp add: add_term_def Let_def)
  show "tval (add_term e c (delta, sign) d) = tval d + sign * c * 2 ^ nat (e + delta)"
  proof -
    let ?ne = "e + delta" and ?v = "dict_get d (e + delta) 0 + sign * c"
    have set: "tval (dict_set ?ne ?v d) = tval d + sign * c * 2 ^ nat ?ne"
      by (simp add: tval_set)
    moreover have "tval (dict_del ?ne (dict_set ?ne 0 d)) = tval (dict_set ?ne 0 d)"
      using ok by (simp add: tval_del dict_keys_ok_def)
    ultimately show ?thesis by (cases "?v = 0") (simp_all add: add_term_def Let_def)
  qed
qed

lemma rewrite_step_correct:
  assumes ok: "dict_keys_ok d" and e: "(e, c) \<in> set d" "256 \<le> e"
  shows "dict_keys_ok (fold (add_term e c) SOLINAS (dict_del e d))"
    and "P dvd tval (fold (add_term e c) SOLINAS (dict_del e d)) - tval d"
proof -
  have e32: "32 dvd e" using assms by (force simp: dict_keys_ok_def)
  define d0 where "d0 = dict_del e d"
  define d1 where "d1 = add_term e c (-32, 1) d0"
  define d2 where "d2 = add_term e c (-64, -1) d1"
  define d3 where "d3 = add_term e c (-160, -1) d2"
  define d4 where "d4 = add_term e c (-256, 1) d3"
  have dv: "32 dvd e + -32" "32 dvd e + -64" "32 dvd e + -160" "32 dvd e + -256"
    using e32 by presburger+
  have "dict_get d e 0 = c"
    using ok e(1) by (simp add: dict_get_def dict_keys_ok_def)
  then have 0: "dict_keys_ok d0" "tval d0 = tval d - c * 2 ^ nat e"
    using ok dict_keys_ok_del [OF ok] tval_del [of d e] by (simp_all add: d0_def dict_keys_ok_def)
  have 1: "dict_keys_ok d1" "tval d1 = tval d0 + c * 2 ^ nat (e + -32)"
    using add_term_correct [OF 0(1) _ dv(1), of c 1] e(2) by (simp_all add: d1_def)
  have 2: "dict_keys_ok d2" "tval d2 = tval d1 - c * 2 ^ nat (e + -64)"
    using add_term_correct [OF 1(1) _ dv(2), of c "-1"] e(2) by (simp_all add: d2_def)
  have 3: "dict_keys_ok d3" "tval d3 = tval d2 - c * 2 ^ nat (e + -160)"
    using add_term_correct [OF 2(1) _ dv(3), of c "-1"] e(2) by (simp_all add: d3_def)
  have 4: "dict_keys_ok d4" "tval d4 = tval d3 + c * 2 ^ nat (e + -256)"
    using add_term_correct [OF 3(1) _ dv(4), of c 1] e(2) by (simp_all add: d4_def)
  have d4: "fold (add_term e c) SOLINAS (dict_del e d) = d4"
    by (simp add: SOLINAS_def d4_def d3_def d2_def d1_def d0_def)
  have n: "nat e = nat (e - 256) + 256" "nat (e + -32) = nat (e - 256) + 224"
    "nat (e + -64) = nat (e - 256) + 192" "nat (e + -160) = nat (e - 256) + 96"
    "nat (e + -256) = nat (e - 256)"
    using e(2) by linarith+
  have "tval d4 - tval d = - (P * (c * 2 ^ nat (e - 256)))"
    unfolding 4(2) 3(2) 2(2) 1(2) 0(2) n by (simp add: power_add P_def algebra_simps)
  then show "dict_keys_ok (fold (add_term e c) SOLINAS (dict_del e d))"
    and "P dvd tval (fold (add_term e c) SOLINAS (dict_del e d)) - tval d"
    using 4(1) d4 by auto
qed

lemma rewrite_loop_correct:
  assumes "dict_keys_ok d"
  shows "dict_keys_ok (rewrite_loop d) \<and> (\<forall>(e, c) \<in> set (rewrite_loop d). e < 256)
    \<and> P dvd tval (rewrite_loop d) - tval d"
  using assms
proof (induction d rule: rewrite_loop.induct)
  case (1 d)
  show ?case
  proof (cases "filter (\<lambda>(e, _). e \<ge> 256) d")
    case Nil
    then show ?thesis using 1(2) by (fastforce simp: rewrite_loop.simps [of d] filter_empty_conv)
  next
    case (Cons x xs)
    obtain e c where x: "x = (e, c)" by (cases x)
    let ?d = "fold (add_term e c) SOLINAS (dict_del e d)"
    have mem: "(e, c) \<in> set (filter (\<lambda>(e, _). e \<ge> 256) d)" using Cons x by simp
    have step: "dict_keys_ok ?d" "P dvd tval ?d - tval d"
      using rewrite_step_correct [OF 1(2)] mem by auto
    have ih: "dict_keys_ok (rewrite_loop ?d) \<and> (\<forall>(e, c) \<in> set (rewrite_loop ?d). e < 256)
        \<and> P dvd tval (rewrite_loop ?d) - tval ?d"
      using 1(1) [OF Cons x [symmetric] step(1)] .
    have "rewrite_loop d = rewrite_loop ?d" using Cons x by (simp add: rewrite_loop.simps [of d])
    moreover have "P dvd (tval (rewrite_loop ?d) - tval ?d) + (tval ?d - tval d)"
      using ih step(2) by (intro dvd_add) auto
    ultimately show ?thesis using ih by simp
  qed
qed

text \<open>What a row of the table contributes: \<open>sum(c * 2 ** (32 * j))\<close>.\<close>

definition row_value :: "terms \<Rightarrow> int" where
  "row_value row = sum_list (map (\<lambda>(j, c). c * 2 ^ (32 * nat j)) row)"

lemma row_value_div:
  assumes "dict_keys_ok d"
  shows "row_value (map (\<lambda>(e, c). (e div 32, c)) d) = tval d"
proof -
  have "32 * nat (e div 32) = nat e" if "(e, c) \<in> set d" for e c
    using assms that by (fastforce simp: dict_keys_ok_def nat_mult_distrib [symmetric])
  then show ?thesis
    unfolding row_value_def tval_def by (auto intro!: arg_cong [where f = sum_list] simp: comp_def)
qed

lemma row_value_word:
  assumes "0 \<le> i"
  shows "P dvd row_value (rewrite_high_word i) - 2 ^ (32 * nat i)"
proof -
  have "dict_keys_ok [(32 * i, 1)]" using assms by (simp add: dict_keys_ok_def)
  note loop = rewrite_loop_correct [OF this]
  then have "row_value (rewrite_high_word i) = tval (rewrite_loop [(32 * i, 1)])"
    by (simp add: rewrite_high_word_def row_value_div)
  moreover have "tval [(32 * i, 1)] = 2 ^ (32 * nat i)"
    using assms by (simp add: tval_def nat_mult_distrib)
  ultimately show ?thesis using loop by simp
qed

text \<open>
  C33. The derivation of the fold table terminates and is right for every word index: the
  coefficients it returns for word \<open>i\<close> only touch words 0 to 7 and sum to \<open>2 ^ (32 * i)\<close>
  modulo the prime.
\<close>

theorem rewrite_high_word_fold:
  assumes "0 \<le> i"
  shows "row_value (rewrite_high_word i) mod P = 2 ^ (32 * nat i) mod P
    \<and> (\<forall>(j, c) \<in> set (rewrite_high_word i). 0 \<le> j \<and> j < 8)"
proof -
  have "dict_keys_ok [(32 * i, 1)]" using assms by (simp add: dict_keys_ok_def)
  note loop = rewrite_loop_correct [OF this]
  then have "0 \<le> j \<and> j < 8" if "(j, c) \<in> set (rewrite_high_word i)" for j c
    using that loop by (fastforce simp: rewrite_high_word_def dict_keys_ok_def)
  then show ?thesis using row_value_word [OF assms] by (auto simp: mod_eq_dvd_iff)
qed

theorem rewrite_high_word_fold_witness:
  "row_value (rewrite_high_word 13) mod P = 2 ^ (32 * nat 13) mod P
    \<and> list_all (\<lambda>(j, c). 0 \<le> j \<and> j < 8) (rewrite_high_word 13)"
  unfolding list_all_iff by (rule rewrite_high_word_fold) simp

lemma TABLE_eq: "TABLE =
   [(8, [(7, 1), (6, - 1), (3, - 1), (0, 1)]),
    (9, [(4, - 1), (1, 1), (6, - 1), (3, - 1), (0, 1)]),
    (10, [(5, - 1), (2, 1), (7, - 1), (4, - 1), (1, 1)]),
    (11, [(3, 2), (5, - 1), (2, 1), (7, - 1), (0, - 1)]),
    (12, [(4, 2), (3, 2), (1, - 1), (7, - 1), (0, - 1)]),
    (13, [(5, 2), (7, - 1), (4, 2), (6, 1), (3, 1), (0, - 1), (2, - 1), (1, - 1)]),
    (14, [(6, 3), (5, 2), (4, 1), (1, - 1), (0, - 1), (2, - 1)]),
    (15, [(7, 3), (6, 2), (5, 1), (2, - 1), (1, - 1), (3, - 1)])]"
  by code_simp

lemma table_index: "8 \<le> i \<Longrightarrow> i < 16 \<Longrightarrow> i \<in> {8, 9, 10, 11, 12, 13, 14, 15 :: nat}"
  by auto

lemma table_row: "8 \<le> i \<Longrightarrow> i < 16 \<Longrightarrow> dict_get TABLE (int i) [] = rewrite_high_word (int i)"
  by (drule (1) table_index) (auto simp: TABLE_def dict_get_def upt_rec)

section \<open>The reduction\<close>

definition s64 :: "int \<Rightarrow> int" where
  "s64 x = (let x = x AND MASK in if x \<ge> push_bit 63 1 then x - push_bit 64 1 else x)"

definition lo32 :: "int \<Rightarrow> int" where
  "lo32 x = x AND 0xffffffff"

definition hi32 :: "int \<Rightarrow> int" where
  "hi32 x = drop_bit 32 x AND 0xffffffff"

text \<open>\<open>acc[j] = s64(acc[j] + coeff * v)\<close> for every entry of a table row.\<close>

definition fold_row :: "int \<Rightarrow> terms \<Rightarrow> int list \<Rightarrow> int list" where
  "fold_row v row acc =
     fold (\<lambda>(j, coeff) acc. acc[nat j := s64 (acc ! nat j + coeff * v)]) row acc"

definition propagate :: "int list \<Rightarrow> int list \<times> int" where
  "propagate vals =
     fold (\<lambda>j (digit, carry). let s = s64 (vals ! j + carry)
                              in (digit[j := lo32 s], drop_bit 32 s))
       [0..<8] (replicate 8 0, 0)"

definition halves :: "int list \<Rightarrow> int list" where
  "halves T = concat (map (\<lambda>x. [lo32 x, hi32 x]) T)"

text \<open>
  \<open>acc\<close> starts as the halves of the four low limbs; \<open>values\<close> are the halves of the four
  high ones, numbered from 8.
\<close>

definition accumulate :: "int list \<Rightarrow> int list" where
  "accumulate T =
     (let acc = halves (take 4 T);
          values = halves (take 4 (drop 4 T))
      in fold (\<lambda>i acc. fold_row (values ! (i - 8)) (dict_get TABLE (int i) []) acc) [8..<16] acc)"

definition reduce_hw :: "int list \<Rightarrow> int list \<times> int" where
  "reduce_hw T =
     (let acc = accumulate T;
          (digit, carry_final) = propagate acc;
          digit = fold_row carry_final (dict_get TABLE 8 []) digit;
          (digitp, ext) = propagate digit
      in (map (\<lambda>k. digitp ! (2 * k) OR push_bit 32 (digitp ! (2 * k + 1))) [0..<4], ext))"

definition pl :: "int list" where
  "pl = [0xffffffffffffffff, 0x00000000ffffffff, 0, 0xffffffff00000001]"

definition correction_round :: "int list \<times> int \<Rightarrow> int list \<times> int" where
  "correction_round = (\<lambda>(r, ext).
     let (cand, borrow) = sub_chain r pl;
         cand_ext = ext - borrow
     in if cand_ext \<ge> 0 then (cand, cand_ext) else (r, ext))"

definition canonicalize :: "int list \<Rightarrow> int \<Rightarrow> int list \<times> int" where
  "canonicalize r ext =
     (let (r, ext) = (if ext < 0 then let (r, carry) = add_chain 4 0 pl r in (r, ext + carry)
                      else (r, ext))
      in correction_round (correction_round (r, ext)))"

definition reduce_full :: "int list \<Rightarrow> int option" where
  "reduce_full T =
     (let (out, ext) = reduce_hw T;
          (r, ext) = canonicalize out ext
      in do {
        py_assert (ext = 0);
        let val = value_w r;
        py_assert (0 \<le> val \<and> val < P);
        Some val })"

text \<open>
  The extrema \<open>cmd_bound\<close> computes: the fold is linear in the high words, so its extreme
  values are at the corners of their box.
\<close>

definition carry_bounds :: "int \<times> int" where
  "carry_bounds =
     (let R = map (\<lambda>i. row_value (dict_get TABLE (int i) [])) [8..<16];
          min_high = sum_list (map (\<lambda>r. if r < 0 then (2 ^ 32 - 1) * r else 0) R);
          max_high = sum_list (map (\<lambda>r. if r > 0 then (2 ^ 32 - 1) * r else 0) R);
          (S_min, S_max) = (0 + min_high, (2 ^ 256 - 1) + max_high)
      in (drop_bit 256 S_min, drop_bit 256 S_max))"

section \<open>Words of 32 bits\<close>

fun val32 :: "int list \<Rightarrow> int" where
  "val32 [] = 0"
| "val32 (x # xs) = x + 2 ^ 32 * val32 xs"

lemma and_ffffffff: "x AND 0xffffffff = (x :: int) mod 2 ^ 32"
proof -
  have "(0xffffffff :: int) = mask 32" by (simp add: mask_eq_exp_minus_1)
  then show ?thesis by (simp only: flip: take_bit_eq_mask take_bit_eq_mod)
qed

lemma lo32_eq: "lo32 x = x mod 2 ^ 32"
  by (simp only: lo32_def and_ffffffff)

lemma hi32_eq: "hi32 x = x div 2 ^ 32 mod 2 ^ 32"
  by (simp only: hi32_def and_ffffffff drop_bit_eq_div)

lemma s64_id: "- (2 ^ 63) \<le> x \<Longrightarrow> x < 2 ^ 63 \<Longrightarrow> s64 x = x"
proof -
  assume x: "- (2 ^ 63) \<le> x" "x < 2 ^ 63"
  have "x mod 2 ^ 64 = (if x < 0 then x + 2 ^ 64 else x)"
  proof (cases "x < 0")
    case True
    then have "(x + 2 ^ 64) mod 2 ^ 64 = x + 2 ^ 64" using x by (intro mod_pos_pos_trivial) auto
    then show ?thesis using True by simp
  next
    case False
    then show ?thesis using x by simp
  qed
  then show ?thesis
    using x by (auto simp: s64_def limb_simps LB_def Let_def push_bit_eq_mult)
qed

lemma val32_update:
  "j < length xs \<Longrightarrow> val32 (xs[j := x]) = val32 xs + (x - xs ! j) * 2 ^ (32 * j)"
proof (induction xs arbitrary: j)
  case Nil
  then show ?case by simp
next
  case (Cons y ys)
  show ?case
  proof (cases j)
    case 0
    then show ?thesis by simp
  next
    case (Suc n)
    then have "val32 (ys[n := x]) = val32 ys + (x - ys ! n) * 2 ^ (32 * n)"
      using Cons by simp
    then show ?thesis using Suc by (simp add: power_add)
  qed
qed

lemma val32_replicate [simp]: "val32 (replicate n 0) = 0"
  by (induction n) simp_all

lemma val32_bounds: "\<forall>x \<in> set d. 0 \<le> x \<and> x < 2 ^ 32 \<Longrightarrow> 0 \<le> val32 d \<and> val32 d < 2 ^ (32 * length d)"
  by (induction d) (auto simp: power_add)

lemma val32_halves: "limbs_ok T \<Longrightarrow> val32 (halves T) = value_w T"
proof (induction T)
  case Nil
  then show ?case by (simp add: halves_def)
next
  case (Cons x T)
  then have x: "0 \<le> x" "x < 2 ^ 64" by (auto simp: limb_ok_def LB_def)
  have "x div 2 ^ 32 < 2 ^ 32" using x by (auto intro: div_less_iff_less_mult [THEN iffD2])
  then have "x div 2 ^ 32 mod 2 ^ 32 = x div 2 ^ 32" using x by (simp add: pos_imp_zdiv_nonneg_iff)
  moreover have "x mod 2 ^ 32 + 2 ^ 32 * (x div 2 ^ 32) = x" by simp
  ultimately show ?case
    using Cons by (simp add: halves_def value_w_Cons lo32_eq hi32_eq LB_def)
qed

lemma halves_range: "\<forall>x \<in> set (halves T). 0 \<le> x \<and> x < 2 ^ 32"
  by (auto simp: halves_def lo32_eq hi32_eq)

lemma length_halves32 [simp]: "length (halves T) = 2 * length T"
  by (induction T) (simp_all add: halves_def)

definition row_ok :: "terms \<Rightarrow> bool" where
  "row_ok row \<longleftrightarrow> length row \<le> 8 \<and> (\<forall>(j, c) \<in> set row. 0 \<le> j \<and> j < 8 \<and> \<bar>c\<bar> \<le> 3)"

lemma fold_row_correct:
  assumes "\<forall>(j, c) \<in> set row. 0 \<le> j \<and> j < 8 \<and> \<bar>c\<bar> \<le> 3" and "\<bar>v\<bar> < 2 ^ 32"
    and "length acc = 8" and "\<forall>x \<in> set acc. \<bar>x\<bar> \<le> B" and "B + 3 * 2 ^ 32 * int (length row) < 2 ^ 63"
  shows "length (fold_row v row acc) = 8"
    and "\<forall>x \<in> set (fold_row v row acc). \<bar>x\<bar> \<le> B + 3 * 2 ^ 32 * int (length row)"
    and "val32 (fold_row v row acc) = val32 acc + v * row_value row"
proof -
  have "length (fold_row v row acc) = 8
    \<and> (\<forall>x \<in> set (fold_row v row acc). \<bar>x\<bar> \<le> B + 3 * 2 ^ 32 * int (length row))
    \<and> val32 (fold_row v row acc) = val32 acc + v * row_value row"
    using assms(1,3,4,5)
  proof (induction row arbitrary: acc B)
    case Nil
    then show ?case by (simp add: fold_row_def row_value_def)
  next
    case (Cons x row)
    obtain j c where x: "x = (j, c)" by (cases x)
    have j: "nat j < 8" and c: "\<bar>c\<bar> \<le> 3" using Cons.prems(1) x by auto
    let ?a = "acc ! nat j + c * v"
    have "\<bar>acc ! nat j\<bar> \<le> B" using Cons.prems(2,3) j by simp
    moreover have "\<bar>c * v\<bar> \<le> 3 * 2 ^ 32"
      unfolding abs_mult using c assms(2) by (intro mult_mono) auto
    ultimately have a: "\<bar>?a\<bar> \<le> B + 3 * 2 ^ 32" by linarith
    then have "\<bar>?a\<bar> < 2 ^ 63" using Cons.prems(4) by simp
    then have s: "s64 ?a = ?a" by (intro s64_id) linarith+
    let ?acc = "acc[nat j := ?a]"
    have "B \<le> B + 3 * 2 ^ 32" by simp
    then have "\<forall>x \<in> set ?acc. \<bar>x\<bar> \<le> B + 3 * 2 ^ 32"
      using a Cons.prems(3) set_update_subset_insert [of acc "nat j" ?a] by fastforce
    moreover have "B + 3 * 2 ^ 32 + 3 * 2 ^ 32 * int (length row) < 2 ^ 63"
      using Cons.prems(4) by simp
    ultimately have "length (fold_row v row ?acc) = 8
      \<and> (\<forall>x \<in> set (fold_row v row ?acc). \<bar>x\<bar> \<le> B + 3 * 2 ^ 32 + 3 * 2 ^ 32 * int (length row))
      \<and> val32 (fold_row v row ?acc) = val32 ?acc + v * row_value row"
      using Cons.IH [of ?acc "B + 3 * 2 ^ 32"] Cons.prems(1,2) by simp
    moreover have "fold_row v (x # row) acc = fold_row v row ?acc"
      using s x by (simp add: fold_row_def)
    moreover have "val32 ?acc = val32 acc + c * v * 2 ^ (32 * nat j)"
      using val32_update [of "nat j" acc ?a] j Cons.prems(2) by simp
    moreover have "row_value (x # row) = c * 2 ^ (32 * nat j) + row_value row"
      using x by (simp add: row_value_def)
    ultimately show ?case by (simp add: algebra_simps)
  qed
  then show "length (fold_row v row acc) = 8"
    and "\<forall>x \<in> set (fold_row v row acc). \<bar>x\<bar> \<le> B + 3 * 2 ^ 32 * int (length row)"
    and "val32 (fold_row v row acc) = val32 acc + v * row_value row"
    by auto
qed

lemma val32_take_Suc:
  "m < length v \<Longrightarrow> val32 (take (Suc m) v) = val32 (take m v) + v ! m * 2 ^ (32 * m)"
proof (induction v arbitrary: m)
  case Nil
  then show ?case by simp
next
  case (Cons y ys)
  then show ?case by (cases m) (simp_all add: algebra_simps power_add)
qed

lemma propagate_correct:
  assumes len: "length vals = 8" and B: "\<forall>x \<in> set vals. \<bar>x\<bar> \<le> 2 ^ 61"
    and res: "propagate vals = (digit, carry)"
  shows "length digit = 8" and "\<forall>x \<in> set digit. 0 \<le> x \<and> x < 2 ^ 32"
    and "val32 vals = val32 digit + carry * 2 ^ 256"
proof -
  define f where "f = (\<lambda>j (digit, carry). let s = s64 (vals ! j + carry)
                              in (digit[j := lo32 s], drop_bit 32 s))"
  define Q where "Q = (\<lambda>m (d :: int list, c :: int). length d = 8 \<and> (\<forall>x \<in> set d. 0 \<le> x \<and> x < 2 ^ 32)
      \<and> (\<forall>j. m \<le> j \<longrightarrow> j < 8 \<longrightarrow> d ! j = 0) \<and> \<bar>c\<bar> \<le> 2 ^ 61
      \<and> val32 (take m vals) = val32 d + c * 2 ^ (32 * m))"
  have "Q 8 (fold f [0..<8] (replicate 8 0, 0))"
  proof (rule fold_invariant)
    show "Q 0 (replicate 8 0, 0)" by (simp add: Q_def)
  next
    fix i s assume i: "i < 8" and Qi: "Q i s"
    obtain d c where s: "s = (d, c)" by (cases s)
    let ?s = "vals ! i + c"
    have q: "length d = 8" "\<forall>x \<in> set d. 0 \<le> x \<and> x < 2 ^ 32" "d ! i = 0" "\<bar>c\<bar> \<le> 2 ^ 61"
      "val32 (take i vals) = val32 d + c * 2 ^ (32 * i)"
      and z: "\<And>j. Suc i \<le> j \<Longrightarrow> j < 8 \<Longrightarrow> d ! j = 0"
      using Qi s i by (auto simp: Q_def)
    have "\<bar>vals ! i\<bar> \<le> 2 ^ 61" using B len i by simp
    then have ss: "\<bar>?s\<bar> \<le> 2 ^ 62" using q(4) by simp
    then have s64: "s64 ?s = ?s" by (intro s64_id) simp_all
    define m where "m = ?s mod 2 ^ 32"
    define q where "q = ?s div 2 ^ 32"
    have mq: "?s = m + q * 2 ^ 32" "0 \<le> m" "m < 2 ^ 32" "\<bar>q\<bar> \<le> 2 ^ 61"
      using ss by (simp_all add: m_def q_def)
    let ?d = "d[i := m]"
    have f: "f i s = (?d, q)"
      using s s64 by (simp add: f_def lo32_eq drop_bit_eq_div Let_def m_def q_def)
    have "val32 (take (Suc i) vals) = val32 d + ?s * 2 ^ (32 * i)"
      using val32_take_Suc [of i vals] i len q(5) by (simp add: algebra_simps)
    also have "\<dots> = val32 ?d + q * 2 ^ (32 * Suc i)"
      using val32_update [of i d m] i q(1,3) unfolding mq(1) by (simp add: distrib_right power_add)
    finally have "val32 (take (Suc i) vals) = val32 ?d + q * 2 ^ (32 * Suc i)" .
    moreover have "\<forall>x \<in> set ?d. 0 \<le> x \<and> x < 2 ^ 32"
      using q(2) mq by (intro set_update_subset) auto
    ultimately show "Q (Suc i) (f i s)"
      using f q(1) z i mq(4) by (auto simp: Q_def)
  qed
  then show "length digit = 8" and "\<forall>x \<in> set digit. 0 \<le> x \<and> x < 2 ^ 32"
    and "val32 vals = val32 digit + carry * 2 ^ 256"
    using res len by (auto simp: propagate_def f_def Q_def)
qed


section \<open>Correctness of the reduction\<close>

definition fold_rows :: "(int \<times> terms) list \<Rightarrow> int list \<Rightarrow> int list" where
  "fold_rows ps acc = fold (\<lambda>(v, row) acc. fold_row v row acc) ps acc"

lemma fold_rows_correct:
  assumes "\<forall>(v, row) \<in> set ps. \<bar>v\<bar> < 2 ^ 32 \<and> row_ok row" and "length acc = 8"
    and "\<forall>x \<in> set acc. \<bar>x\<bar> \<le> B" and "B + 24 * 2 ^ 32 * int (length ps) \<le> 2 ^ 61"
  shows "length (fold_rows ps acc) = 8"
    and "\<forall>x \<in> set (fold_rows ps acc). \<bar>x\<bar> \<le> 2 ^ 61"
    and "val32 (fold_rows ps acc) = val32 acc + sum_list (map (\<lambda>(v, row). v * row_value row) ps)"
proof -
  have "length (fold_rows ps acc) = 8 \<and> (\<forall>x \<in> set (fold_rows ps acc). \<bar>x\<bar> \<le> 2 ^ 61)
    \<and> val32 (fold_rows ps acc) = val32 acc + sum_list (map (\<lambda>(v, row). v * row_value row) ps)"
    using assms
  proof (induction ps arbitrary: acc B)
    case Nil
    then show ?case by (fastforce simp: fold_rows_def)
  next
    case (Cons p ps)
    obtain v row where p: "p = (v, row)" by (cases p)
    have v: "\<bar>v\<bar> < 2 ^ 32" and row: "\<forall>(j, c) \<in> set row. 0 \<le> j \<and> j < 8 \<and> \<bar>c\<bar> \<le> 3" "length row \<le> 8"
      using Cons.prems(1) p by (auto simp: row_ok_def)
    have B: "B + 3 * 2 ^ 32 * int (length row) \<le> B + 24 * 2 ^ 32" using row(2) by simp
    then have "B + 3 * 2 ^ 32 * int (length row) < 2 ^ 63" using Cons.prems(4) by simp
    note fr = fold_row_correct [OF row(1) v Cons.prems(2,3) this]
    have "\<forall>x \<in> set (fold_row v row acc). \<bar>x\<bar> \<le> B + 24 * 2 ^ 32" using fr(2) B by fastforce
    then show ?case
      using Cons.IH [of "fold_row v row acc" "B + 24 * 2 ^ 32"] Cons.prems fr(1,3) p
      by (simp add: fold_rows_def)
  qed
  then show "length (fold_rows ps acc) = 8"
    and "\<forall>x \<in> set (fold_rows ps acc). \<bar>x\<bar> \<le> 2 ^ 61"
    and "val32 (fold_rows ps acc) = val32 acc + sum_list (map (\<lambda>(v, row). v * row_value row) ps)"
    by auto
qed

lemma row_values:
  "map (\<lambda>i. row_value (dict_get TABLE (int i) [])) [8..<16] =
     [26959946660873538059280334323183841250350249843923952699046031785985,
      - 6277101735386680764176071790207833042079994389485051707391,
      - 26959946667150639796128516724690815958761767718701783364113306484736,
      - 26959946667150639796128516724350533591682372930209880081498745339905,
      - 26959946667150639794667015086339065939636811170585294591057280892929,
      - 26959946660873538056357331047841470680101003251583084188948634796033,
      18831305209083045566509456472951307377184560236057732317183,
      80879840014006122856235908426061373785451222770010000270223283847168]"
  by (simp add: TABLE_eq row_value_def dict_get_def upt_rec)

lemma carry_bounds_eq: "carry_bounds = (-4, 4)"
  unfolding carry_bounds_def row_values by (simp add: drop_bit_eq_div)

lemma table_rows_ok: "8 \<le> i \<Longrightarrow> i < 16 \<Longrightarrow> row_ok (dict_get TABLE (int i) [])"
  by (drule (1) table_index) (auto simp: TABLE_eq dict_get_def row_ok_def)

lemma rows_ok_map:
  assumes "\<forall>i \<in> set is. 8 \<le> i \<and> i < 16" and "length v = 8" and "\<forall>x \<in> set v. 0 \<le> x \<and> x < (2 :: int) ^ 32"
  shows "\<forall>(x, row) \<in> set (map (\<lambda>i. (v ! (i - 8), dict_get TABLE (int i) [])) is).
    \<bar>x\<bar> < 2 ^ 32 \<and> row_ok row"
proof -
  have "\<bar>v ! (i - 8)\<bar> < 2 ^ 32" if "i \<in> set is" for i
  proof -
    have "8 \<le> i" "i < 16" using assms(1) that by auto
    then have "i - 8 < length v" unfolding assms(2) by linarith
    then show ?thesis using assms(3) nth_mem [of "i - 8" v] by fastforce
  qed
  then show ?thesis using assms(1) table_rows_ok by auto
qed

lemma accumulate_correct:
  assumes "length T = 8" "limbs_ok T"
  shows "length (accumulate T) = 8" and "\<forall>x \<in> set (accumulate T). \<bar>x\<bar> \<le> 2 ^ 61"
    and "val32 (accumulate T) = value_w (take 4 T) + sum_list (map
      (\<lambda>i. halves (drop 4 T) ! (i - 8) * row_value (dict_get TABLE (int i) [])) [8..<16])"
proof -
  let ?v = "halves (drop 4 T)" and ?a = "halves (take 4 T)"
  define ps where "ps = map (\<lambda>i. (?v ! (i - 8), dict_get TABLE (int i) [])) [8..<16]"
  have acc: "accumulate T = fold_rows ps ?a"
    using assms(1) by (simp add: accumulate_def fold_rows_def Let_def ps_def)
  have "\<forall>(v, row) \<in> set ps. \<bar>v\<bar> < 2 ^ 32 \<and> row_ok row"
    unfolding ps_def by (rule rows_ok_map) (use assms(1) halves_range [of "drop 4 T"] in auto)
  moreover have "length ?a = 8" using assms(1) by simp
  moreover have "\<forall>x \<in> set ?a. \<bar>x\<bar> \<le> 2 ^ 32" using halves_range [of "take 4 T"] by auto
  moreover have "(2 :: int) ^ 32 + 24 * 2 ^ 32 * int (length ps) \<le> 2 ^ 61" by (simp add: ps_def)
  ultimately show "length (accumulate T) = 8" and "\<forall>x \<in> set (accumulate T). \<bar>x\<bar> \<le> 2 ^ 61"
    and "val32 (accumulate T) = value_w (take 4 T) + sum_list (map
      (\<lambda>i. ?v ! (i - 8) * row_value (dict_get TABLE (int i) [])) [8..<16])"
    using fold_rows_correct [of ps ?a "2 ^ 32"] assms(2)
    unfolding acc by (simp_all add: val32_halves limbs_ok_take ps_def)
qed

lemma list8_cases:
  assumes "length xs = 8"
  obtains a b c d e f g h where "xs = [a, b, c, d, e, f, g, h]"
  using assms by (auto simp: length_Suc_conv eval_nat_numeral)

lemma accumulate_explicit:
  assumes "length T = 8" "limbs_ok T"
  obtains a b c d e f g h where "halves (drop 4 T) = [a, b, c, d, e, f, g, h]"
    "val32 (accumulate T) = value_w (take 4 T)
      + a * row_value (rewrite_high_word 8) + b * row_value (rewrite_high_word 9)
      + c * row_value (rewrite_high_word 10) + d * row_value (rewrite_high_word 11)
      + e * row_value (rewrite_high_word 12) + f * row_value (rewrite_high_word 13)
      + g * row_value (rewrite_high_word 14) + h * row_value (rewrite_high_word 15)"
proof -
  obtain a b c d e f g h where v: "halves (drop 4 T) = [a, b, c, d, e, f, g, h]"
    by (rule list8_cases [of "halves (drop 4 T)"]) (use assms(1) in auto)
  show thesis
    by (rule that [OF v]) (use accumulate_correct(3) [OF assms] table_row [of 8] table_row [of 9]
      table_row [of 10] table_row [of 11] table_row [of 12] table_row [of 13] table_row [of 14]
      table_row [of 15] in \<open>simp add: v\<close>)
qed

lemma accumulate_congruent:
  assumes "length T = 8" "limbs_ok T"
  shows "P dvd val32 (accumulate T) - value_w T"
proof -
  obtain a b c d e f g h where v: "halves (drop 4 T) = [a, b, c, d, e, f, g, h]"
    and acc: "val32 (accumulate T) = value_w (take 4 T)
      + a * row_value (rewrite_high_word 8) + b * row_value (rewrite_high_word 9)
      + c * row_value (rewrite_high_word 10) + d * row_value (rewrite_high_word 11)
      + e * row_value (rewrite_high_word 12) + f * row_value (rewrite_high_word 13)
      + g * row_value (rewrite_high_word 14) + h * row_value (rewrite_high_word 15)"
    by (rule accumulate_explicit [OF assms])
  have "value_w T = value_w (take 4 T) + LB ^ 4 * value_w (drop 4 T)"
    using value_w_append [of "take 4 T" "drop 4 T"] assms(1) by simp
  moreover have "value_w (drop 4 T) = val32 [a, b, c, d, e, f, g, h]"
    using val32_halves [of "drop 4 T"] assms(2) v by (simp add: limbs_ok_drop)
  ultimately have T: "value_w T = value_w (take 4 T) + a * 2 ^ 256 + b * 2 ^ 288 + c * 2 ^ 320
      + d * 2 ^ 352 + e * 2 ^ 384 + f * 2 ^ 416 + g * 2 ^ 448 + h * 2 ^ 480"
    by (simp add: LB_def)
  have "P dvd a * (row_value (rewrite_high_word 8) - 2 ^ 256) + b * (row_value (rewrite_high_word 9) - 2 ^ 288)
    + c * (row_value (rewrite_high_word 10) - 2 ^ 320) + d * (row_value (rewrite_high_word 11) - 2 ^ 352)
    + e * (row_value (rewrite_high_word 12) - 2 ^ 384) + f * (row_value (rewrite_high_word 13) - 2 ^ 416)
    + g * (row_value (rewrite_high_word 14) - 2 ^ 448) + h * (row_value (rewrite_high_word 15) - 2 ^ 480)"
    using row_value_word [of 8] row_value_word [of 9] row_value_word [of 10] row_value_word [of 11]
      row_value_word [of 12] row_value_word [of 13] row_value_word [of 14] row_value_word [of 15]
    by (intro dvd_add dvd_mult) simp_all
  moreover have "val32 (accumulate T) - value_w T = a * (row_value (rewrite_high_word 8) - 2 ^ 256) + b * (row_value (rewrite_high_word 9) - 2 ^ 288)
    + c * (row_value (rewrite_high_word 10) - 2 ^ 320) + d * (row_value (rewrite_high_word 11) - 2 ^ 352)
    + e * (row_value (rewrite_high_word 12) - 2 ^ 384) + f * (row_value (rewrite_high_word 13) - 2 ^ 416)
    + g * (row_value (rewrite_high_word 14) - 2 ^ 448) + h * (row_value (rewrite_high_word 15) - 2 ^ 480)"
    unfolding acc T by (simp only: algebra_simps)
  ultimately show ?thesis by (simp only:)
qed

lemma accumulate_range:
  assumes "length T = 8" "limbs_ok T"
  shows "- 4 * 2 ^ 256 \<le> val32 (accumulate T)" and "val32 (accumulate T) < 5 * 2 ^ 256"
proof -
  have low: "value_w (take 4 T) < 2 ^ 256" "0 \<le> value_w (take 4 T)"
    using value_w_bounds [of "take 4 T"] assms by (auto simp: limbs_ok_take LB_def)
  obtain a b c d e f g h where v: "halves (drop 4 T) = [a, b, c, d, e, f, g, h]"
    using accumulate_explicit [OF assms] by metis
  have r: "0 \<le> x \<and> x < 2 ^ 32" if "x \<in> set [a, b, c, d, e, f, g, h]" for x
    using halves_range [of "drop 4 T"] that unfolding v by blast
  have acc: "val32 (accumulate T) = value_w (take 4 T) + sum_list (map2 (*) [a, b, c, d, e, f, g, h]
      (map (\<lambda>i. row_value (dict_get TABLE (int i) [])) [8..<16]))"
    using accumulate_correct(3) [OF assms] by (simp add: v)
  show "- 4 * 2 ^ 256 \<le> val32 (accumulate T)" and "val32 (accumulate T) < 5 * 2 ^ 256"
    using low r [of a] r [of b] r [of c] r [of d] r [of e] r [of f] r [of g] r [of h]
    unfolding acc row_values by simp_all
qed

lemma carry_final_range:
  assumes "length T = 8" "limbs_ok T" "propagate (accumulate T) = (digit, carry)"
  shows "- 4 \<le> carry" and "carry \<le> 4"
proof -
  note pr = propagate_correct [OF accumulate_correct(1,2) [OF assms(1,2)] assms(3)]
  have "0 \<le> val32 digit \<and> val32 digit < 2 ^ 256"
    using pr(1,2) val32_bounds [of digit] by simp
  then show "- 4 \<le> carry" and "carry \<le> 4"
    using accumulate_range [OF assms(1,2)] pr(3) by simp_all
qed

lemma row8_value: "row_value (dict_get TABLE 8 []) = 2 ^ 224 - 2 ^ 192 - 2 ^ 96 + 1"
  by (simp add: TABLE_eq dict_get_def row_value_def)

lemma row8_ok: "row_ok (dict_get TABLE 8 [])"
  using table_rows_ok [of 8] by simp

lemma or_shift:
  assumes "0 \<le> x" "x < 2 ^ 32" "0 \<le> y" "y < 2 ^ 32"
  shows "x OR push_bit 32 y = x + 2 ^ 32 * (y :: int)" and "limb_ok (x + 2 ^ 32 * y)"
proof -
  have t: "x = take_bit 32 x" using assms by (simp add: take_bit_eq_mod)
  have "x AND push_bit 32 y = 0"
    by (subst t) (auto simp: bit_eq_iff bit_simps)
  then have "x + push_bit 32 y = x OR push_bit 32 y" by (simp add: disjunctive_add_eq_or)
  then show "x OR push_bit 32 y = x + 2 ^ 32 * y" by (simp add: push_bit_eq_mult mult.commute)
  show "limb_ok (x + 2 ^ 32 * y)" using assms by (simp add: limb_ok_def LB_def)
qed

lemma pack_digits:
  assumes "length d = 8" "\<forall>x \<in> set d. 0 \<le> x \<and> x < 2 ^ 32"
  defines "out \<equiv> map (\<lambda>k. d ! (2 * k) OR push_bit 32 (d ! (2 * k + 1))) [0..<4]"
  shows "length out = 4" and "limbs_ok out" and "value_w out = val32 d"
proof -
  obtain a0 b0 a1 b1 a2 b2 a3 b3 where d: "d = [a0, b0, a1, b1, a2, b2, a3, b3]"
    by (rule list8_cases [OF assms(1)])
  have r: "0 \<le> a0" "a0 < 2 ^ 32" "0 \<le> b0" "b0 < 2 ^ 32" "0 \<le> a1" "a1 < 2 ^ 32" "0 \<le> b1" "b1 < 2 ^ 32"
    "0 \<le> a2" "a2 < 2 ^ 32" "0 \<le> b2" "b2 < 2 ^ 32" "0 \<le> a3" "a3 < 2 ^ 32" "0 \<le> b3" "b3 < 2 ^ 32"
    using assms(2) unfolding d by auto
  have out: "out = [a0 + 2 ^ 32 * b0, a1 + 2 ^ 32 * b1, a2 + 2 ^ 32 * b2, a3 + 2 ^ 32 * b3]"
    unfolding out_def d using or_shift(1) [OF r(1-4)] or_shift(1) [OF r(5-8)]
      or_shift(1) [OF r(9-12)] or_shift(1) [OF r(13-16)]
    by (simp add: upt_rec)
  show "length out = 4" by (simp add: out_def)
  show "limbs_ok out"
    unfolding out using or_shift(2) [OF r(1-4)] or_shift(2) [OF r(5-8)]
      or_shift(2) [OF r(9-12)] or_shift(2) [OF r(13-16)] by simp
  show "value_w out = val32 d" unfolding out d by (simp add: value_w_Cons LB_def)
qed

lemma reduce_hw_correct:
  assumes T: "length T = 8" "limbs_ok T" and res: "reduce_hw T = (out, ext)"
  shows "length out = 4" and "limbs_ok out"
    and "P dvd value_w out + ext * 2 ^ 256 - value_w T"
    and "- (2 ^ 226) \<le> value_w out + ext * 2 ^ 256" and "value_w out + ext * 2 ^ 256 < 2 ^ 256 + 2 ^ 226"
proof -
  obtain digit carry where p1: "propagate (accumulate T) = (digit, carry)"
    by (cases "propagate (accumulate T)")
  define digit' where "digit' = fold_row carry (dict_get TABLE 8 []) digit"
  obtain digitp ext' where p2: "propagate digit' = (digitp, ext')" by (cases "propagate digit'")
  have out: "out = map (\<lambda>k. digitp ! (2 * k) OR push_bit 32 (digitp ! (2 * k + 1))) [0..<4]"
    and ext: "ext = ext'"
    using res by (simp_all add: reduce_hw_def p1 p2 digit'_def [symmetric] Let_def)
  note acc = accumulate_correct(1,2) [OF T]
  note d1 = propagate_correct [OF acc p1]
  note c = carry_final_range [OF T p1]
  have "\<forall>x \<in> set digit. \<bar>x\<bar> \<le> 2 ^ 32" using d1(2) by auto
  moreover have "\<bar>carry\<bar> < 2 ^ 32" using c by simp
  moreover have "length (dict_get TABLE 8 []) \<le> 8"
    "\<forall>(j, c) \<in> set (dict_get TABLE 8 []). 0 \<le> j \<and> j < 8 \<and> \<bar>c\<bar> \<le> 3"
    using row8_ok by (simp_all add: row_ok_def)
  moreover have "2 ^ 32 + 3 * 2 ^ 32 * int (length (dict_get TABLE 8 [])) < 2 ^ 61"
    using calculation(3) by simp
  ultimately have d': "length digit' = 8" "\<forall>x \<in> set digit'. \<bar>x\<bar> \<le> 2 ^ 61"
      "val32 digit' = val32 digit + carry * (2 ^ 224 - 2 ^ 192 - 2 ^ 96 + 1)"
    using fold_row_correct [of "dict_get TABLE 8 []" carry digit "2 ^ 32"] d1(1) row8_value
    unfolding digit'_def by fastforce+
  note d2 = propagate_correct [OF d'(1,2) p2]
  note pk = pack_digits [OF d2(1,2), folded out]
  show "length out = 4" and "limbs_ok out" by (rule pk)+
  have v: "value_w out + ext * 2 ^ 256 = val32 digit + carry * (2 ^ 224 - 2 ^ 192 - 2 ^ 96 + 1)"
    using pk(3) d2(3) d'(3) ext by simp
  have "P dvd (val32 (accumulate T) - value_w T) - carry * P"
    by (rule dvd_diff [OF accumulate_congruent [OF T] dvd_triv_right])
  moreover have "val32 (accumulate T) - value_w T - carry * P = value_w out + ext * 2 ^ 256 - value_w T"
    unfolding v d1(3) by (simp add: P_def algebra_simps)
  ultimately show "P dvd value_w out + ext * 2 ^ 256 - value_w T" by simp
  have "0 \<le> val32 digit \<and> val32 digit < 2 ^ 256"
    using d1(1,2) val32_bounds [of digit] by simp
  then show "- (2 ^ 226) \<le> value_w out + ext * 2 ^ 256" and "value_w out + ext * 2 ^ 256 < 2 ^ 256 + 2 ^ 226"
    unfolding v using c by simp_all
qed

lemma pl_props [simp]: "length pl = 4" "limbs_ok pl" "value_w pl = P"
  by (simp_all add: pl_def limb_ok_def LB_def value_w_Cons P_def)

lemma top_limb_sign: "0 \<le> v \<Longrightarrow> v < 2 ^ 256 \<Longrightarrow> 0 \<le> k \<longleftrightarrow> 0 \<le> v + k * (2 :: int) ^ 256"
  by auto

lemma correction_round_correct:
  assumes "length r = 4" "limbs_ok r" and "correction_round (r, ext) = (r', ext')"
  shows "length r' = 4" "limbs_ok r'"
    and "value_w r' + ext' * 2 ^ 256 = (let v = value_w r + ext * 2 ^ 256 in if v \<ge> P then v - P else v)"
proof -
  obtain cand borrow where s: "sub_chain r pl = (cand, borrow)" by (cases "sub_chain r pl")
  note sc = sub_chain_correct [OF assms(1) pl_props(1) assms(2) pl_props(2) s]
  have v: "value_w cand + (ext - borrow) * 2 ^ 256 = value_w r + ext * 2 ^ 256 - P"
    using sc(4) by (simp add: LB_def algebra_simps)
  have b: "0 \<le> value_w cand" "value_w cand < 2 ^ 256"
    using value_w_bounds [OF sc(2)] sc(1) by (auto simp: LB_def)
  have ge: "ext - borrow \<ge> 0 \<longleftrightarrow> value_w r + ext * 2 ^ 256 \<ge> P"
    unfolding top_limb_sign [OF b, of "ext - borrow"] v by linarith
  show "length r' = 4" "limbs_ok r'"
    "value_w r' + ext' * 2 ^ 256 = (let v = value_w r + ext * 2 ^ 256 in if v \<ge> P then v - P else v)"
    using assms s sc(1,2) v ge by (auto simp: correction_round_def Let_def split: if_splits)
qed

lemma canonicalize_correct:
  assumes r: "length r = 4" "limbs_ok r"
    and lo: "- (2 ^ 226) \<le> value_w r + ext * 2 ^ 256" and hi: "value_w r + ext * 2 ^ 256 < 2 ^ 256 + 2 ^ 226"
    and res: "canonicalize r ext = (r', ext')"
  shows "ext' = 0" and "limbs_ok r'" and "value_w r' = (value_w r + ext * 2 ^ 256) mod P"
proof -
  let ?v = "value_w r + ext * 2 ^ 256"
  obtain r1 ext1 where r1: "(if ext < 0 then let (r, carry) = add_chain 4 0 pl r in (r, ext + carry)
      else (r, ext)) = (r1, ext1)" by fastforce
  have vb: "0 \<le> value_w r" "value_w r < 2 ^ 256" using value_w_bounds [OF r(2)] r(1) by (auto simp: LB_def)
  have p1: "length r1 = 4 \<and> limbs_ok r1 \<and> value_w r1 + ext1 * 2 ^ 256 = (if ?v < 0 then ?v + P else ?v)"
  proof (cases "ext < 0")
    case True
    obtain t c where t: "add_chain 4 0 pl r = (t, c)" by (cases "add_chain 4 0 pl r")
    have ac: "length t = length r" "limbs_ok t" "value_w t + c * LB ^ (0 + 4) = value_w r + value_w (take 4 pl) * LB ^ 0"
      using add_chain_correct [OF r(2) pl_props(2) _ _ t] r(1) by auto
    have "?v < 0" using True top_limb_sign [OF vb, of ext] by simp
    moreover have "value_w t + (ext + c) * 2 ^ 256 = ?v + P" using ac(3) by (simp add: LB_def algebra_simps)
    ultimately show ?thesis using True t r1 ac(1,2) r(1) by auto
  next
    case False
    then have "\<not> ?v < 0" using top_limb_sign [OF vb, of ext] by simp
    then show ?thesis using False r1 r by auto
  qed
  obtain r2 ext2 where r2: "correction_round (r1, ext1) = (r2, ext2)" by (cases "correction_round (r1, ext1)")
  have r3: "correction_round (r2, ext2) = (r', ext')"
    using res r1 r2 by (simp add: canonicalize_def)
  have p2: "length r2 = 4" "limbs_ok r2"
     "value_w r2 + ext2 * 2 ^ 256 = (let v = value_w r1 + ext1 * 2 ^ 256 in if v \<ge> P then v - P else v)"
    using correction_round_correct [OF _ _ r2] p1 by auto
  note p3 = correction_round_correct [OF p2(1,2) r3]
  let ?w = "value_w r' + ext' * 2 ^ 256"
  have w: "0 \<le> ?w" "?w < P" "P dvd ?w - ?v"
    using p3(3) p2(3) p1 lo hi by (auto simp: Let_def P_def split: if_splits)
  have vb': "0 \<le> value_w r'" "value_w r' < 2 ^ 256"
    using value_w_bounds [OF p3(2)] p3(1) by (auto simp: LB_def)
  show "ext' = 0" using w(1,2) vb' by (simp add: P_def)
  then show "value_w r' = ?v mod P"
    using w by (metis add.right_neutral mod_eq_dvd_iff mod_pos_pos_trivial mult_zero_left)
  show "limbs_ok r'" by (rule p3)
qed

lemma reduce_full_eq:
  assumes "length T = 8" "limbs_ok T"
  shows "reduce_full T = Some (value_w T mod P)"
proof -
  obtain out ext where hw: "reduce_hw T = (out, ext)" by (cases "reduce_hw T")
  obtain r ext' where can: "canonicalize out ext = (r, ext')" by (cases "canonicalize out ext")
  note h = reduce_hw_correct [OF assms hw]
  note k = canonicalize_correct [OF h(1,2,4,5) can]
  have "value_w r = value_w T mod P" using k(3) h(3) by (simp add: mod_eq_dvd_iff)
  moreover have "0 < P" by (simp add: P_def)
  ultimately show ?thesis using k(1) by (simp add: reduce_full_def hw can)
qed

text \<open>
  C4. The hardware-faithful reduction is total and right: for every 512-bit input no assert
  fires (the correction rounds are enough, \<open>ext\<close> ends at zero) and the result is the
  canonical residue modulo the P-256 prime.
\<close>

theorem reduce_full_mod:
  assumes "length T = 8" and "limbs_ok T"
  shows "reduce_full T = Some (value_w T mod P)"
  by (rule reduce_full_eq [OF assms])

theorem reduce_full_mod_witness:
  "reduce_full [1, 0, 0xFFFFFFFFFFFFFFFF, 7, 0, 0xFFFFFFFFFFFFFFFF, 3, 0xFFFFFFFFFFFFFFFF]
    = Some (value_w [1, 0, 0xFFFFFFFFFFFFFFFF, 7, 0, 0xFFFFFFFFFFFFFFFF, 3, 0xFFFFFFFFFFFFFFFF] mod P)"
  by (rule reduce_full_mod) (simp_all add: limb_ok_def LB_def)

text \<open>
  C34. The carry the first propagation leaves is within the extrema \<open>cmd_bound\<close> computes,
  which are -4 and 4, for every 512-bit input.
\<close>

theorem carry_within_bounds:
  assumes "length T = 8" and "limbs_ok T"
  shows "carry_bounds = (-4, 4)
    \<and> fst carry_bounds \<le> snd (propagate (accumulate T)) \<and> snd (propagate (accumulate T)) \<le> snd carry_bounds"
  using carry_final_range [OF assms, of "fst (propagate (accumulate T))" "snd (propagate (accumulate T))"]
  by (simp add: carry_bounds_eq)

theorem carry_within_bounds_witness:
  "carry_bounds = (-4, 4)
    \<and> fst carry_bounds \<le> snd (propagate (accumulate (replicate 8 0xFFFFFFFFFFFFFFFF)))
    \<and> snd (propagate (accumulate (replicate 8 0xFFFFFFFFFFFFFFFF))) \<le> snd carry_bounds"
  by (rule carry_within_bounds) (simp_all add: limbs_ok_def limb_ok_def LB_def)

end
