(* ===== verification/P256_Curve.thy ===== *)
theory P256_Curve
  imports P256_Reduce
begin

text \<open>
  What the point arithmetic of the scripts shares: the curve parameters, Python's
  three-argument \<open>pow\<close>, the curve equation in affine and Jacobian coordinates, and the
  ring identities that show that the doubling and addition formulas stay on the curve.
\<close>

definition A :: int where
  "A = - 3 mod P"

definition B :: int where
  "B = 0x5AC635D8AA3A93E7B3EBBD55769886BC651D06B0CC53B0F63BCE3C3E27D2604B"

definition GX :: int where
  "GX = 0x6B17D1F2E12C4247F8BCE6E563A440F277037D812DEB33A0F4A13945D898C296"

definition GY :: int where
  "GY = 0x4FE342E2FE1A7F9B8EE7EB4A7C0F9E162BCE33576B315ECECBB6406837BF51F5"

type_synonym jac = "int \<times> int \<times> int"

section \<open>Modular powers\<close>

function pow_mod :: "int \<Rightarrow> int \<Rightarrow> int \<Rightarrow> int" where
  "pow_mod b e m =
     (if e \<le> 0 then 1 mod m
      else let h = pow_mod (b * b mod m) (e div 2) m in if e mod 2 = 1 then b * h mod m else h)"
  by pat_completeness auto
termination
  by (relation "measure (\<lambda>(b, e, m). nat e)") auto

declare pow_mod.simps [simp del]

lemma pow_mod_eq: "0 \<le> e \<Longrightarrow> pow_mod b e m = b ^ nat e mod m"
proof (induction b e m rule: pow_mod.induct)
  case (1 b e m)
  show ?case
  proof (cases "e = 0")
    case True
    then show ?thesis by (simp add: pow_mod.simps)
  next
    case False
    then have h: "pow_mod (b * b mod m) (e div 2) m = (b * b) ^ nat (e div 2) mod m"
      using 1 by (simp add: power_mod)
    have "e = 2 * (e div 2) + e mod 2" by simp
    then have "nat e = 2 * nat (e div 2) + nat (e mod 2)"
      using 1(2) by (metis nat_add_distrib nat_mult_distrib nat_numeral pos_mod_sign
          pos_imp_zdiv_nonneg_iff zero_le_numeral mult_nonneg_nonneg zero_less_numeral)
    then have "b ^ nat e = (b * b) ^ nat (e div 2) * b ^ nat (e mod 2)"
      by (simp add: power_add power_mult power2_eq_square)
    moreover have "e mod 2 = 0 \<or> e mod 2 = 1" by auto
    ultimately show ?thesis
      using False 1(2) h by (auto simp: pow_mod.simps [of b e m] mod_mult_right_eq mult.commute)
  qed
qed

text \<open>\<open>k.bit_length()\<close>.\<close>

function bit_length :: "int \<Rightarrow> nat" where
  "bit_length k = (if k = 0 then 0 else Suc (bit_length (\<bar>k\<bar> div 2)))"
  by pat_completeness auto
termination
  by (relation "measure (\<lambda>k. nat \<bar>k\<bar>)") auto

declare bit_length.simps [simp del]

section \<open>Residues\<close>

lemma P_pos [simp]: "0 < P"
  by (simp add: P_def)

lemma P_ge_0 [simp]: "0 \<le> P"
  by (simp add: P_def)

lemma P_less: "P < 2 ^ 256"
  by (simp add: P_def)

lemma P_dvd_mod: "P dvd x \<longleftrightarrow> x mod P = 0"
  by (rule dvd_eq_mod_eq_0)

text \<open>Congruence modulo the prime, with rules that follow the structure of a formula.\<close>

definition eqm :: "int \<Rightarrow> int \<Rightarrow> bool" where
  "eqm a b \<longleftrightarrow> a mod P = b mod P"

lemma eqm_refl: "eqm a a"
  and eqm_mod: "eqm a b \<Longrightarrow> eqm (a mod P) b"
  and eqm_add: "eqm a c \<Longrightarrow> eqm b d \<Longrightarrow> eqm (a + b) (c + d)"
  and eqm_diff: "eqm a c \<Longrightarrow> eqm b d \<Longrightarrow> eqm (a - b) (c - d)"
  and eqm_mult: "eqm a c \<Longrightarrow> eqm b d \<Longrightarrow> eqm (a * b) (c * d)"
  by (auto simp: eqm_def intro: mod_add_cong mod_diff_cong mod_mult_cong)

lemmas eqm_intros = eqm_refl eqm_mod eqm_add eqm_diff eqm_mult

lemma eqm_modI: "eqm a b \<Longrightarrow> a mod P = b mod P"
  by (simp add: eqm_def)

section \<open>The curve equation\<close>

text \<open>
  The Jacobian triple \<open>(x, y, z)\<close> stands for \<open>(x / z^2, y / z^3)\<close>; the equation is
  homogeneous, and triples with \<open>z = 0\<close> that satisfy it stand for infinity.
\<close>

definition jac_curve :: "jac \<Rightarrow> bool" where
  "jac_curve = (\<lambda>(x, y, z). (y ^ 2 - (x ^ 3 + A * x * z ^ 4 + B * z ^ 6)) mod P = 0)"

definition jac_range :: "jac \<Rightarrow> bool" where
  "jac_range = (\<lambda>(x, y, z). 0 \<le> x \<and> x < P \<and> 0 \<le> y \<and> y < P \<and> 0 \<le> z \<and> z < P)"

lemma A_mod: "(A * x) mod P = (- 3 * x) mod P"
  unfolding A_def by (rule mod_mult_left_eq)

lemma jac_curve_mod: "jac_curve (x mod P, y mod P, z mod P) = jac_curve (x, y, z)"
proof -
  have "((y mod P) ^ 2 - ((x mod P) ^ 3 + A * (x mod P) * (z mod P) ^ 4 + B * (z mod P) ^ 6)) mod P
      = (y ^ 2 - (x ^ 3 + A * x * z ^ 4 + B * z ^ 6)) mod P"
    by (intro mod_diff_cong mod_add_cong mod_mult_cong) (simp_all add: power_mod)
  then show ?thesis by (simp add: jac_curve_def)
qed

lemma jac_curve_iff:
  "jac_curve (x, y, z) \<longleftrightarrow> P dvd y ^ 2 - (x ^ 3 - 3 * x * z ^ 4 + B * z ^ 6)"
proof -
  have "(y ^ 2 - (x ^ 3 + A * (x * z ^ 4) + B * z ^ 6)) mod P
      = (y ^ 2 - (x ^ 3 + (- 3) * (x * z ^ 4) + B * z ^ 6)) mod P"
    using A_mod [of "x * z ^ 4"] by (intro mod_diff_cong mod_add_cong) auto
  then show ?thesis by (simp add: jac_curve_def P_dvd_mod algebra_simps)
qed

lemma jac_curve_modI:
  "P dvd y ^ 2 - (x ^ 3 - 3 * x * z ^ 4 + B * z ^ 6) \<Longrightarrow> jac_curve (x mod P, y mod P, z mod P)"
  by (subst jac_curve_mod) (simp only: jac_curve_iff)

text \<open>Doubling with \<open>a = -3\<close>: the defect of the result is a multiple of the defect of the point.\<close>

lemma dbl_identity_squares:
  fixes x G w b :: int
  defines "al \<equiv> 3 * ((x - w) * (x + w))"
  defines "x3 \<equiv> al * al - 8 * (x * G)"
  shows "(al * (4 * (x * G) - x3) - 8 * (G * G)) ^ 2
      - (x3 ^ 3 - 3 * x3 * (16 * G ^ 2 * w ^ 2) + b * (64 * G ^ 3 * w ^ 3))
    = 64 * G ^ 3 * (G - (x ^ 3 - 3 * x * w ^ 2 + b * w ^ 3))"
  unfolding x3_def al_def by algebra

lemma dbl_identity:
  fixes x y z b :: int
  defines "al \<equiv> 3 * ((x - z * z) * (x + z * z))"
  defines "be \<equiv> x * (y * y)"
  defines "x3 \<equiv> al * al - 8 * be"
  defines "y3 \<equiv> al * (4 * be - x3) - 8 * ((y * y) * (y * y))"
  defines "z3 \<equiv> (y + z) * (y + z) - y * y - z * z"
  shows "y3 ^ 2 - (x3 ^ 3 - 3 * x3 * z3 ^ 4 + b * z3 ^ 6)
    = 64 * y ^ 6 * (y ^ 2 - (x ^ 3 - 3 * x * z ^ 4 + b * z ^ 6))"
proof -
  have z3: "z3 = 2 * (y * z)" by (simp add: z3_def algebra_simps)
  have "z3 ^ 4 = 16 * (y * y) ^ 2 * (z * z) ^ 2" "z3 ^ 6 = 64 * (y * y) ^ 3 * (z * z) ^ 3"
    unfolding z3 by algebra+
  then show ?thesis
    using dbl_identity_squares [of x "z * z" "y * y" b]
    by (simp only: y3_def x3_def al_def be_def power2_eq_square [symmetric] power_mult [symmetric])
      (simp add: power_mult)
qed

text \<open>
  Mixed addition on \<open>y^2 = x^3 + a x + b\<close>, the second point given as \<open>(u, s)\<close> in the
  coordinates of the first: the defect of the result is a combination of the two defects.
\<close>

lemma madd_identity:
  fixes x1 y1 u s a b :: int
  defines "h \<equiv> u - x1"
  defines "r \<equiv> s - y1"
  defines "x3 \<equiv> r * r - h * (h * h) - 2 * (x1 * (h * h))"
  defines "y3 \<equiv> r * (x1 * (h * h) - x3) - y1 * (h * (h * h))"
  shows "y3 ^ 2 - (x3 ^ 3 + a * x3 * h ^ 4 + b * h ^ 6)
    = h ^ 3 * ((u * h ^ 2 - x3) * (y1 ^ 2 - (x1 ^ 3 + a * x1 + b))
        + (x3 - x1 * h ^ 2) * (s ^ 2 - (u ^ 3 + a * u + b)))"
proof -
  have u: "u = x1 + h" and s: "s = y1 + r" by (simp_all add: h_def r_def)
  show ?thesis unfolding y3_def x3_def u s by algebra
qed

section \<open>The formulas on residues\<close>

text \<open>The outputs of the doubling, with every intermediate residue the scripts take.\<close>

definition dbl_formula :: "jac \<Rightarrow> jac" where
  "dbl_formula = (\<lambda>(x, y, z).
     let al = 3 * ((x - z * z) * (x + z * z));
         be = x * (y * y);
         x3 = al * al - 8 * be
     in (x3 mod P, (al * (4 * be - x3) - 8 * ((y * y) * (y * y))) mod P,
         ((y + z) * (y + z) - y * y - z * z) mod P))"

definition madd_formula :: "jac \<Rightarrow> int \<Rightarrow> int \<Rightarrow> jac" where
  "madd_formula = (\<lambda>(x1, y1, z1) x2 y2.
     let h = x2 * (z1 * z1) - x1;
         r = y2 * (z1 * (z1 * z1)) - y1;
         x3 = r * r - h * (h * h) - 2 * (x1 * (h * h))
     in (x3 mod P, (r * (x1 * (h * h) - x3) - y1 * (h * (h * h))) mod P, (h * z1) mod P))"

lemma dbl_formula_curve:
  assumes "jac_curve p"
  shows "jac_curve (dbl_formula p)" "jac_range (dbl_formula p)"
proof -
  obtain x y z where p: "p = (x, y, z)" by (cases p)
  show "jac_curve (dbl_formula p)"
    unfolding p dbl_formula_def Let_def prod.case
    by (rule jac_curve_modI, unfold dbl_identity) (use assms p in \<open>simp add: jac_curve_iff\<close>)
  show "jac_range (dbl_formula p)"
    by (simp add: p dbl_formula_def Let_def jac_range_def)
qed

lemma madd_formula_curve:
  assumes "jac_curve p" "jac_curve (x2, y2, 1)"
  shows "jac_curve (madd_formula p x2 y2)" "jac_range (madd_formula p x2 y2)"
proof -
  obtain x1 y1 z where p: "p = (x1, y1, z)" by (cases p)
  let ?u = "x2 * (z * z)" and ?s = "y2 * (z * (z * z))"
  let ?h = "?u - x1" and ?r = "?s - y1"
  let ?x3 = "?r * ?r - ?h * (?h * ?h) - 2 * (x1 * (?h * ?h))"
  let ?y3 = "?r * (x1 * (?h * ?h) - ?x3) - y1 * (?h * (?h * ?h))"
  have "P dvd y1 ^ 2 - (x1 ^ 3 + - 3 * z ^ 4 * x1 + B * z ^ 6)"
    using assms(1) by (simp add: p jac_curve_iff algebra_simps)
  moreover have "?s ^ 2 - (?u ^ 3 + - 3 * z ^ 4 * ?u + B * z ^ 6)
      = z ^ 6 * (y2 ^ 2 - (x2 ^ 3 - 3 * x2 + B))"
    by algebra
  then have "P dvd ?s ^ 2 - (?u ^ 3 + - 3 * z ^ 4 * ?u + B * z ^ 6)"
    using assms(2) by (simp add: jac_curve_iff)
  ultimately have "P dvd ?y3 ^ 2 - (?x3 ^ 3 + - 3 * z ^ 4 * ?x3 * ?h ^ 4 + B * z ^ 6 * ?h ^ 6)"
    unfolding madd_identity by (intro dvd_mult dvd_add)
  moreover have "?y3 ^ 2 - (?x3 ^ 3 + - 3 * z ^ 4 * ?x3 * ?h ^ 4 + B * z ^ 6 * ?h ^ 6)
      = ?y3 ^ 2 - (?x3 ^ 3 - 3 * ?x3 * (?h * z) ^ 4 + B * (?h * z) ^ 6)"
    by (simp add: power_mult_distrib)
  ultimately show "jac_curve (madd_formula p x2 y2)"
    unfolding p madd_formula_def Let_def prod.case by (intro jac_curve_modI) (simp only:)
  show "jac_range (madd_formula p x2 y2)"
    by (simp add: p madd_formula_def Let_def jac_range_def)
qed

lemma G_curve: "jac_curve (GX, GY, 1)"
proof -
  have "GY * GY - (GX * GX * GX - 3 * GX + B) = P * (- 0x12bdd1ad23dfc833dccf5f6141d6bb4a1f365dc1430b0e600b52dd851938d2d6933106a72efbf035fdaf43963b37fd5456e90c6581a8fb7a0d8a46a3629f0458)"
    by (simp add: B_def GX_def GY_def P_def)
  then show ?thesis
    by (simp add: jac_curve_iff power2_eq_square power3_eq_cube)
qed

lemma infinity_curve: "jac_curve (0, 0, 0)" "jac_range (0, 0, 0)"
  by (simp_all add: jac_curve_def jac_range_def)

end
