(* ===== verification/P256_Fe_Mul.thy ===== *)
theory P256_Fe_Mul
  imports P256_Mont P256_Curve
begin

text \<open>
  The field multiply of \<open>scripts/p256_fe_mul_derivation.py\<close>: the 4x4 limb product in the
  instruction order of the assembly (\<open>mul4x4_hw\<close>), followed by the folding reduction
  (\<open>fe_mul_hw\<close>), and the Jacobian scalar multiplication the script drives through it
  (\<open>_jac_dbl\<close>, \<open>_jac_add_affine\<close>, \<open>scalar_mul_hw\<close>).

  An \<open>AssertionError\<close> of the product or of the reduction is \<open>None\<close>. \<open>mul4x4_hw\<close> also returns
  the words it records in \<open>audit\<close>; the global \<open>AUDIT\<close> dict, which only counts calls, is
  not threaded through the point arithmetic.
\<close>

section \<open>The product\<close>

definition row0 :: "int list \<Rightarrow> int list \<Rightarrow> int list option" where
  "row0 aw bw =
     (let b = bw ! 0;
          lo = lo_halves aw b;
          hi = hi_halves aw b;
          s1 = hi ! 0 + lo ! 1; c1 = drop_bit 64 s1;
          s2 = hi ! 1 + lo ! 2 + c1; c2 = drop_bit 64 s2;
          s3 = hi ! 2 + lo ! 3 + c2; c3 = drop_bit 64 s3;
          t4 = hi ! 3 + c3
      in do {
        py_assert (hi ! 3 \<le> MASK - 1);
        py_assert (t4 \<le> MASK);
        Some [lo ! 0, s1 AND MASK, s2 AND MASK, s3 AND MASK, t4, 0, 0, 0] })"

definition mul_row :: "int list \<Rightarrow> int list \<Rightarrow> nat \<Rightarrow> int list \<Rightarrow> int list option" where
  "mul_row aw bw i t =
     (let b = bw ! i;
          lo = lo_halves aw b;
          hi = hi_halves aw b;
          (t, c) = add_chain 4 i lo t;
          t = t[i + 4 := c];
          (t, c) = add_chain 3 (i + 1) hi t;
          s = t ! (i + 4) + hi ! 3 + c
      in do { py_assert (s \<le> MASK); Some (t[i + 4 := s]) })"

definition mul4x4_hw :: "int list \<Rightarrow> int list \<Rightarrow> (int list \<times> int list) option" where
  "mul4x4_hw aw bw = do {
     t0 \<leftarrow> row0 aw bw;
     t1 \<leftarrow> mul_row aw bw 1 t0;
     t2 \<leftarrow> mul_row aw bw 2 t1;
     t3 \<leftarrow> mul_row aw bw 3 t2;
     Some (t3, [t0 ! 4, t1 ! 5, t2 ! 6, t3 ! 7]) }"

definition fe_mul_hw :: "int \<Rightarrow> int \<Rightarrow> int option" where
  "fe_mul_hw a b = do { (t, _) \<leftarrow> mul4x4_hw (words a) (words b); reduce_full t }"

lemma div_LB_zero: "0 \<le> x \<Longrightarrow> x div LB = 0 \<longleftrightarrow> x < LB"
  using LB_pos by (auto simp: zdiv_eq_0_iff)

subsection \<open>The rows are the rows of the schoolbook product\<close>

lemma add_chain_Suc:
  "add_chain (Suc m) k v t =
     (case add_chain m k v t of (t, c) \<Rightarrow>
        (t[k + m := (t ! (k + m) + v ! m + c) AND MASK], drop_bit 64 (t ! (k + m) + v ! m + c)))"
  by (simp add: add_chain_def Let_def split: prod.splits)

lemma add_chain_nonneg:
  assumes "limbs_ok t" "limbs_ok v" "m \<le> length v" "k + m \<le> length t" "add_chain m k v t = (t', c)"
  shows "limbs_ok t'" "length t' = length t" "0 \<le> c"
  using add_chain_correct [OF assms] by auto

lemma mul_row_product_row:
  assumes aw: "length aw = 4" "limbs_ok aw" and bw: "limb_ok (bw ! i)"
    and t: "length t = 8" "limbs_ok t" and i: "i < 4" and res: "product_row aw bw i t = Some t'"
  shows "mul_row aw bw i t = Some t'"
proof -
  define lo hi where "lo = lo_halves aw (bw ! i)" and "hi = hi_halves aw (bw ! i)"
  have hi: "limbs_ok hi" "length hi = 4"
    using limbs_ok_hi_halves [OF aw(2,1) bw] by (simp_all add: hi_def)
  have lo: "limbs_ok lo" "length lo = 4" by (simp_all add: lo_def)
  obtain t1 c1 where 1: "add_chain 4 i lo t = (t1, c1)" by (cases "add_chain 4 i lo t")
  have le1: "4 \<le> length lo" "i + 4 \<le> length t" using lo t i by auto
  note c1 = add_chain_correct [OF t(2) lo(1) le1 1]
  define t2 where "t2 = t1[i + 4 := c1]"
  have "limb_ok c1" using c1(3,4) LB_gt_1 unfolding limb_ok_def by linarith
  then have t2: "limbs_ok t2" "length t2 = 8" using c1(1,2) t by (auto simp: t2_def)
  obtain t3 c3 where 3: "add_chain 3 (i + 1) hi t2 = (t3, c3)" by (cases "add_chain 3 (i + 1) hi t2")
  have le3: "3 \<le> length hi" "i + 1 + 3 \<le> length t2" using hi t2 i by auto
  note c3 = add_chain_nonneg [OF t2(1) hi(1) le3 3]
  let ?s = "t3 ! (i + 4) + hi ! 3 + c3"
  have "0 \<le> t3 ! (i + 4)" "0 \<le> hi ! 3"
    using limbs_ok_nth [OF c3(1), of "i + 4"] limbs_ok_nth [OF hi(1), of 3] c3(2) t2(2) hi(2) i
    by (auto simp: limb_ok_def)
  then have s0: "0 \<le> ?s" using c3(3) by simp
  have chain: "add_chain 4 (i + 1) hi t2 = (t3[i + 4 := ?s AND MASK], drop_bit 64 ?s)"
    using add_chain_Suc [of 3 "i + 1" hi t2] 3 by (simp add: eval_nat_numeral)
  have "drop_bit 64 ?s = 0" and t': "t' = t3[i + 4 := ?s AND MASK]"
    using res 1 chain
    by (auto simp: product_row_def Let_def lo_def [symmetric] hi_def [symmetric] t2_def [symmetric]
        bind_eq_Some_conv)
  then have "?s < LB" using s0 LB_pos div_LB_zero by (simp add: drop_64)
  then have "?s \<le> MASK" "?s AND MASK = ?s" using s0 by (simp add: MASK_eq, simp add: and_MASK)
  then show ?thesis
    using 1 3 t'
    by (simp add: mul_row_def Let_def lo_def [symmetric] hi_def [symmetric] t2_def [symmetric])
qed

lemma row0_product_row:
  assumes aw: "length aw = 4" "limbs_ok aw" and bw: "limb_ok (bw ! 0)"
    and res: "product_row aw bw 0 (replicate 8 0) = Some t'"
  shows "row0 aw bw = Some t'"
proof -
  have hi: "limbs_ok (hi_halves aw (bw ! 0))" by (rule limbs_ok_hi_halves [OF aw(2,1) bw])
  obtain l0 l1 l2 l3 where lo: "lo_halves aw (bw ! 0) = [l0, l1, l2, l3]"
    by (rule list4_cases [of "lo_halves aw (bw ! 0)"]) auto
  obtain h0 h1 h2 h3 where h: "hi_halves aw (bw ! 0) = [h0, h1, h2, h3]"
    by (rule list4_cases [of "hi_halves aw (bw ! 0)"]) auto
  have l: "0 \<le> l0" "l0 < LB" "0 \<le> l1" "l1 < LB" "0 \<le> l2" "l2 < LB" "0 \<le> l3" "l3 < LB"
    using limbs_ok_lo_halves [of aw "bw ! 0"] unfolding lo by (auto simp: limb_ok_def)
  have hh: "0 \<le> h0" "0 \<le> h1" "0 \<le> h2" "0 \<le> h3"
    using hi unfolding h by (auto simp: limb_ok_def)
  have "h3 = aw ! 3 * bw ! 0 div LB" using arg_cong [OF h, of "\<lambda>x. x ! 3"] by (simp add: hi_halves_def limb_simps)
  then have h3: "h3 \<le> MASK - 1"
    using limb_mult_high(2) [of "aw ! 3" "bw ! 0"] limbs_ok_nth [OF aw(2), of 3] aw(1) bw
    by (simp add: MASK_eq)
  let ?s1 = "l1 + h0" and ?t = "[l0, l1, l2, l3, 0, 0, 0, 0 :: int]"
  let ?s2 = "l2 + h1 + ?s1 div LB"
  let ?s3 = "l3 + h2 + ?s2 div LB"
  let ?s4 = "h3 + ?s3 div LB"
  have ch1: "add_chain 4 0 [l0, l1, l2, l3] (replicate 8 0) = (?t, 0)"
    unfolding add_chain_def Let_def and_MASK drop_64 using l by (simp add: eval_nat_numeral)
  have ch2: "add_chain 4 1 [h0, h1, h2, h3] ?t
      = ([l0, ?s1 mod LB, ?s2 mod LB, ?s3 mod LB, ?s4 mod LB, 0, 0, 0], ?s4 div LB)"
    unfolding add_chain_def Let_def and_MASK drop_64 by (simp add: eval_nat_numeral)
  have "?s4 div LB = 0" and t': "t' = [l0, ?s1 mod LB, ?s2 mod LB, ?s3 mod LB, ?s4 mod LB, 0, 0, 0]"
    using res ch2 ch1 by (auto simp: product_row_def Let_def lo h bind_eq_Some_conv)
  moreover have "0 \<le> ?s4"
    using hh l LB_pos by (intro add_nonneg_nonneg pos_imp_zdiv_nonneg_iff [THEN iffD2]) auto
  ultimately have "?s4 < LB" "?s4 mod LB = ?s4" using div_LB_zero [of ?s4] by simp_all
  then show ?thesis
    using h3 t' unfolding row0_def Let_def lo h and_MASK drop_64 by (simp add: MASK_eq add.commute)
qed

lemma mul4x4_hw_correct:
  assumes aw: "length aw = 4" "limbs_ok aw" and bw: "length bw = 4" "limbs_ok bw"
  obtains t au where "mul4x4_hw aw bw = Some (t, au)" "length t = 8" "limbs_ok t"
    "value_w t = value_w aw * value_w bw"
proof -
  have b: "limb_ok (bw ! i)" if "i < 4" for i using bw that by (simp add: limbs_ok_nth)
  obtain t where t: "product_4x4 aw bw = Some t" "length t = 8" "limbs_ok t"
    "value_w t = value_w aw * value_w bw"
    by (rule product_4x4_correct [OF aw bw])
  obtain t0 where 0: "product_row aw bw 0 (replicate 8 0) = Some t0" "length t0 = 8" "limbs_ok t0"
    "\<And>j. 0 + 5 \<le> j \<Longrightarrow> j < 8 \<Longrightarrow> t0 ! j = 0"
    by (rule product_row_correct [OF aw b, of 0 "replicate 8 0"]) auto
  obtain t1 where 1: "product_row aw bw 1 t0 = Some t1" "length t1 = 8" "limbs_ok t1"
    "\<And>j. 1 + 5 \<le> j \<Longrightarrow> j < 8 \<Longrightarrow> t1 ! j = 0"
    by (rule product_row_correct [OF aw b 0(2,3), of 1]) (use 0(4) in auto)
  obtain t2 where 2: "product_row aw bw 2 t1 = Some t2" "length t2 = 8" "limbs_ok t2"
    "\<And>j. 2 + 5 \<le> j \<Longrightarrow> j < 8 \<Longrightarrow> t2 ! j = 0"
    by (rule product_row_correct [OF aw b 1(2,3), of 2]) (use 1(4) in auto)
  have 3: "product_row aw bw 3 t2 = Some t" using t(1) 0(1) 1(1) 2(1) by (simp add: product_4x4_def)
  show thesis
    using that [of t "[t0 ! 4, t1 ! 5, t2 ! 6, t ! 7]"] t(2-4)
      row0_product_row [OF aw b 0(1)] mul_row_product_row [OF aw b 0(2,3) _ 1(1)]
      mul_row_product_row [OF aw b 1(2,3) _ 2(1)] mul_row_product_row [OF aw b 2(2,3) _ 3]
    by (simp add: mul4x4_hw_def)
qed

lemma fe_mul_hw_words: "fe_mul_hw a b = Some ((a mod 2 ^ 256) * (b mod 2 ^ 256) mod P)"
proof -
  obtain t au where "mul4x4_hw (words a) (words b) = Some (t, au)" "length t = 8" "limbs_ok t"
    "value_w t = value_w (words a) * value_w (words b)"
    by (rule mul4x4_hw_correct [of "words a" "words b"]) auto
  then show ?thesis
    by (simp add: fe_mul_hw_def reduce_full_eq value_words LB_def)
qed

text \<open>
  C35. The field multiply is total and right on every pair of integers: the asserts on the
  rows (no carry past \<open>t[i+4]\<close>) and on the reduction never fire, and the result is the
  product of the operands, taken as 256-bit values, modulo the P-256 prime.
\<close>

theorem fe_mul_hw_eq: "fe_mul_hw a b = Some ((a mod 2 ^ 256) * (b mod 2 ^ 256) mod P)"
  by (rule fe_mul_hw_words)

section \<open>Point arithmetic through the multiply\<close>

definition jac_dbl :: "jac \<Rightarrow> jac option" where
  "jac_dbl pt = (case pt of (x, y, z) \<Rightarrow>
     if z = 0 then Some (0, 0, 0)
     else do {
       delta \<leftarrow> fe_mul_hw z z;
       gamma \<leftarrow> fe_mul_hw y y;
       beta \<leftarrow> fe_mul_hw x gamma;
       let t = (x - delta) mod P;
       let u = (x + delta) mod P;
       tu \<leftarrow> fe_mul_hw t u;
       alpha \<leftarrow> fe_mul_hw (3 mod P) tu;
       aa \<leftarrow> fe_mul_hw alpha alpha;
       let x3 = (aa - 8 * beta) mod P;
       yz \<leftarrow> fe_mul_hw ((y + z) mod P) ((y + z) mod P);
       let z3 = (yz - gamma - delta) mod P;
       ab \<leftarrow> fe_mul_hw alpha ((4 * beta - x3) mod P);
       gg \<leftarrow> fe_mul_hw gamma gamma;
       let y3 = (ab - 8 * gg) mod P;
       Some (x3, y3, z3) })"

definition jac_add_affine :: "jac \<Rightarrow> int \<Rightarrow> int \<Rightarrow> jac option" where
  "jac_add_affine pt x2 y2 = (case pt of (x1, y1, z1) \<Rightarrow>
     if z1 = 0 then Some (x2, y2, 1)
     else do {
       z1z1 \<leftarrow> fe_mul_hw z1 z1;
       u2 \<leftarrow> fe_mul_hw x2 z1z1;
       z1c \<leftarrow> fe_mul_hw z1 z1z1;
       s2 \<leftarrow> fe_mul_hw y2 z1c;
       let h = (u2 - x1) mod P;
       let r = (s2 - y1) mod P;
       if h = 0 then (if r = 0 then jac_dbl pt else Some (0, 0, 0))
       else do {
         hh \<leftarrow> fe_mul_hw h h;
         hhh \<leftarrow> fe_mul_hw h hh;
         v \<leftarrow> fe_mul_hw x1 hh;
         rr \<leftarrow> fe_mul_hw r r;
         let x3 = (rr - hhh - 2 * v) mod P;
         rv \<leftarrow> fe_mul_hw r ((v - x3) mod P);
         yh \<leftarrow> fe_mul_hw y1 hhh;
         let y3 = (rv - yh) mod P;
         z3 \<leftarrow> fe_mul_hw h z1;
         Some (x3, y3, z3) } })"

fun scalar_loop :: "int \<Rightarrow> nat \<Rightarrow> jac \<Rightarrow> jac option" where
  "scalar_loop k 0 acc = Some acc"
| "scalar_loop k (Suc i) acc = do {
     acc \<leftarrow> jac_dbl acc;
     acc \<leftarrow> (if drop_bit i k AND 1 \<noteq> 0 then jac_add_affine acc GX GY else Some acc);
     scalar_loop k i acc }"

definition scalar_mul_hw :: "int \<Rightarrow> (int \<times> int) option" where
  "scalar_mul_hw k = do {
     (x, y, z) \<leftarrow> scalar_loop k (bit_length k) (0, 0, 0);
     if z = 0 then Some (0, 0)
     else do {
       let zinv = pow_mod z (P - 2) P;
       zinv2 \<leftarrow> fe_mul_hw zinv zinv;
       rx \<leftarrow> fe_mul_hw x zinv2;
       zinv3 \<leftarrow> fe_mul_hw zinv2 zinv;
       ry \<leftarrow> fe_mul_hw y zinv3;
       Some (rx, ry) } }"

lemma fe_mul_range: "0 \<le> a \<Longrightarrow> a < P \<Longrightarrow> 0 \<le> b \<Longrightarrow> b < P \<Longrightarrow> fe_mul_hw a b = Some (a * b mod P)"
  using P_less by (simp add: fe_mul_hw_words)

lemma mod_P_nonneg: "x = y mod P \<Longrightarrow> 0 \<le> x"
  and mod_P_less: "x = y mod P \<Longrightarrow> x < P"
  by simp_all

lemma fe_mul_total: "\<exists>c. fe_mul_hw a b = Some c \<and> 0 \<le> c \<and> c < P"
  unfolding fe_mul_hw_words by (intro exI conjI, rule refl) simp_all

lemma three_mod_P: "3 mod P = 3"
  by (simp add: P_def)

lemma three_less_P: "3 < P"
  by (simp add: P_def)

lemma jac_dbl_formula:
  assumes "jac_range p"
  shows "jac_dbl p = Some (if snd (snd p) = 0 then (0, 0, 0) else dbl_formula p)"
proof -
  obtain x y z where p: "p = (x, y, z)" by (cases p)
  have r: "0 \<le> x" "x < P" "0 \<le> y" "y < P" "0 \<le> z" "z < P"
    using assms by (auto simp: p jac_range_def)
  define de ga where "de = z * z mod P" and "ga = y * y mod P"
  define be where "be = x * ga mod P"
  define t u where "t = (x - de) mod P" and "u = (x + de) mod P"
  define tu where "tu = t * u mod P"
  define al where "al = 3 * tu mod P"
  define aa where "aa = al * al mod P"
  define x3 where "x3 = (aa - 8 * be) mod P"
  define yz where "yz = (y + z) mod P"
  define b4 where "b4 = (4 * be - x3) mod P"
  define yy ab gg where "yy = yz * yz mod P" and "ab = al * b4 mod P" and "gg = ga * ga mod P"
  note defs = de_def ga_def be_def t_def u_def tu_def al_def aa_def x3_def yz_def b4_def
    yy_def ab_def gg_def
  note ranges = defs [THEN mod_P_nonneg] defs [THEN mod_P_less]
  have m: "fe_mul_hw z z = Some de" "fe_mul_hw y y = Some ga" "fe_mul_hw x ga = Some be"
    "fe_mul_hw t u = Some tu" "fe_mul_hw (3 mod P) tu = Some al" "fe_mul_hw al al = Some aa"
    "fe_mul_hw yz yz = Some yy" "fe_mul_hw al b4 = Some ab" "fe_mul_hw ga ga = Some gg"
    unfolding three_mod_P de_def [symmetric] ga_def [symmetric] be_def tu_def al_def aa_def
      yy_def ab_def gg_def
    by (simp_all only: fe_mul_range r ranges de_def ga_def three_less_P pos_mod_sign pos_mod_bound P_pos
        zero_le_numeral)
  have "jac_dbl p = Some (if z = 0 then (0, 0, 0)
      else (x3, (ab - 8 * gg) mod P, (yy - ga - de) mod P))"
    unfolding p jac_dbl_def prod.case Let_def
    by (simp only: m bind.simps t_def [symmetric] u_def [symmetric] x3_def [symmetric]
        yz_def [symmetric] b4_def [symmetric] split: if_splits) simp
  moreover have "x3 = fst (dbl_formula p)"
    unfolding dbl_formula_def p Let_def prod.case fst_conv defs
    by (intro eqm_modI eqm_intros)
  moreover have "(ab - 8 * gg) mod P = fst (snd (dbl_formula p))"
    unfolding dbl_formula_def p Let_def prod.case fst_conv snd_conv defs
    by (intro eqm_modI eqm_intros)
  moreover have "(yy - ga - de) mod P = snd (snd (dbl_formula p))"
    unfolding dbl_formula_def p Let_def prod.case fst_conv snd_conv defs
    by (intro eqm_modI eqm_intros)
  ultimately show ?thesis by (simp add: p)
qed

lemma jac_add_affine_formula:
  assumes "jac_range p" and q: "0 \<le> x2" "x2 < P" "0 \<le> y2" "y2 < P"
  shows "\<exists>q. jac_add_affine p x2 y2 = Some q
    \<and> (q = (x2, y2, 1) \<or> q = (0, 0, 0) \<or> q = dbl_formula p \<or> q = madd_formula p x2 y2)"
proof -
  obtain x1 y1 z1 where p: "p = (x1, y1, z1)" by (cases p)
  have rng: "0 \<le> x1" "x1 < P" "0 \<le> y1" "y1 < P" "0 \<le> z1" "z1 < P"
    using assms by (auto simp: p jac_range_def)
  define zz where "zz = z1 * z1 mod P"
  define u2 where "u2 = x2 * zz mod P"
  define zc where "zc = z1 * zz mod P"
  define s2 where "s2 = y2 * zc mod P"
  define h r where "h = (u2 - x1) mod P" and "r = (s2 - y1) mod P"
  define hh where "hh = h * h mod P"
  define hhh v where "hhh = h * hh mod P" and "v = x1 * hh mod P"
  define rr where "rr = r * r mod P"
  define x3 where "x3 = (rr - hhh - 2 * v) mod P"
  define vx where "vx = (v - x3) mod P"
  define rv yh z3 where "rv = r * vx mod P" and "yh = y1 * hhh mod P" and "z3 = h * z1 mod P"
  note defs = zz_def u2_def zc_def s2_def h_def r_def hh_def hhh_def v_def rr_def x3_def vx_def
    rv_def yh_def z3_def
  note ranges = defs [THEN mod_P_nonneg] defs [THEN mod_P_less]
  have m: "fe_mul_hw z1 z1 = Some zz" "fe_mul_hw x2 zz = Some u2" "fe_mul_hw z1 zz = Some zc"
    "fe_mul_hw y2 zc = Some s2" "fe_mul_hw h h = Some hh" "fe_mul_hw h hh = Some hhh"
    "fe_mul_hw x1 hh = Some v" "fe_mul_hw r r = Some rr" "fe_mul_hw r vx = Some rv"
    "fe_mul_hw y1 hhh = Some yh" "fe_mul_hw h z1 = Some z3"
    by (simp_all only: fe_mul_range rng q ranges zz_def [symmetric] u2_def [symmetric]
        zc_def [symmetric] s2_def [symmetric] hh_def [symmetric] hhh_def [symmetric]
        v_def [symmetric] rr_def [symmetric] rv_def [symmetric] yh_def [symmetric] z3_def [symmetric])
  have res: "jac_add_affine p x2 y2 = (if z1 = 0 then Some (x2, y2, 1)
      else if h = 0 then (if r = 0 then jac_dbl p else Some (0, 0, 0))
      else Some (x3, (rv - yh) mod P, z3))"
    unfolding p jac_add_affine_def prod.case Let_def
    by (simp only: m bind.simps h_def [symmetric] r_def [symmetric] x3_def [symmetric]
        vx_def [symmetric])
  have "x3 = fst (madd_formula p x2 y2)"
    unfolding madd_formula_def p Let_def prod.case fst_conv defs
    by (intro eqm_modI eqm_intros)
  moreover have "(rv - yh) mod P = fst (snd (madd_formula p x2 y2))"
    unfolding madd_formula_def p Let_def prod.case fst_conv snd_conv defs
    by (intro eqm_modI eqm_intros)
  moreover have "z3 = snd (snd (madd_formula p x2 y2))"
    unfolding madd_formula_def p Let_def prod.case fst_conv snd_conv defs
    by (intro eqm_modI eqm_intros)
  ultimately show ?thesis
    using res jac_dbl_formula [OF assms(1)] by (metis prod.collapse)
qed

lemma G_range: "0 \<le> GX" "GX < P" "0 \<le> GY" "GY < P"
  by (simp_all add: GX_def GY_def P_def)

definition jac_ok :: "jac \<Rightarrow> bool" where
  "jac_ok p \<longleftrightarrow> jac_range p \<and> jac_curve p"

lemma jac_ok_dbl: "jac_ok p \<Longrightarrow> \<exists>q. jac_dbl p = Some q \<and> jac_ok q"
  using dbl_formula_curve [of p] infinity_curve by (auto simp: jac_ok_def jac_dbl_formula)

lemma jac_ok_add: "jac_ok p \<Longrightarrow> \<exists>q. jac_add_affine p GX GY = Some q \<and> jac_ok q"
proof -
  assume p: "jac_ok p"
  have "jac_ok (GX, GY, 1)"
    using G_curve G_range by (simp add: jac_ok_def jac_range_def P_def)
  then show ?thesis
    using jac_add_affine_formula [of p GX GY] p G_range dbl_formula_curve [of p] infinity_curve
      madd_formula_curve [of p GX GY] G_curve
    unfolding jac_ok_def by metis
qed

lemma scalar_loop_ok: "jac_ok acc \<Longrightarrow> \<exists>q. scalar_loop k i acc = Some q \<and> jac_ok q"
proof (induction i arbitrary: acc)
  case 0
  then show ?case by simp
next
  case (Suc i)
  obtain d where d: "jac_dbl acc = Some d" "jac_ok d" using jac_ok_dbl Suc.prems by blast
  obtain e where "jac_add_affine d GX GY = Some e" "jac_ok e" using jac_ok_add d(2) by blast
  then show ?case using d Suc.IH by simp
qed


end
