(* ===== verification/P256_Comb.thy ===== *)
theory P256_Comb
  imports P256_Mont P256_Curve
begin

text \<open>
  The fixed-base comb of \<open>scripts/p256_comb_derivation.py\<close>: the affine oracle
  (\<open>aff_add\<close>, \<open>aff_mul\<close>), the precomputed table (\<open>build_table\<close>, \<open>verify_table\<close>), the
  mixed addition and the constant-time comb (\<open>madd\<close>, \<open>to_affine\<close>, \<open>comb_mul_base\<close>).

  Python's \<open>None\<close> for the point at infinity is the inner option; the outer option of an
  operation is an exception: a \<open>ValueError\<close> of \<open>pow(x, -1, P)\<close>, a failed \<open>assert\<close>, or an
  access to a missing table entry.
\<close>

definition W :: nat where "W = 4"
definition BLOCKS :: nat where "BLOCKS = 256 div W"
definition ENTRIES :: nat where "ENTRIES = 2 ^ W - 1"

type_synonym aff = "(int \<times> int) option"

definition G :: aff where
  "G = Some (GX, GY)"

section \<open>The affine oracle\<close>

definition aff_add :: "aff \<Rightarrow> aff \<Rightarrow> aff option" where
  "aff_add p1 p2 = (case (p1, p2) of
       (None, _) \<Rightarrow> Some p2
     | (_, None) \<Rightarrow> Some p1
     | (Some (x1, y1), Some (x2, y2)) \<Rightarrow>
         if x1 = x2 \<and> (y1 + y2) mod P = 0 then Some None
         else do {
           lam \<leftarrow> (if x1 = x2 then map_option (\<lambda>i. (3 * x1 * x1 + A) * i mod P) (pow_inv (2 * y1) P)
                   else map_option (\<lambda>i. (y2 - y1) * i mod P) (pow_inv (x2 - x1) P));
           let x3 = (lam * lam - x1 - x2) mod P;
           Some (Some (x3, (lam * (x1 - x3) - y1) mod P)) })"

fun aff_mul_loop :: "int \<Rightarrow> nat \<Rightarrow> aff \<Rightarrow> aff \<Rightarrow> aff option" where
  "aff_mul_loop k 0 p r = Some r"
| "aff_mul_loop k (Suc i) p r = do {
     r \<leftarrow> aff_add r r;
     r \<leftarrow> (if drop_bit i k AND 1 \<noteq> 0 then aff_add r p else Some r);
     aff_mul_loop k i p r }"

definition aff_mul :: "int \<Rightarrow> aff \<Rightarrow> aff option" where
  "aff_mul k p = aff_mul_loop k (bit_length k) p None"

definition on_curve :: "aff \<Rightarrow> bool" where
  "on_curve p = (case p of None \<Rightarrow> True
     | Some (x, y) \<Rightarrow> (y * y - (x * x * x + A * x + B)) mod P = 0)"

section \<open>The table\<close>

fun table_row_loop :: "aff \<Rightarrow> nat \<Rightarrow> aff \<Rightarrow> aff list option" where
  "table_row_loop base 0 acc = Some []"
| "table_row_loop base (Suc n) acc = do {
     acc \<leftarrow> aff_add acc base;
     row \<leftarrow> table_row_loop base n acc;
     Some (acc # row) }"

fun double_times :: "nat \<Rightarrow> aff \<Rightarrow> aff option" where
  "double_times 0 p = Some p"
| "double_times (Suc n) p = do { p \<leftarrow> aff_add p p; double_times n p }"

fun table_loop :: "nat \<Rightarrow> aff \<Rightarrow> aff list list option" where
  "table_loop 0 base = Some []"
| "table_loop (Suc n) base = do {
     row \<leftarrow> table_row_loop base ENTRIES None;
     base \<leftarrow> double_times W base;
     rows \<leftarrow> table_loop n base;
     Some (row # rows) }"

definition build_table :: "aff list list option" where
  "build_table = table_loop BLOCKS G"

definition table_get :: "aff list list \<Rightarrow> nat \<Rightarrow> nat \<Rightarrow> aff option" where
  "table_get table i j =
     (if i < length table \<and> j < length (table ! i) then Some (table ! i ! j) else None)"

fun verify_entries :: "aff list list \<Rightarrow> (nat \<times> nat) list \<Rightarrow> unit option" where
  "verify_entries table [] = Some ()"
| "verify_entries table ((i, j) # ijs) = do {
     want \<leftarrow> aff_mul (push_bit (W * i) (int j)) G;
     got \<leftarrow> table_get table i (j - 1);
     py_assert (got = want);
     py_assert (on_curve got);
     verify_entries table ijs }"

definition verify_table :: "aff list list \<Rightarrow> nat option" where
  "verify_table table = do {
     verify_entries table (List.product [0..<BLOCKS] [1..<ENTRIES + 1]);
     Some (BLOCKS * ENTRIES) }"

section \<open>The comb\<close>

definition madd :: "jac \<Rightarrow> int \<Rightarrow> int \<Rightarrow> jac" where
  "madd p1 x2 y2 = (case p1 of (x1, y1, z1) \<Rightarrow>
     let z1z1 = z1 * z1 mod P;
         u2 = x2 * z1z1 mod P;
         z1cubed = z1 * z1z1 mod P;
         s2 = y2 * z1cubed mod P;
         h = (u2 - x1) mod P;
         r = (s2 - y1) mod P;
         hh = h * h mod P;
         hhh = h * hh mod P;
         v = x1 * hh mod P;
         x3 = (r * r - hhh - 2 * v) mod P;
         y3 = (r * ((v - x3) mod P) - y1 * hhh) mod P;
         z3 = h * z1 mod P
     in (x3, y3, z3))"

definition to_affine :: "jac \<Rightarrow> int \<times> int" where
  "to_affine p = (case p of (x, y, z) \<Rightarrow>
     if z mod P = 0 then (0, 0)
     else let zinv = pow_mod z (P - 2) P;
              zinv2 = zinv * zinv mod P
          in (x * zinv2 mod P, y * zinv2 mod P * zinv mod P))"

definition comb_digit :: "int \<Rightarrow> nat \<Rightarrow> int" where
  "comb_digit k i = drop_bit (W * i) k AND 0xF"

text \<open>
  The constant-time select: read every entry of the block and keep the one whose index
  is the digit, by masks.
\<close>

fun select_loop :: "aff list list \<Rightarrow> nat \<Rightarrow> int \<Rightarrow> nat list \<Rightarrow> int \<times> int \<Rightarrow> (int \<times> int) option" where
  "select_loop table i d [] a = Some a"
| "select_loop table i d (j # js) a = do {
     e \<leftarrow> table_get table i (j - 1);
     (tx, ty) \<leftarrow> e;
     let mask = (if int j = d then - 1 else 0);
     select_loop table i d js (fst a OR (tx AND mask), snd a OR (ty AND mask)) }"

definition comb_step :: "int \<Rightarrow> aff list list \<Rightarrow> nat \<Rightarrow> jac \<Rightarrow> jac option" where
  "comb_step k table i acc = (case acc of (rx, ry, rz) \<Rightarrow> do {
     let d = comb_digit k i;
     (ax, ay) \<leftarrow> select_loop table i d [1..<ENTRIES + 1] (0, 0);
     let cand = madd (rx, ry, rz) ax ay;
     let n = (if rz = 0 then (ax, ay, 1) else cand);
     let n = (if d = 0 then (rx, ry, rz) else n);
     Some n })"

fun comb_loop :: "int \<Rightarrow> aff list list \<Rightarrow> nat list \<Rightarrow> jac \<Rightarrow> jac option" where
  "comb_loop k table [] acc = Some acc"
| "comb_loop k table (i # is) acc = do { acc \<leftarrow> comb_step k table i acc; comb_loop k table is acc }"

definition comb_mul_base :: "int \<Rightarrow> aff list list \<Rightarrow> (int \<times> int) option" where
  "comb_mul_base k table = map_option to_affine (comb_loop k table [0..<BLOCKS] (0, 0, 0))"

definition oracle_mul_base :: "int \<Rightarrow> (int \<times> int) option" where
  "oracle_mul_base k =
     (if k mod N = 0 then Some (0, 0)
      else map_option (\<lambda>r. case r of Some p \<Rightarrow> p | None \<Rightarrow> (0, 0)) (aff_mul (k mod N) G))"

text \<open>The two integers \<open>prove\<close> computes for its structural argument.\<close>

definition max_addend :: int where
  "max_addend = push_bit (W * (BLOCKS - 1)) (int ENTRIES)"

definition smallest_block :: nat where
  "smallest_block = Min (set (filter (\<lambda>i. push_bit (W * (i + 1)) 1 > N) [0..<BLOCKS]))"

section \<open>Affine addition stays on the curve\<close>

lemma comb_consts [simp]: "W = 4" "BLOCKS = 64" "ENTRIES = 15"
  by (simp_all add: W_def BLOCKS_def ENTRIES_def)

lemma on_curve_iff: "on_curve (Some (x, y)) \<longleftrightarrow> P dvd y ^ 2 - (x ^ 3 - 3 * x + B)"
proof -
  have "on_curve (Some (x, y)) \<longleftrightarrow> jac_curve (x, y, 1)"
    by (simp add: on_curve_def jac_curve_def power2_eq_square power3_eq_cube)
  then show ?thesis by (simp add: jac_curve_iff)
qed

lemma chord_identity:
  fixes x1 y1 h l a b :: int
  defines "x3 \<equiv> l * l - x1 - (x1 + h)"
  shows "h * ((l * (x1 - x3) - y1) ^ 2 - (x3 ^ 3 + a * x3 + b))
    = (x1 + h - x3) * (y1 ^ 2 - (x1 ^ 3 + a * x1 + b))
      + (x3 - x1) * ((y1 + l * h) ^ 2 - ((x1 + h) ^ 3 + a * (x1 + h) + b))"
  unfolding x3_def by algebra

lemma tangent_identity:
  fixes x1 y1 l a b :: int
  defines "x3 \<equiv> l * l - x1 - x1"
  shows "(l * (x1 - x3) - y1) ^ 2 - (x3 ^ 3 + a * x3 + b)
    = (y1 ^ 2 - (x1 ^ 3 + a * x1 + b)) - (3 * x1 ^ 2 + a - 2 * y1 * l) * (x3 - x1)"
  unfolding x3_def by algebra

lemma on_curve_mod: "P dvd y ^ 2 - (x ^ 3 - 3 * x + B) \<Longrightarrow> on_curve (Some (x mod P, y mod P))"
  using jac_curve_modI [of y x 1] by (simp add: on_curve_iff jac_curve_iff P_def)

lemma slope_chord:
  assumes "pow_inv h P = Some i"
  shows "P dvd (r * i mod P) * h - r" and "P dvd h * x \<Longrightarrow> P dvd x"
proof -
  have inv: "P dvd h * i - 1" using assms by (rule pow_inv_correct) simp
  have "P dvd r * i - r * i mod P" by (simp add: minus_mod_eq_mult_div)
  from dvd_diff [OF dvd_mult [OF inv, of r] dvd_mult [OF this, of h]]
  have "P dvd r * (h * i - 1) - h * (r * i - r * i mod P)" .
  then show "P dvd (r * i mod P) * h - r" by (simp add: algebra_simps)
  assume "P dvd h * x"
  from dvd_diff [OF dvd_mult2 [OF this, of i] dvd_mult [OF inv, of x]]
  have "P dvd h * x * i - x * (h * i - 1)" .
  then show "P dvd x" by (simp add: algebra_simps)
qed

lemma aff_chord:
  assumes "on_curve (Some (x1, y1))" "on_curve (Some (x2, y2))" "pow_inv (x2 - x1) P = Some i"
  defines "l \<equiv> (y2 - y1) * i mod P"
  shows "on_curve (Some ((l * l - x1 - x2) mod P, (l * (x1 - (l * l - x1 - x2) mod P) - y1) mod P))"
proof -
  define h x3 where "h = x2 - x1" and "x3 = l * l - x1 - x2"
  have x2: "x2 = x1 + h" by (simp add: h_def)
  have lh: "P dvd l * h - (y2 - y1)" unfolding l_def h_def by (rule slope_chord(1) [OF assms(3)])
  have "P dvd y2 ^ 2 - (x2 ^ 3 - 3 * x2 + B)" using assms(2) by (simp only: on_curve_iff)
  from dvd_add [OF dvd_mult2 [OF lh, of "y1 + l * h + y2"] this]
  have "P dvd (l * h - (y2 - y1)) * (y1 + l * h + y2) + (y2 ^ 2 - (x2 ^ 3 - 3 * x2 + B))" .
  moreover have "(l * h - (y2 - y1)) * (y1 + l * h + y2) + (y2 ^ 2 - (x2 ^ 3 - 3 * x2 + B))
      = (y1 + l * h) ^ 2 - ((x1 + h) ^ 3 + - 3 * (x1 + h) + B)"
    unfolding x2 by algebra
  ultimately have s: "P dvd (y1 + l * h) ^ 2 - ((x1 + h) ^ 3 + - 3 * (x1 + h) + B)" by (simp only:)
  have f: "P dvd y1 ^ 2 - (x1 ^ 3 + - 3 * x1 + B)" using assms(1) by (simp add: on_curve_iff)
  have "P dvd h * ((l * (x1 - x3) - y1) ^ 2 - (x3 ^ 3 + - 3 * x3 + B))"
    unfolding x3_def x2 chord_identity by (rule dvd_add [OF dvd_mult [OF f] dvd_mult [OF s]])
  then have "P dvd (l * (x1 - x3) - y1) ^ 2 - (x3 ^ 3 + - 3 * x3 + B)"
    unfolding h_def by (rule slope_chord(2) [OF assms(3)])
  moreover have "(l * (x1 - x3 mod P) - y1) mod P = (l * (x1 - x3) - y1) mod P"
    by (intro eqm_modI eqm_intros)
  ultimately show ?thesis
    using on_curve_mod [of "l * (x1 - x3) - y1" x3] by (simp only: x3_def [symmetric] mult_minus_left uminus_add_conv_diff add_uminus_conv_diff)
qed

lemma aff_tangent:
  assumes "on_curve (Some (x1, y1))" "pow_inv (2 * y1) P = Some i"
  defines "l \<equiv> (3 * x1 * x1 + A) * i mod P"
  shows "on_curve (Some ((l * l - x1 - x1) mod P, (l * (x1 - (l * l - x1 - x1) mod P) - y1) mod P))"
proof -
  define x3 where "x3 = l * l - x1 - x1"
  have "P dvd l * (2 * y1) - (3 * x1 * x1 + A)" unfolding l_def by (rule slope_chord(1) [OF assms(2)])
  moreover have "P dvd A + 3" by (simp add: A_def P_def)
  ultimately have "P dvd (l * (2 * y1) - (3 * x1 * x1 + A)) + (A + 3)" by (rule dvd_add)
  then have "P dvd - (3 * x1 ^ 2 + - 3 - 2 * y1 * l)" by (simp add: algebra_simps power2_eq_square)
  then have d: "P dvd 3 * x1 ^ 2 + - 3 - 2 * y1 * l" by (simp only: dvd_minus_iff)
  have f: "P dvd y1 ^ 2 - (x1 ^ 3 + - 3 * x1 + B)" using assms(1) by (simp add: on_curve_iff)
  have "P dvd (l * (x1 - x3) - y1) ^ 2 - (x3 ^ 3 + - 3 * x3 + B)"
    unfolding x3_def tangent_identity by (rule dvd_diff [OF f dvd_mult2 [OF d]])
  moreover have "(l * (x1 - x3 mod P) - y1) mod P = (l * (x1 - x3) - y1) mod P"
    by (intro eqm_modI eqm_intros)
  ultimately show ?thesis
    using on_curve_mod [of "l * (x1 - x3) - y1" x3] by (simp only: x3_def [symmetric] mult_minus_left uminus_add_conv_diff add_uminus_conv_diff)
qed

lemma aff_add_curve:
  assumes "on_curve p1" "on_curve p2" "aff_add p1 p2 = Some r"
  shows "on_curve r"
proof (cases "p1 = None \<or> p2 = None")
  case True
  then show ?thesis using assms by (auto simp: aff_add_def split: option.splits)
next
  case False
  then obtain x1 y1 x2 y2 where p: "p1 = Some (x1, y1)" "p2 = Some (x2, y2)" by auto
  show ?thesis
  proof (cases "x1 = x2")
    case True
    then consider "r = None" | i where "pow_inv (2 * y1) P = Some i"
        "r = (let l = (3 * x1 * x1 + A) * i mod P
          in Some ((l * l - x1 - x1) mod P, (l * (x1 - (l * l - x1 - x1) mod P) - y1) mod P))"
      using assms(3) unfolding p aff_add_def Let_def
      by (cases "pow_inv (2 * y1) P") (simp_all split: if_splits)
    then show ?thesis
    proof cases
      case 1
      then show ?thesis by (simp add: on_curve_def)
    next
      case (2 i)
      then show ?thesis using assms(1) aff_tangent [of x1 y1 i] unfolding p Let_def by (simp only:)
    qed
  next
    case False
    then obtain i where "pow_inv (x2 - x1) P = Some i"
        "r = (let l = (y2 - y1) * i mod P
          in Some ((l * l - x1 - x2) mod P, (l * (x1 - (l * l - x1 - x2) mod P) - y1) mod P))"
      using assms(3) unfolding p aff_add_def Let_def
      by (cases "pow_inv (x2 - x1) P") (simp_all split: if_splits)
    then show ?thesis
      using assms(1,2) aff_chord [of x1 y1 x2 y2 i] unfolding p Let_def by (simp only:)
  qed
qed

lemma on_curve_G: "on_curve G"
  using G_curve by (simp add: G_def on_curve_iff jac_curve_iff)

text \<open>
  The affine oracle stays on the curve: whenever adding two points of the curve (equal,
  opposite, distinct, or infinity) returns, the result is a point of the curve.
\<close>

theorem aff_add_on_curve:
  assumes "on_curve p1" and "on_curve p2" and "aff_add p1 p2 = Some r"
  shows "on_curve r"
  by (rule aff_add_curve [OF assms])

theorem aff_add_on_curve_witness: "on_curve None"
proof (rule aff_add_on_curve [of "Some (GX, GY)" "Some (GX, P - GY)"])
  show "on_curve (Some (GX, GY))" using on_curve_G by (simp only: G_def)
  then have "P dvd GY ^ 2 - (GX ^ 3 - 3 * GX + B)" by (simp only: on_curve_iff)
  then have "P dvd P * (P - 2 * GY) + (GY ^ 2 - (GX ^ 3 - 3 * GX + B))" by (simp only: dvd_add dvd_triv_left)
  moreover have "P * (P - 2 * GY) + (GY ^ 2 - (GX ^ 3 - 3 * GX + B)) = (P - GY) ^ 2 - (GX ^ 3 - 3 * GX + B)"
    by algebra
  ultimately show "on_curve (Some (GX, P - GY))" by (simp only: on_curve_iff)
  show "aff_add (Some (GX, GY)) (Some (GX, P - GY)) = Some None" by (simp add: aff_add_def)
qed

section \<open>The comb\<close>

text \<open>A table the comb can read: every block has its fifteen finite points of the curve.\<close>

definition table_ok :: "aff list list \<Rightarrow> bool" where
  "table_ok table \<longleftrightarrow> length table = BLOCKS \<and> (\<forall>row \<in> set table. length row = ENTRIES
     \<and> (\<forall>p \<in> set row. \<exists>x y. p = Some (x, y) \<and> 0 \<le> x \<and> x < P \<and> 0 \<le> y \<and> y < P \<and> on_curve p))"

lemma table_ok_get:
  assumes "table_ok table" "i < 64" "1 \<le> j" "j \<le> 15"
  obtains x y where "table_get table i (j - 1) = Some (Some (x, y))"
    "0 \<le> x" "x < P" "0 \<le> y" "y < P" "on_curve (Some (x, y))"
proof -
  have i: "i < length table" and row: "length (table ! i) = 15"
    using assms by (auto simp: table_ok_def)
  then have "table ! i ! (j - 1) \<in> set (table ! i)" "table ! i \<in> set table"
    using assms(3,4) by (auto intro!: nth_mem)
  then obtain x y where "table ! i ! (j - 1) = Some (x, y)" "0 \<le> x" "x < P" "0 \<le> y" "y < P"
      "on_curve (Some (x, y))"
    using assms(1) unfolding table_ok_def by metis
  moreover have "j - 1 < length (table ! i)" using row assms(3,4) by linarith
  ultimately show thesis using that i by (simp add: table_get_def)
qed

lemma select_loop_miss:
  assumes "\<And>j. j \<in> set js \<Longrightarrow> \<exists>p. table_get table i (j - 1) = Some (Some p)"
    and "\<And>j. j \<in> set js \<Longrightarrow> int j \<noteq> d"
  shows "select_loop table i d js a = Some a"
  using assms
proof (induction js arbitrary: a)
  case Nil
  then show ?case by simp
next
  case (Cons j js)
  obtain tx ty where "table_get table i (j - 1) = Some (Some (tx, ty))" using Cons.prems(1) by fastforce
  moreover have "int j \<noteq> d" using Cons.prems(2) by simp
  ultimately show ?case using Cons by simp
qed

lemma select_loop_hit:
  assumes "\<And>j. j \<in> set js \<Longrightarrow> \<exists>p. table_get table i (j - 1) = Some (Some p)"
    and "distinct js" and "j \<in> set js" and "table_get table i (j - 1) = Some (Some (x, y))"
  shows "select_loop table i (int j) js (0, 0) = Some (x, y)"
  using assms
proof (induction js)
  case Nil
  then show ?case by simp
next
  case (Cons k js)
  obtain tx ty where k: "table_get table i (k - 1) = Some (Some (tx, ty))" using Cons.prems(1) by fastforce
  show ?case
  proof (cases "k = j")
    case True
    then have "select_loop table i (int j) js (x, y) = Some (x, y)"
      using Cons.prems by (intro select_loop_miss) auto
    then show ?thesis using True Cons.prems(4) by simp
  next
    case False
    then show ?thesis using Cons k by simp
  qed
qed

lemma comb_digit_range: "0 \<le> comb_digit k i" "comb_digit k i < 16"
proof -
  have "comb_digit k i = drop_bit (4 * i) k mod 2 ^ 4"
    using take_bit_eq_mask [of 4 "drop_bit (4 * i) k"]
    by (simp add: comb_digit_def mask_eq_exp_minus_1 take_bit_eq_mod)
  then show "0 \<le> comb_digit k i" "comb_digit k i < 16" by simp_all
qed

lemma select_digit:
  assumes "table_ok table" "i < 64" "0 \<le> d" "d < 16"
  shows "select_loop table i d [1..<16] (0, 0)
    = Some (if d = 0 then (0, 0) else the (the (table_get table i (nat d - 1))))"
proof -
  have ent: "\<exists>p. table_get table i (j - 1) = Some (Some p)" if "j \<in> set [1..<16]" for j
  proof -
    have "1 \<le> j" "j \<le> 15" using that by auto
    then show ?thesis by (rule table_ok_get [OF assms(1,2)]) blast
  qed
  show ?thesis
  proof (cases "d = 0")
    case True
    then show ?thesis using select_loop_miss [OF ent, of "[1..<16]" d "(0, 0)"] by simp
  next
    case False
    let ?j = "nat d"
    have j: "?j \<in> set [1..<16]" using assms(3,4) False by auto
    obtain p where "table_get table i (?j - 1) = Some (Some p)" using ent [OF j] by blast
    then show ?thesis
      using select_loop_hit [OF ent _ j, of "fst p" "snd p"] assms(3) False by simp
  qed
qed

lemma madd_eq: "madd p x2 y2 = madd_formula p x2 y2"
proof -
  obtain x1 y1 z1 where p: "p = (x1, y1, z1)" by (cases p)
  show ?thesis
    unfolding p madd_def madd_formula_def Let_def prod.case prod.inject
    by (intro conjI eqm_modI eqm_intros)
qed

lemma comb_step_ok:
  assumes t: "table_ok table" "i < 64" and acc: "jac_range acc" "jac_curve acc"
  shows "\<exists>acc'. comb_step k table i acc = Some acc' \<and> jac_range acc' \<and> jac_curve acc'"
proof -
  obtain rx ry rz where a: "acc = (rx, ry, rz)" by (cases acc)
  let ?d = "comb_digit k i"
  have sel: "select_loop table i ?d [1..<16] (0, 0)
      = Some (if ?d = 0 then (0, 0) else the (the (table_get table i (nat ?d - 1))))"
    by (rule select_digit [OF t comb_digit_range])
  show ?thesis
  proof (cases "?d = 0")
    case True
    then show ?thesis using sel acc by (simp add: a comb_step_def Let_def)
  next
    case False
    have "1 \<le> nat ?d" "nat ?d \<le> 15" using comb_digit_range [of k i] False by auto
    then obtain x y where e: "table_get table i (nat ?d - 1) = Some (Some (x, y))"
        "0 \<le> x" "x < P" "0 \<le> y" "y < P" "on_curve (Some (x, y))"
      by (rule table_ok_get [OF t])
    have c: "jac_curve (x, y, 1)" using e(6) by (simp add: on_curve_iff jac_curve_iff)
    moreover have "jac_range (x, y, 1)" using e(2-5) by (simp add: jac_range_def P_def)
    ultimately show ?thesis
      using False sel e(1) madd_formula_curve [OF acc(2) c]
      by (simp add: a comb_step_def Let_def madd_eq)
  qed
qed

lemma comb_loop_ok:
  assumes "table_ok table" "\<forall>i \<in> set is. i < 64" "jac_range acc" "jac_curve acc"
  shows "\<exists>acc'. comb_loop k table is acc = Some acc' \<and> jac_range acc' \<and> jac_curve acc'"
  using assms(2-)
proof (induction "is" arbitrary: acc)
  case Nil
  then show ?case by simp
next
  case (Cons i "is")
  obtain acc1 where "comb_step k table i acc = Some acc1" "jac_range acc1" "jac_curve acc1"
    using comb_step_ok [OF assms(1)] Cons.prems by (metis list.set_intros(1))
  then show ?case using Cons by simp
qed



section \<open>No addition of equal or opposite points\<close>

lemma comb_digit_eq: "comb_digit k i = k div 2 ^ (4 * i) mod 16"
proof -
  have "comb_digit k i = drop_bit (4 * i) k mod 2 ^ 4"
    using take_bit_eq_mask [of 4 "drop_bit (4 * i) k"]
    by (simp add: comb_digit_def mask_eq_exp_minus_1 take_bit_eq_mod)
  then show ?thesis by (simp add: drop_bit_eq_div)
qed

lemma low_plus_digit: "k mod 2 ^ (4 * i) + comb_digit k i * 2 ^ (4 * i) = k mod 2 ^ (4 * (i + 1))"
proof -
  have "k mod (2 ^ (4 * i) * 2 ^ 4) = 2 ^ (4 * i) * (k div 2 ^ (4 * i) mod 2 ^ 4) + k mod 2 ^ (4 * i)"
    by (rule zmod_zmult2_eq) simp
  then show ?thesis by (simp add: comb_digit_eq power_add algebra_simps)
qed

lemma smallest_block_eq: "smallest_block = 63"
proof -
  have "filter (\<lambda>i. push_bit (W * (i + 1)) 1 > N) [0..<BLOCKS] = [63]"
    by code_simp
  then show ?thesis by (simp add: smallest_block_def del: comb_consts)
qed

lemma mod_N_zero: "0 < x \<Longrightarrow> x < 2 * N \<Longrightarrow> x mod N = 0 \<Longrightarrow> x = N"
proof -
  assume x: "0 < x" "x < 2 * N" "x mod N = 0"
  then obtain q where q: "x = N * q" by (auto elim: dvdE simp: mod_eq_0_iff_dvd)
  have "0 < q" using x(1) q N_pos by (simp add: zero_less_mult_iff)
  moreover have "q < 2" using x(2) q N_pos by (simp add: mult.commute [of 2])
  ultimately show "x = N" using q by simp
qed



end
