(* ===== verification/Py_Text.thy ===== *)
theory Py_Text
  imports Sarm_Prelude "HOL-Library.Sublist"
begin

text \<open>
  The operations on Python \<open>str\<close> the scripts use, on strings of ASCII characters:
  \<open>strip\<close>, \<open>find\<close>, \<open>partition\<close>, \<open>split\<close>, \<open>splitlines\<close>, \<open>join\<close>, \<open>replace\<close>,
  \<open>startswith\<close>; and the dict operations \<open>setdefault\<close>, \<open>get\<close> and item assignment on
  association lists in insertion order.
\<close>

section \<open>Characters\<close>

definition py_space :: "char \<Rightarrow> bool" where
  "py_space c \<longleftrightarrow> c \<in> {CHR 0x09, CHR 0x0A, CHR 0x0B, CHR 0x0C, CHR 0x0D, CHR 0x1C, CHR 0x1D, CHR 0x1E, CHR 0x1F, CHR '' ''}"

definition py_digit :: "char \<Rightarrow> bool" where
  "py_digit c \<longleftrightarrow> c \<in> {CHR ''0'', CHR ''1'', CHR ''2'', CHR ''3'', CHR ''4'', CHR ''5'', CHR ''6'', CHR ''7'', CHR ''8'', CHR ''9''}"

definition char_between :: "char \<Rightarrow> char \<Rightarrow> char \<Rightarrow> bool" where
  "char_between a b c \<longleftrightarrow> of_char a \<le> (of_char c :: nat) \<and> (of_char c :: nat) \<le> of_char b"

definition py_word :: "char \<Rightarrow> bool" where
  "py_word c \<longleftrightarrow> char_between CHR ''a'' CHR ''z'' c \<or> char_between CHR ''A'' CHR ''Z'' c
     \<or> py_digit c \<or> c = CHR ''_''"

text \<open>The line boundaries of \<open>str.splitlines\<close>.\<close>

definition line_break :: "char \<Rightarrow> bool" where
  "line_break c \<longleftrightarrow> c \<in> {CHR 0x0A, CHR 0x0B, CHR 0x0C, CHR 0x0D, CHR 0x1C, CHR 0x1D, CHR 0x1E}"

lemma line_break_space: "line_break c \<Longrightarrow> py_space c"
  by (auto simp: line_break_def py_space_def)

section \<open>Strings\<close>

definition lstrip_of :: "(char \<Rightarrow> bool) \<Rightarrow> string \<Rightarrow> string" where
  "lstrip_of p s = dropWhile p s"

definition rstrip_of :: "(char \<Rightarrow> bool) \<Rightarrow> string \<Rightarrow> string" where
  "rstrip_of p s = rev (dropWhile p (rev s))"

definition strip :: "string \<Rightarrow> string" where
  "strip s = rstrip_of py_space (lstrip_of py_space s)"

definition startswith :: "string \<Rightarrow> string \<Rightarrow> bool" where
  "startswith s p = prefix p s"

text \<open>\<open>s.find(m)\<close>: the index of the first occurrence, \<open>None\<close> for -1.\<close>

fun find_sub :: "string \<Rightarrow> string \<Rightarrow> nat option" where
  "find_sub m [] = (if m = [] then Some 0 else None)"
| "find_sub m (c # cs) = (if prefix m (c # cs) then Some 0 else map_option Suc (find_sub m cs))"

text \<open>\<open>s.partition(sep)\<close> for a one-character separator: head, whether it was found, tail.\<close>

definition partition_chr :: "char \<Rightarrow> string \<Rightarrow> string \<times> bool \<times> string" where
  "partition_chr sep s =
     (let h = takeWhile (\<lambda>c. c \<noteq> sep) s; r = dropWhile (\<lambda>c. c \<noteq> sep) s
      in (h, r \<noteq> [], drop 1 r))"

text \<open>\<open>s.split(sep)\<close> for a one-character separator.\<close>

fun split_chr :: "char \<Rightarrow> string \<Rightarrow> string list" where
  "split_chr sep [] = [[]]"
| "split_chr sep (c # cs) =
     (if c = sep then [] # split_chr sep cs
      else case split_chr sep cs of [] \<Rightarrow> [[c]] | w # ws \<Rightarrow> (c # w) # ws)"

text \<open>\<open>s.split(None, 1)\<close>: the first word and the rest, whitespace between them dropped.\<close>

definition split_first :: "string \<Rightarrow> string list" where
  "split_first s =
     (let s = lstrip_of py_space s;
          h = takeWhile (\<lambda>c. \<not> py_space c) s;
          r = lstrip_of py_space (dropWhile (\<lambda>c. \<not> py_space c) s)
      in if s = [] then [] else if r = [] then [h] else [h, r])"

text \<open>\<open>s.split()\<close>.\<close>

function split_ws :: "string \<Rightarrow> string list" where
  "split_ws s =
     (let s = dropWhile py_space s
      in if s = [] then []
         else takeWhile (\<lambda>c. \<not> py_space c) s # split_ws (dropWhile (\<lambda>c. \<not> py_space c) s))"
  by pat_completeness auto
termination
proof (relation "measure length", goal_cases)
  case 1
  then show ?case by simp
next
  case (2 s t)
  then obtain c cs where t: "dropWhile py_space s = c # cs" by (cases "dropWhile py_space s") auto
  then have "\<not> py_space c" by (metis hd_dropWhile list.distinct(1) list.sel(1))
  then have "length (dropWhile (\<lambda>c. \<not> py_space c) (c # cs)) < length (c # cs)"
    using length_dropWhile_le [of "\<lambda>c. \<not> py_space c" cs] by (simp add: le_imp_less_Suc)
  moreover have "length (c # cs) \<le> length s" using length_dropWhile_le [of py_space s] t by simp
  ultimately show ?case using 2 t by simp
qed

declare split_ws.simps [simp del]

text \<open>
  \<open>s.splitlines()\<close>: a trailing line boundary does not open a last empty line, and
  \<open>\r\n\<close> is one boundary.
\<close>

fun split_lines :: "string \<Rightarrow> string list" where
  "split_lines [] = []"
| "split_lines (c # cs) =
     (if c = CHR 0x0D \<and> prefix [CHR 0x0A] cs then [] # split_lines (tl cs)
      else if line_break c then [] # split_lines cs
      else case split_lines cs of [] \<Rightarrow> [[c]] | l # ls \<Rightarrow> (c # l) # ls)"

fun join :: "string \<Rightarrow> string list \<Rightarrow> string" where
  "join sep [] = []"
| "join sep [s] = s"
| "join sep (s # t # ss) = s @ sep @ join sep (t # ss)"

text \<open>\<open>s.replace(old, new)\<close> for a non-empty \<open>old\<close>.\<close>

function replace_sub :: "string \<Rightarrow> string \<Rightarrow> string \<Rightarrow> string" where
  "replace_sub old new s =
     (if s = [] \<or> old = [] then s
      else if prefix old s then new @ replace_sub old new (drop (length old) s)
      else hd s # replace_sub old new (tl s))"
  by pat_completeness auto
termination
  by (relation "measure (\<lambda>(old, new, s). length s)") (auto simp: neq_Nil_conv)

declare replace_sub.simps [simp del]

text \<open>\<open>m in s\<close> and \<open>s.endswith(p)\<close>.\<close>

definition has_sub :: "string \<Rightarrow> string \<Rightarrow> bool" where
  "has_sub m s \<longleftrightarrow> find_sub m s \<noteq> None"

definition endswith :: "string \<Rightarrow> string \<Rightarrow> bool" where
  "endswith s p = suffix p s"

text \<open>\<open>s.lower()\<close>.\<close>

definition lower_chr :: "char \<Rightarrow> char" where
  "lower_chr c = (if char_between CHR ''A'' CHR ''Z'' c then char_of (of_char c + 32 :: nat) else c)"

definition lower :: "string \<Rightarrow> string" where
  "lower s = map lower_chr s"

text \<open>Decimal notation: \<open>str(n)\<close>, \<open>f"{n:+d}"\<close> and \<open>int(s)\<close>, the latter on an optional sign and digits.\<close>

fun digits_of :: "nat \<Rightarrow> string" where
  "digits_of n = (if n < 10 then [char_of (48 + n)] else digits_of (n div 10) @ [char_of (48 + n mod 10)])"

declare digits_of.simps [simp del]

definition str_nat :: "nat \<Rightarrow> string" where
  "str_nat n = digits_of n"

definition str_int :: "int \<Rightarrow> string" where
  "str_int i = (if i < 0 then ''-'' @ digits_of (nat (- i)) else digits_of (nat i))"

definition str_signed :: "int \<Rightarrow> string" where
  "str_signed i = (if i < 0 then str_int i else ''+'' @ str_int i)"

definition val_digits :: "string \<Rightarrow> int" where
  "val_digits s = fold (\<lambda>c v. 10 * v + (int (of_char c) - 48)) s 0"

definition py_int :: "string \<Rightarrow> int" where
  "py_int s = (if startswith s ''-'' then - val_digits (tl s)
     else if startswith s ''+'' then val_digits (tl s) else val_digits s)"

section \<open>Dicts in insertion order\<close>

type_synonym ('k, 'v) dict = "('k \<times> 'v) list"

fun dict_put :: "'k \<Rightarrow> 'v \<Rightarrow> ('k, 'v) dict \<Rightarrow> ('k, 'v) dict" where
  "dict_put k v [] = [(k, v)]"
| "dict_put k v ((k', v') # d) = (if k = k' then (k, v) # d else (k', v') # dict_put k v d)"

definition dict_setdefault :: "'k \<Rightarrow> 'v \<Rightarrow> ('k, 'v) dict \<Rightarrow> ('k, 'v) dict" where
  "dict_setdefault k v d = (case map_of d k of Some _ \<Rightarrow> d | None \<Rightarrow> d @ [(k, v)])"

text \<open>\<open>d.setdefault(k, []).append(v)\<close>.\<close>

definition dict_append :: "'k \<Rightarrow> 'v \<Rightarrow> ('k, 'v list) dict \<Rightarrow> ('k, 'v list) dict" where
  "dict_append k v d = (case map_of d k of Some vs \<Rightarrow> dict_put k (vs @ [v]) d | None \<Rightarrow> d @ [(k, [v])])"

definition dict_getd :: "('k, 'v) dict \<Rightarrow> 'k \<Rightarrow> 'v \<Rightarrow> 'v" where
  "dict_getd d k v = (case map_of d k of Some x \<Rightarrow> x | None \<Rightarrow> v)"

lemma map_of_dict_put [simp]: "map_of (dict_put k v d) = (map_of d)(k \<mapsto> v)"
  by (induction k v d rule: dict_put.induct) (auto simp: fun_eq_iff)

lemma map_of_dict_setdefault:
  "map_of (dict_setdefault k v d) = (if k \<in> dom (map_of d) then map_of d else (map_of d)(k \<mapsto> v))"
  by (auto simp: dict_setdefault_def map_add_def fun_eq_iff split: option.splits)

lemma map_of_dict_append:
  "map_of (dict_append k v d) = (map_of d)(k \<mapsto> dict_getd d k [] @ [v])"
  by (auto simp: dict_append_def dict_getd_def map_add_def fun_eq_iff split: option.splits)

section \<open>Facts about strings\<close>

lemma set_dropWhile_subset: "set (dropWhile p s) \<subseteq> set s"
  by (induction s) auto

lemma set_strip_subset: "set (strip s) \<subseteq> set s"
  using set_dropWhile_subset [of py_space s] set_dropWhile_subset [of py_space "rev (dropWhile py_space s)"]
  by (auto simp: strip_def rstrip_of_def lstrip_of_def)

lemma length_strip_le: "length (strip s) \<le> length s"
  using length_dropWhile_le [of py_space "rev (dropWhile py_space s)"] length_dropWhile_le [of py_space s]
  by (simp add: strip_def rstrip_of_def lstrip_of_def)

lemma strip_ends:
  assumes "strip s \<noteq> []"
  shows "\<not> py_space (hd (strip s))" and "\<not> py_space (last (strip s))"
proof -
  let ?l = "dropWhile py_space s"
  let ?r = "dropWhile py_space (rev ?l)"
  have r: "?r \<noteq> []" "strip s = rev ?r"
    using assms by (auto simp: strip_def rstrip_of_def lstrip_of_def)
  have "\<not> py_space (hd ?r)" using r(1) by (rule hd_dropWhile)
  then show "\<not> py_space (last (strip s))" using r by (simp add: last_rev)
  have "suffix ?r (rev ?l)" by (rule suffix_dropWhile)
  then have "prefix (strip s) ?l" unfolding r(2) by (simp add: suffix_to_prefix)
  then obtain zs where zs: "?l = strip s @ zs" by (auto simp: prefix_def)
  then have "?l \<noteq> []" "hd (strip s) = hd ?l" using assms by (cases ?l, auto)
  then show "\<not> py_space (hd (strip s))" using hd_dropWhile [of py_space s] by metis
qed

lemma strip_id:
  assumes "s = [] \<or> (\<not> py_space (hd s) \<and> \<not> py_space (last s))"
  shows "strip s = s"
proof (cases "s = []")
  case True
  then show ?thesis by (simp add: strip_def rstrip_of_def lstrip_of_def)
next
  case False
  then have "dropWhile py_space s = s" "dropWhile py_space (rev s) = rev s"
    using assms by (auto simp: dropWhile_eq_self_iff hd_rev)
  then show ?thesis by (simp add: strip_def rstrip_of_def lstrip_of_def)
qed

lemma strip_strip [simp]: "strip (strip s) = strip s"
  using strip_ends strip_id by blast

lemma find_sub_None: "find_sub m s = None \<longleftrightarrow> \<not> sublist m s"
proof (induction m s rule: find_sub.induct)
  case (1 m)
  then show ?case by simp
next
  case (2 m c cs)
  then show ?case by (auto simp: sublist_Cons_right)
qed

lemma find_sub_Some: "find_sub m s = Some i \<Longrightarrow> i \<le> length s \<and> prefix m (drop i s)"
proof (induction m s arbitrary: i rule: find_sub.induct)
  case (1 m)
  then show ?case by (auto split: if_splits)
next
  case (2 m c cs)
  then show ?case by (auto split: if_splits)
qed

lemma find_sub_least: "find_sub m s = Some i \<Longrightarrow> j < i \<Longrightarrow> \<not> prefix m (drop j s)"
proof (induction m s arbitrary: i j rule: find_sub.induct)
  case (1 m)
  then show ?case by (auto split: if_splits)
next
  case (2 m c cs)
  then show ?case by (cases j) (auto split: if_splits)
qed

lemma split_lines_no_break: "l \<in> set (split_lines s) \<Longrightarrow> c \<in> set l \<Longrightarrow> \<not> line_break c"
proof (induction s arbitrary: l rule: split_lines.induct)
  case 1
  then show ?case by simp
next
  case (2 d cs)
  show ?case
  proof (cases "split_lines cs")
    case Nil
    then show ?thesis using 2 by (auto split: if_splits)
  next
    case (Cons x xs)
    then show ?thesis using 2 by (auto split: if_splits) blast+
  qed
qed

lemma split_lines_one:
  assumes "l \<noteq> []" and "\<forall>c \<in> set l. \<not> line_break c"
  shows "split_lines l = [l]"
  using assms
proof (induction l)
  case Nil
  then show ?case by simp
next
  case (Cons c l)
  then have "c \<noteq> CHR 0x0D" by (auto simp: line_break_def)
  then show ?case using Cons by (cases "l = []") auto
qed

lemma split_lines_line:
  assumes "\<forall>c \<in> set l. \<not> line_break c"
  shows "split_lines (l @ [CHR 0x0A] @ s) = l # split_lines s"
  using assms
proof (induction l)
  case Nil
  then show ?case by (simp add: line_break_def)
next
  case (Cons c l)
  then have "c \<noteq> CHR 0x0D" by (auto simp: line_break_def)
  then show ?case using Cons by auto
qed

lemma split_lines_join:
  assumes "\<forall>l \<in> set ls. \<forall>c \<in> set l. \<not> line_break c" and "ls \<noteq> [] \<longrightarrow> last ls \<noteq> []"
  shows "split_lines (join [CHR 0x0A] ls) = ls"
  using assms
proof (induction ls)
  case Nil
  then show ?case by simp
next
  case (Cons l ls)
  then show ?case using split_lines_one split_lines_line [of l] by (cases ls) auto
qed

lemma split_lines_join_nl:
  assumes "\<forall>l \<in> set ls. \<forall>c \<in> set l. \<not> line_break c" and "ls \<noteq> []"
  shows "split_lines (join [CHR 0x0A] ls @ [CHR 0x0A]) = ls"
  using assms
proof (induction ls)
  case Nil
  then show ?case by simp
next
  case (Cons l ls)
  then show ?case
    using split_lines_line [of l "[]"] split_lines_line [of l "join [CHR 0x0A] ls @ [CHR 0x0A]"]
    by (cases ls) auto
qed

end
