(* ===== verification/Py_Regex.thy ===== *)
theory Py_Regex
  imports Py_Text
begin

text \<open>
  The subset of Python's \<open>re\<close> the scripts use, as a backtracking matcher: \<open>rx_match\<close>
  returns every way to match, in the order the backtracking engine tries them (greedy
  repetition, alternatives from left to right), so that the first element is the match
  Python returns. A position is the consumed text, reversed, and the text that is left;
  captured groups are an association list, the latest first.
\<close>

type_synonym rx_pos = "string \<times> string"
type_synonym rx_caps = "(nat \<times> string) list"
type_synonym rx_state = "rx_pos \<times> rx_caps"

datatype rx =
    Eps
  | Cls "char \<Rightarrow> bool"
  | Seq rx rx
  | Alt rx rx
  | Star rx
  | Opt rx
  | Grp nat rx
  | Bos
  | Eos
  | WordB

definition at_word_boundary :: "rx_pos \<Rightarrow> bool" where
  "at_word_boundary = (\<lambda>(c, r).
     (c \<noteq> [] \<and> py_word (hd c)) \<noteq> (r \<noteq> [] \<and> py_word (hd r)))"

text \<open>Greedy repetition; an iteration that consumes nothing is not repeated.\<close>

fun star_iter :: "(rx_state \<Rightarrow> rx_state list) \<Rightarrow> nat \<Rightarrow> rx_state \<Rightarrow> rx_state list" where
  "star_iter f 0 st = [st]"
| "star_iter f (Suc n) st =
     concat (map (star_iter f n) (filter (\<lambda>st'. length (snd (fst st')) < length (snd (fst st))) (f st)))
     @ [st]"

primrec rx_match :: "rx \<Rightarrow> rx_state \<Rightarrow> rx_state list" where
  "rx_match Eps st = [st]"
| "rx_match (Cls p) st = (case st of ((c, r), g) \<Rightarrow>
     (case r of [] \<Rightarrow> [] | x # xs \<Rightarrow> if p x then [((x # c, xs), g)] else []))"
| "rx_match (Seq a b) st = concat (map (rx_match b) (rx_match a st))"
| "rx_match (Alt a b) st = rx_match a st @ rx_match b st"
| "rx_match (Star a) st = star_iter (rx_match a) (length (snd (fst st))) st"
| "rx_match (Opt a) st = rx_match a st @ [st]"
| "rx_match (Grp n a) st =
     map (\<lambda>((c', r'), g'). ((c', r'), (n, take (length (snd (fst st)) - length r') (snd (fst st))) # g'))
       (rx_match a st)"
| "rx_match Bos st = (if fst (fst st) = [] then [st] else [])"
| "rx_match Eos st = (if snd (fst st) = [] \<or> snd (fst st) = [CHR 0x0A] then [st] else [])"
| "rx_match WordB st = (if at_word_boundary (fst st) then [st] else [])"

section \<open>Building expressions\<close>

definition chr :: "char \<Rightarrow> rx" where
  "chr c = Cls (\<lambda>x. x = c)"

definition one_of :: "string \<Rightarrow> rx" where
  "one_of s = Cls (\<lambda>x. x \<in> set s)"

fun lit :: "string \<Rightarrow> rx" where
  "lit [] = Eps"
| "lit [c] = chr c"
| "lit (c # cs) = Seq (chr c) (lit cs)"

text \<open>A literal under \<open>re.I\<close>.\<close>

fun ilit :: "string \<Rightarrow> rx" where
  "ilit [] = Eps"
| "ilit (c # cs) = Seq (Cls (\<lambda>x. lower_chr x = lower_chr c)) (ilit cs)"

fun seqs :: "rx list \<Rightarrow> rx" where
  "seqs [] = Eps"
| "seqs [r] = r"
| "seqs (r # rs) = Seq r (seqs rs)"

fun alts :: "rx list \<Rightarrow> rx" where
  "alts [] = Cls (\<lambda>_. False)"
| "alts [r] = r"
| "alts (r # rs) = Alt r (alts rs)"

definition rep1 :: "rx \<Rightarrow> rx" where
  "rep1 r = Seq r (Star r)"

definition any_chr :: rx where
  "any_chr = Cls (\<lambda>x. x \<noteq> CHR 0x0A)"

definition ws :: rx where "ws = Cls py_space"
definition wordc :: rx where "wordc = Cls py_word"
definition digit :: rx where "digit = Cls py_digit"

section \<open>Entry points\<close>

text \<open>\<open>re.match\<close>: the captures and the number of characters matched.\<close>

definition re_match_at :: "rx \<Rightarrow> rx_pos \<Rightarrow> (rx_caps \<times> rx_pos) option" where
  "re_match_at r p = (case rx_match r (p, []) of [] \<Rightarrow> None | (p', g) # _ \<Rightarrow> Some (g, p'))"

definition re_match :: "rx \<Rightarrow> string \<Rightarrow> rx_caps option" where
  "re_match r s = map_option fst (re_match_at r ([], s))"

definition re_matches :: "rx \<Rightarrow> string \<Rightarrow> bool" where
  "re_matches r s \<longleftrightarrow> re_match r s \<noteq> None"

definition re_fullmatch :: "rx \<Rightarrow> string \<Rightarrow> bool" where
  "re_fullmatch r s \<longleftrightarrow> list_ex (\<lambda>((c, t), g). t = []) (rx_match r (([], s), []))"

text \<open>\<open>m.group(n)\<close>; a group that did not take part is \<open>None\<close>.\<close>

definition group :: "rx_caps \<Rightarrow> nat \<Rightarrow> string option" where
  "group g n = map_of g n"

definition group_str :: "rx_caps \<Rightarrow> nat \<Rightarrow> string" where
  "group_str g n = (case map_of g n of Some s \<Rightarrow> s | None \<Rightarrow> [])"

text \<open>\<open>re.search\<close>: the first position at which the expression matches.\<close>

fun re_search_from :: "rx \<Rightarrow> string \<Rightarrow> string \<Rightarrow> (rx_caps \<times> rx_pos) option" where
  "re_search_from r c [] = re_match_at r (c, [])"
| "re_search_from r c (x # xs) =
     (case re_match_at r (c, x # xs) of Some m \<Rightarrow> Some m | None \<Rightarrow> re_search_from r (x # c) xs)"

definition re_search :: "rx \<Rightarrow> string \<Rightarrow> rx_caps option" where
  "re_search r s = map_option fst (re_search_from r [] s)"

definition re_found :: "rx \<Rightarrow> string \<Rightarrow> bool" where
  "re_found r s \<longleftrightarrow> re_search r s \<noteq> None"

text \<open>
  \<open>re.finditer\<close> for an expression that does not match the empty string: the captures of
  the non-overlapping matches. The fuel is the length of the text, one character at least
  being consumed by every step.
\<close>

fun finditer_fuel :: "nat \<Rightarrow> rx \<Rightarrow> rx_pos \<Rightarrow> rx_caps list" where
  "finditer_fuel 0 r p = []"
| "finditer_fuel (Suc n) r p = (case p of (c, t) \<Rightarrow>
     (case re_search_from r c t of
        None \<Rightarrow> []
      | Some (g, p') \<Rightarrow> g # finditer_fuel n r p'))"

definition re_finditer :: "rx \<Rightarrow> string \<Rightarrow> rx_caps list" where
  "re_finditer r s = finditer_fuel (Suc (length s)) r ([], s)"

section \<open>What a match consumes\<close>

lemma rx_match_SeqE:
  assumes "st' \<in> set (rx_match (Seq a b) st)"
  obtains st1 where "st1 \<in> set (rx_match a st)" "st' \<in> set (rx_match b st1)"
  using assms by auto

lemma rx_match_GrpE:
  assumes "st' \<in> set (rx_match (Grp n a) st)"
  obtains st1 where "st1 \<in> set (rx_match a st)" "fst st' = fst st1"
    "snd st' = (n, take (length (snd (fst st)) - length (snd (fst st1))) (snd (fst st))) # snd st1"
  using assms by auto

lemma rx_match_testE:
  "st' \<in> set (rx_match Bos st) \<Longrightarrow> st' = st"
  "st' \<in> set (rx_match Eos st) \<Longrightarrow> st' = st"
  "st' \<in> set (rx_match WordB st) \<Longrightarrow> st' = st"
  by (auto split: if_splits)

lemma rx_match_chrE:
  assumes "st' \<in> set (rx_match (chr c) st)"
  shows "snd (fst st) = c # snd (fst st')"
  using assms by (auto simp: chr_def split: prod.splits list.splits if_splits)

definition pos_ext :: "rx_pos \<Rightarrow> rx_pos \<Rightarrow> bool" where
  "pos_ext p p' \<longleftrightarrow> (\<exists>w. snd p = w @ snd p' \<and> fst p' = rev w @ fst p)"

lemma pos_ext_refl [simp]: "pos_ext p p"
  by (auto simp: pos_ext_def)

lemma pos_ext_trans: "pos_ext p q \<Longrightarrow> pos_ext q r \<Longrightarrow> pos_ext p r"
  by (fastforce simp: pos_ext_def)

lemma star_iter_cases:
  assumes "st' \<in> set (star_iter f (Suc n) st)"
  obtains "st' = st" | st1 where "st1 \<in> set (f st)" "st' \<in> set (star_iter f n st1)"
  using assms by auto

lemma star_iter_ext:
  assumes "\<And>st st'. st' \<in> set (f st) \<Longrightarrow> pos_ext (fst st) (fst st')"
  shows "st' \<in> set (star_iter f n st) \<Longrightarrow> pos_ext (fst st) (fst st')"
proof (induction n arbitrary: st)
  case 0
  then show ?case by simp
next
  case (Suc n)
  from Suc.prems show ?case
  proof (cases rule: star_iter_cases)
    case 1
    then show ?thesis by simp
  next
    case (2 st1)
    then show ?thesis using assms [OF 2(1)] Suc.IH [OF 2(2)] pos_ext_trans by blast
  qed
qed

lemma rx_match_ext: "st' \<in> set (rx_match r st) \<Longrightarrow> pos_ext (fst st) (fst st')"
proof (induction r arbitrary: st st')
  case (Cls p)
  then show ?case by (auto simp: pos_ext_def split: prod.splits list.splits if_splits)
next
  case (Seq a b)
  from Seq.prems(1) obtain st1 where "st1 \<in> set (rx_match a st)" "st' \<in> set (rx_match b st1)"
    by (rule rx_match_SeqE)
  then show ?case using Seq.IH pos_ext_trans by blast
next
  case (Star a)
  then show ?case using star_iter_ext [of "rx_match a"] by simp
next
  case (Grp n a)
  then obtain st1 where "st1 \<in> set (rx_match a st)" "fst st' = fst st1" by auto
  then show ?case using Grp.IH by simp
next
  case (Alt a b)
  then have "st' \<in> set (rx_match a st) \<or> st' \<in> set (rx_match b st)" by simp
  then show ?case using Alt.IH by blast
next
  case (Opt a)
  then have "st' = st \<or> st' \<in> set (rx_match a st)" by simp
  then show ?case using Opt.IH pos_ext_refl by metis
qed (auto split: if_splits)

lemma pos_ext_suffix: "pos_ext p p' \<Longrightarrow> suffix (snd p') (snd p)"
  by (auto simp: pos_ext_def suffix_def)

lemma rx_match_suffix: "st' \<in> set (rx_match r st) \<Longrightarrow> suffix (snd (fst st')) (snd (fst st))"
  by (rule pos_ext_suffix [OF rx_match_ext])

text \<open>The text a group captures is part of the text that was to be matched.\<close>

definition caps_in :: "string \<Rightarrow> rx_state \<Rightarrow> bool" where
  "caps_in s st \<longleftrightarrow> (\<forall>kw \<in> set (snd st). sublist (snd kw) s) \<and> sublist (snd (fst st)) s"

lemma caps_in_suffix:
  "caps_in s st \<Longrightarrow> suffix (snd p') (snd (fst st)) \<Longrightarrow> snd st' = snd st \<Longrightarrow> fst st' = p' \<Longrightarrow> caps_in s st'"
  unfolding caps_in_def by (metis sublist_order.order_trans suffix_imp_sublist)

lemma star_iter_caps:
  assumes "\<And>st st'. st' \<in> set (f st) \<Longrightarrow> caps_in s st \<Longrightarrow> caps_in s st'"
  shows "st' \<in> set (star_iter f n st) \<Longrightarrow> caps_in s st \<Longrightarrow> caps_in s st'"
proof (induction n arbitrary: st)
  case 0
  then show ?case by simp
next
  case (Suc n)
  from Suc.prems(1) show ?case
  proof (cases rule: star_iter_cases)
    case 1
    then show ?thesis using Suc.prems(2) by simp
  next
    case (2 st1)
    then show ?thesis using assms [OF 2(1) Suc.prems(2)] Suc.IH [OF 2(2)] by blast
  qed
qed

lemma rx_match_caps: "st' \<in> set (rx_match r st) \<Longrightarrow> caps_in s st \<Longrightarrow> caps_in s st'"
proof (induction r arbitrary: st st')
  case (Cls p)
  have "suffix (snd (fst st')) (snd (fst st))" by (rule rx_match_suffix [OF Cls(1)])
  moreover have "snd st' = snd st" using Cls(1) by (auto split: prod.splits list.splits if_splits)
  ultimately show ?case using Cls(2) caps_in_suffix by blast
next
  case (Seq a b)
  from Seq.prems(1) obtain st1 where "st1 \<in> set (rx_match a st)" "st' \<in> set (rx_match b st1)"
    by (rule rx_match_SeqE)
  then show ?case using Seq.IH Seq.prems(2) by blast
next
  case (Star a)
  then show ?case using star_iter_caps [of "rx_match a" s] by simp
next
  case (Grp n a)
  then obtain st1 where st1: "st1 \<in> set (rx_match a st)" "fst st' = fst st1"
    "snd st' = (n, take (length (snd (fst st)) - length (snd (fst st1))) (snd (fst st))) # snd st1"
    by auto
  have "sublist (take (length (snd (fst st)) - length (snd (fst st1))) (snd (fst st))) s"
    using Grp.prems(2) unfolding caps_in_def by (meson sublist_order.order_trans sublist_take)
  then show ?case using Grp.IH [OF st1(1) Grp.prems(2)] st1(2,3) by (simp add: caps_in_def)
next
  case (Alt a b)
  then have "st' \<in> set (rx_match a st) \<or> st' \<in> set (rx_match b st)" by simp
  then show ?case using Alt.IH Alt.prems(2) by blast
next
  case (Opt a)
  then have "st' = st \<or> st' \<in> set (rx_match a st)" by simp
  then show ?case using Opt.IH Opt.prems(2) by metis
qed (auto split: if_splits)

lemma group_sublist:
  assumes "re_match r s = Some g" "group g n = Some w"
  shows "sublist w s"
proof -
  obtain p where "(p, g) \<in> set (rx_match r (([], s), []))"
    using assms(1) by (auto simp: re_match_def re_match_at_def split: list.splits prod.splits)
  moreover have "caps_in s (([], s), [])" by (simp add: caps_in_def)
  ultimately have "caps_in s (p, g)" by (rule rx_match_caps)
  then show ?thesis using assms(2) by (force simp: group_def caps_in_def dest!: map_of_SomeD)
qed

end
