(* ===== verification/Asm_Parse.thy ===== *)
theory Asm_Parse
  imports Py_Regex
begin

text \<open>
  The assembly parser of \<open>scripts/asmparse.py\<close>: comments, labels, directives,
  instructions and operands (\<open>strip_comment\<close>, \<open>is_label\<close>, \<open>parse_instructions\<close>,
  \<open>split_operands\<close>) and the resolution of branch targets (\<open>resolve_target\<close>).
\<close>

section \<open>Line classes\<close>

definition labelc :: rx where
  "labelc = Cls (\<lambda>c. py_word c \<or> c = CHR ''.'' \<or> c = CHR ''$'')"

definition LABEL_RE :: rx where
  "LABEL_RE = seqs [Bos, Grp 1 (Seq (Opt (chr CHR ''.'')) (rep1 labelc)), chr CHR '':'', Star ws,
     Grp 2 (Star any_chr), Eos]"

definition lits :: "string list \<Rightarrow> rx" where
  "lits ss = alts (map lit ss)"

text \<open>\<open>globa?l\<close>\<close>

definition global_rx :: rx where
  "global_rx = seqs [lit ''glob'', Opt (chr CHR ''a''), chr CHR ''l'']"

definition DIRECTIVE_RE :: rx where
  "DIRECTIVE_RE = seqs [Bos, chr CHR ''.'', Grp 1 (alts [
     lits [''align'', ''p2align'', ''balign'', ''text'', ''data'', ''bss''], global_rx,
     lits [''equ'', ''set'', ''byte'', ''hword'', ''short'',
       ''word'', ''long'', ''quad'', ''octa'', ''single'', ''double'', ''float'', ''section'', ''subsection'',
       ''macro'', ''endm'', ''asciz'', ''ascii'', ''string'', ''space'', ''skip'', ''fill'', ''zero'', ''rept'',
       ''irp'', ''endr'', ''type'', ''size'', ''extern'', ''weak'', ''hidden'', ''protected'', ''comm'', ''lcomm''],
     Seq (lit ''cfi_'') (rep1 wordc),
     lits [''loc'', ''file'', ''ident'', ''pushsection'', ''popsection'', ''include''],
     Seq (lit ''if'') (Star wordc),
     lits [''else'', ''endif'', ''arch'', ''cpu'', ''abort'']]), WordB]"

definition DATA_DIRECTIVE_RE :: rx where
  "DATA_DIRECTIVE_RE = seqs [Bos, chr CHR ''.'', Grp 1 (lits [''byte'', ''hword'', ''short'', ''word'',
     ''long'', ''quad'', ''octa'', ''single'', ''double'', ''float'', ''asciz'', ''ascii'', ''string'',
     ''space'', ''skip'', ''fill'', ''zero'', ''comm'', ''lcomm'']), WordB]"

definition GLOBAL_RE :: rx where
  "GLOBAL_RE = seqs [Bos, chr CHR ''.'', global_rx, rep1 ws, Grp 1 (rep1 labelc)]"

definition SYMBOL_MACRO_RE :: rx where
  "SYMBOL_MACRO_RE = seqs [Bos, lits [''FUNC'', ''OBJECT''], rep1 ws, Grp 1 (rep1 labelc), Star ws, Eos]"

definition symbol_macro :: "string \<Rightarrow> string option" where
  "symbol_macro line = (case re_match SYMBOL_MACRO_RE line of None \<Rightarrow> None | Some g \<Rightarrow> group g 1)"

definition SYMBOL_DIRECTIVE_RE :: rx where
  "SYMBOL_DIRECTIVE_RE = seqs [Bos, lits [''FUNC'', ''ENDFUNC'', ''OBJECT'', ''ENDOBJ''], rep1 ws,
     rep1 labelc, Star ws, Eos]"

definition HEADER_DIRECTIVE_RE :: rx where
  "HEADER_DIRECTIVE_RE = seqs [Bos, chr CHR ''.'', Grp 1 (alts [
     lits [''align'', ''p2align'', ''balign''], global_rx,
     lits [''type'', ''size'', ''extern'', ''weak'', ''hidden'', ''protected'', ''text'', ''section''],
     Seq (lit ''cfi_'') (rep1 wordc)]), WordB]"

definition cut_at :: "string \<Rightarrow> string \<Rightarrow> string" where
  "cut_at marker line = (case find_sub marker line of Some idx \<Rightarrow> take idx line | None \<Rightarrow> line)"

definition strip_comment :: "string \<Rightarrow> string" where
  "strip_comment line = strip (cut_at ''/*'' (cut_at ''//'' line))"

definition is_label :: "string \<Rightarrow> (string \<times> string) option" where
  "is_label line =
     (if re_matches DIRECTIVE_RE line then None
      else case re_match LABEL_RE line of
        None \<Rightarrow> None
      | Some g \<Rightarrow> Some (group_str g 1, strip (group_str g 2)))"

section \<open>Instructions\<close>

record instruction =
  insn_line :: nat
  insn_text :: string
  mnemonic :: string
  operands :: "string list"

definition REG_RE :: rx where
  "REG_RE = seqs [WordB, Grp 1 (alts [Seq (chr CHR ''x'') (rep1 digit), Seq (chr CHR ''w'') (rep1 digit),
     Seq (chr CHR ''v'') (rep1 digit), Seq (chr CHR ''d'') (rep1 digit), Seq (chr CHR ''q'') (rep1 digit),
     Seq (chr CHR ''s'') (rep1 digit), Seq (chr CHR ''b'') (rep1 digit), Seq (chr CHR ''h'') (rep1 digit),
     lit ''sp'', lit ''wsp'', lit ''xzr'', lit ''wzr'']), WordB]"

definition regs_of :: "string \<Rightarrow> string list" where
  "regs_of operand = map (\<lambda>g. group_str g 1) (re_finditer REG_RE operand)"

definition insn_regs :: "instruction \<Rightarrow> string list" where
  "insn_regs insn = concat (map regs_of (operands insn))"

type_synonym labels = "(string, nat list) dict"

lemma re_match_mem:
  "re_match r s = Some g \<Longrightarrow> \<exists>p. (p, g) \<in> set (rx_match r (([], s), []))"
  by (auto simp: re_match_def re_match_at_def split: list.splits prod.splits)

lemma label_rest_shorter:
  assumes "re_match LABEL_RE line = Some g"
  shows "length (group_str g 2) < length line"
proof -
  let ?st = "(([], line), []) :: rx_state"
  obtain p where "(p, g) \<in> set (rx_match LABEL_RE ?st)" using re_match_mem [OF assms] by blast
  then obtain st1 st2 st3 st4 where
    st1: "st1 \<in> set (rx_match (Grp 1 (Seq (Opt (chr CHR ''.'')) (rep1 labelc))) ?st)" and
    st2: "st2 \<in> set (rx_match (chr CHR '':'') st1)" and
    st3: "st3 \<in> set (rx_match (Star ws) st2)" and
    st4: "st4 \<in> set (rx_match (Grp 2 (Star any_chr)) st3)" and
    fin: "(p, g) \<in> set (rx_match Eos st4)"
    unfolding LABEL_RE_def seqs.simps by (elim rx_match_SeqE) (metis rx_match_testE(1))
  have g: "g = snd st4" using rx_match_testE(2) [OF fin] by auto
  from st4 obtain st5 :: rx_state where
    "snd st4 = (2, take (length (snd (fst st3)) - length (snd (fst st5))) (snd (fst st3))) # snd st5"
    by (rule rx_match_GrpE) blast
  then have "length (group_str g 2) \<le> length (snd (fst st3))"
    by (simp add: g group_str_def)
  also have "\<dots> \<le> length (snd (fst st2))"
    using rx_match_suffix [OF st3] by (rule suffix_length_le)
  also have "\<dots> < length (snd (fst st1))" using rx_match_chrE [OF st2] by simp
  also have "\<dots> \<le> length line" using rx_match_suffix [OF st1] by (auto dest: suffix_length_le)
  finally show ?thesis .
qed

lemma is_label_shorter: "is_label line = Some (name, rest) \<Longrightarrow> length rest < length line"
  using label_rest_shorter [of line] length_strip_le
  by (auto simp: is_label_def split: if_splits option.splits) (meson le_less_trans)

text \<open>
  The \<open>while True\<close> loop that takes the labels off the front of a line: their names and
  what is left.
\<close>

function peel_labels :: "string \<Rightarrow> string list \<times> string" where
  "peel_labels line = (case is_label line of
       None \<Rightarrow> ([], line)
     | Some (name, rest) \<Rightarrow>
         if rest = [] then ([name], [])
         else (case peel_labels rest of (names, line) \<Rightarrow> (name # names, line)))"
  by pat_completeness auto
termination
  by (relation "measure length") (auto dest: is_label_shorter)

declare peel_labels.simps [simp del]

definition operand_char :: "char \<Rightarrow> string list \<times> int \<times> string \<Rightarrow> string list \<times> int \<times> string" where
  "operand_char c = (\<lambda>(out, depth, current).
     let depth = (if c \<in> {CHR ''['', CHR ''{''} then depth + 1
                  else if c \<in> {CHR '']'', CHR ''}''} then depth - 1 else depth)
     in if c = CHR '','' \<and> depth \<le> 0 then (out @ [current], depth, [])
        else (out, depth, current @ [c]))"

definition split_operands :: "string \<Rightarrow> string list" where
  "split_operands text =
     (let (out, depth, current) = fold operand_char text ([], 0, []);
          out = (if current \<noteq> [] then out @ [current] else out)
      in filter (\<lambda>s. s \<noteq> []) (map strip out))"

definition parse_line :: "nat \<times> string \<Rightarrow> instruction list \<times> labels \<Rightarrow> instruction list \<times> labels" where
  "parse_line = (\<lambda>(lineno, raw) (insns, labels).
     let line = strip_comment raw in
     if line = [] then (insns, labels)
     else
       let (names, line) = peel_labels line;
           labels = fold (\<lambda>name. dict_append name (length insns)) names labels
       in if line = [] then (insns, labels)
          else if startswith line ''#'' \<or> startswith line ''.'' then (insns, labels)
          else if re_matches SYMBOL_DIRECTIVE_RE line then (insns, labels)
          else
            let parts = split_first line;
                ops = (if length parts > 1 then map strip (split_operands (parts ! 1)) else [])
            in (insns @ [\<lparr>insn_line = lineno, insn_text = raw, mnemonic = hd parts, operands = ops\<rparr>], labels))"

definition parse_instructions :: "string \<Rightarrow> instruction list \<times> labels" where
  "parse_instructions source = fold parse_line (List.enumerate 1 (split_lines source)) ([], [])"

section \<open>Branch targets\<close>

definition resolve_target :: "string \<Rightarrow> labels \<Rightarrow> nat \<Rightarrow> nat option" where
  "resolve_target target labels current =
     (let target = strip target in
      if length target > 1 \<and> last target \<in> {CHR ''b'', CHR ''f''} \<and> list_all py_digit (butlast target)
      then
        let values = dict_getd labels (butlast target) [] in
        if last target = CHR ''b''
        then let earlier = filter (\<lambda>v. v \<le> current) values
             in if earlier \<noteq> [] then Some (Max (set earlier)) else None
        else let after = filter (\<lambda>v. v > current) values
             in if after \<noteq> [] then Some (Min (set after)) else None
      else
        let values = dict_getd labels target [] in
        if values = [] then None
        else if length values = 1 then Some (hd values)
        else let after = filter (\<lambda>v. v \<ge> current) values
             in if after \<noteq> [] then Some (Min (set after)) else Some (Max (set values)))"

section \<open>Comments\<close>

lemma cut_at_free: "m \<noteq> [] \<Longrightarrow> \<not> sublist m (cut_at m line)"
proof
  assume m: "m \<noteq> []" and sub: "sublist m (cut_at m line)"
  show False
  proof (cases "find_sub m line")
    case None
    then have "sublist m line" using sub by (simp add: cut_at_def)
    then show ?thesis using None find_sub_None by blast
  next
    case (Some i)
    then have "sublist m (take i line)" using sub by (simp add: cut_at_def)
    then obtain ps ss where e: "take i line = ps @ m @ ss" by (auto simp: sublist_def)
    have "length ps < length (take i line)" using e m by simp
    then have "length ps < i" by simp
    moreover have "prefix m (drop (length ps) line)"
    proof -
      have "line = ps @ m @ ss @ drop i line" using e by (metis append.assoc append_take_drop_id)
      then show ?thesis by (metis append_eq_conv_conj prefixI)
    qed
    ultimately show ?thesis using find_sub_least [OF Some] by blast
  qed
qed

lemma cut_at_prefix: "prefix (cut_at m line) line"
  by (auto simp: cut_at_def take_is_prefix split: option.splits)

lemma sublist_strip: "sublist (strip s) s"
proof -
  let ?l = "dropWhile py_space s"
  have "suffix (dropWhile py_space (rev ?l)) (rev ?l)" by (rule suffix_dropWhile)
  then have "prefix (strip s) ?l"
    by (simp add: strip_def rstrip_of_def lstrip_of_def suffix_to_prefix)
  moreover have "suffix ?l s" by (rule suffix_dropWhile)
  ultimately show ?thesis by (meson prefix_imp_sublist suffix_imp_sublist sublist_order.order_trans)
qed

text \<open>
  Stripping a line removes comments completely: what is left contains neither comment
  marker, is part of the line, and neither starts nor ends with white space.
\<close>

lemma strip_comment_clean:
  "\<not> sublist ''//'' (strip_comment line) \<and> \<not> sublist ''/*'' (strip_comment line)
    \<and> sublist (strip_comment line) line \<and> strip (strip_comment line) = strip_comment line"
proof -
  let ?a = "cut_at ''//'' line"
  let ?b = "cut_at ''/*'' ?a"
  have b: "sublist (strip_comment line) ?b" by (simp add: strip_comment_def sublist_strip)
  have ba: "sublist ?b ?a" by (rule prefix_imp_sublist [OF cut_at_prefix])
  have "\<not> sublist ''//'' ?a" "\<not> sublist ''/*'' ?b" by (simp_all add: cut_at_free)
  then have "\<not> sublist ''//'' (strip_comment line)" "\<not> sublist ''/*'' (strip_comment line)"
    using b ba sublist_order.order_trans by blast+
  moreover have "sublist (strip_comment line) line"
    using b ba prefix_imp_sublist [OF cut_at_prefix, of "''//''" line] sublist_order.order_trans by blast
  ultimately show ?thesis by (simp add: strip_comment_def)
qed

section \<open>Operands\<close>

text \<open>
  An operand as it is written: not empty, no outer white space, brackets balanced (never
  closed before they are opened), and commas only inside brackets.
\<close>

fun scan_depth :: "int \<Rightarrow> string \<Rightarrow> int option" where
  "scan_depth d [] = Some d"
| "scan_depth d (c # cs) =
     (if c \<in> {CHR ''['', CHR ''{''} then scan_depth (d + 1) cs
      else if c \<in> {CHR '']'', CHR ''}''} then (if d \<le> 0 then None else scan_depth (d - 1) cs)
      else if c = CHR '','' \<and> d \<le> 0 then None
      else scan_depth d cs)"

definition operand_ok :: "string \<Rightarrow> bool" where
  "operand_ok s \<longleftrightarrow> s \<noteq> [] \<and> \<not> py_space (hd s) \<and> \<not> py_space (last s) \<and> scan_depth 0 s = Some 0"

lemma scan_operand:
  "scan_depth d s = Some d' \<Longrightarrow> fold operand_char s (out, d, cur) = (out, d', cur @ s)"
proof (induction d s arbitrary: cur rule: scan_depth.induct)
  case (1 d)
  then show ?case by simp
next
  case (2 d c cs)
  then show ?case by (auto simp: operand_char_def Let_def split: if_splits)
qed

lemma operand_ok_fold:
  "operand_ok s \<Longrightarrow> fold operand_char s (out, 0, cur) = (out, 0, cur @ s)"
  by (rule scan_operand) (simp add: operand_ok_def)

lemma operand_ok_strip: "operand_ok s \<Longrightarrow> strip s = s" "operand_ok s \<Longrightarrow> strip (CHR '' '' # s) = s"
proof -
  assume "operand_ok s"
  then have s: "s \<noteq> []" "\<not> py_space (hd s)" "\<not> py_space (last s)" by (auto simp: operand_ok_def)
  then show "strip s = s" by (simp add: strip_id)
  have "strip (CHR '' '' # s) = strip s"
    by (simp add: strip_def lstrip_of_def py_space_def)
  then show "strip (CHR '' '' # s) = s" using \<open>strip s = s\<close> by simp
qed

lemma fold_operands:
  assumes "\<forall>s \<in> set ss. operand_ok s" and "operand_ok s"
  shows "fold operand_char (join '', '' (s # ss)) (out, 0, cur)
    = (out @ butlast ((cur @ s) # map (Cons CHR '' '') ss), 0, last ((cur @ s) # map (Cons CHR '' '') ss))"
  using assms
proof (induction ss arbitrary: s out cur)
  case Nil
  then show ?case by (simp add: operand_ok_fold)
next
  case (Cons t ss)
  have step: "fold operand_char '', '' (out, 0, cur @ s) = (out @ [cur @ s], 0, '' '')"
    by (simp add: operand_char_def)
  show ?case
    using Cons.IH [of t "out @ [cur @ s]" "'' ''"] Cons.prems operand_ok_fold [OF Cons.prems(2), of out cur] step
    by (simp add: fold_append del: fold_simps)
qed

text \<open>
  Splitting an operand list gives back the operands it was made of: joining operands
  with a comma and a space and splitting the result is the identity, whatever commas the
  operands have inside brackets.
\<close>

theorem split_operands_join:
  assumes "\<forall>s \<in> set ss. operand_ok s"
  shows "split_operands (join '', '' ss) = ss"
proof (cases ss)
  case Nil
  then show ?thesis by (simp add: split_operands_def)
next
  case (Cons s ts)
  let ?l = "s # map (Cons CHR '' '') ts"
  have ok: "operand_ok s" "\<forall>t \<in> set ts. operand_ok t" using assms Cons by auto
  have "last ?l \<noteq> []" using ok(1) by (cases ts rule: rev_cases) (auto simp: operand_ok_def)
  then have "split_operands (join '', '' ss) = filter (\<lambda>s. s \<noteq> []) (map strip (butlast ?l @ [last ?l]))"
    using fold_operands [OF ok(2,1), of "[]" "[]"] Cons by (simp add: split_operands_def)
  also have "butlast ?l @ [last ?l] = ?l" by (rule append_butlast_last_id) simp
  also have "map strip ?l = s # ts" using ok operand_ok_strip by (auto intro: map_idI)
  also have "filter (\<lambda>s. s \<noteq> []) (s # ts) = ss"
    using assms Cons by (auto simp: operand_ok_def intro: filter_True)
  finally show ?thesis .
qed

theorem split_operands_join_witness:
  "split_operands (join '', '' [''x0'', ''[x1, #16]!'', ''{v0.16b, v1.16b}''])
    = [''x0'', ''[x1, #16]!'', ''{v0.16b, v1.16b}'']"
  by (rule split_operands_join) (simp add: operand_ok_def py_space_def)

section \<open>Well-formed output of the parser\<close>

definition labels_wf :: "nat \<Rightarrow> labels \<Rightarrow> bool" where
  "labels_wf n labels \<longleftrightarrow> distinct (map fst labels)
     \<and> (\<forall>kv \<in> set labels. snd kv \<noteq> [] \<and> sorted (snd kv) \<and> (\<forall>v \<in> set (snd kv). v \<le> n))"

definition insn_wf :: "string list \<Rightarrow> instruction \<Rightarrow> bool" where
  "insn_wf lines i \<longleftrightarrow> 1 \<le> insn_line i \<and> insn_line i \<le> length lines
     \<and> insn_text i = lines ! (insn_line i - 1) \<and> mnemonic i \<noteq> []
     \<and> (\<forall>op \<in> set (operands i). op \<noteq> [] \<and> strip op = op)"

definition insns_wf :: "string list \<Rightarrow> instruction list \<Rightarrow> bool" where
  "insns_wf lines insns \<longleftrightarrow> sorted_wrt (<) (map insn_line insns) \<and> (\<forall>i \<in> set insns. insn_wf lines i)"

lemma dict_put_keys: "map fst (dict_put k v d) = (if k \<in> fst ` set d then map fst d else map fst d @ [k])"
  by (induction k v d rule: dict_put.induct) auto

lemma set_dict_put: "set (dict_put k v d) \<subseteq> insert (k, v) (set d)"
  by (induction k v d rule: dict_put.induct) auto

lemma labels_wf_append:
  assumes "labels_wf n labels"
  shows "labels_wf n (dict_append k n labels)"
proof (cases "map_of labels k")
  case None
  then have "k \<notin> fst ` set labels" "dict_append k n labels = labels @ [(k, [n])]"
    by (simp add: map_of_eq_None_iff, simp add: dict_append_def)
  then show ?thesis using assms by (auto simp: labels_wf_def)
next
  case (Some vs)
  then have mem: "(k, vs) \<in> set labels" by (rule map_of_SomeD)
  then have vs: "sorted vs" "\<forall>v \<in> set vs. v \<le> n" "k \<in> fst ` set labels"
    using assms by (auto simp: labels_wf_def image_iff intro: bexI [of _ "(k, vs)"])
  have "labels_wf n (dict_put k (vs @ [n]) labels)"
    unfolding labels_wf_def
  proof (intro conjI ballI)
    show "distinct (map fst (dict_put k (vs @ [n]) labels))"
      using assms vs(3) by (simp add: dict_put_keys labels_wf_def)
    fix kv assume "kv \<in> set (dict_put k (vs @ [n]) labels)"
    then have kv: "kv = (k, vs @ [n]) \<or> kv \<in> set labels" using set_dict_put by fastforce
    show "snd kv \<noteq> []" "sorted (snd kv)" using kv vs assms by (auto simp: labels_wf_def sorted_append)
    fix v assume "v \<in> set (snd kv)"
    then show "v \<le> n" using kv vs(2) assms by (auto simp: labels_wf_def)
  qed
  then show ?thesis using Some by (simp add: dict_append_def)
qed

lemma labels_wf_fold:
  "labels_wf n labels \<Longrightarrow> labels_wf n (fold (\<lambda>name. dict_append name n) names labels)"
  by (induction names arbitrary: labels) (auto simp: labels_wf_append)

lemma labels_wf_mono: "labels_wf n labels \<Longrightarrow> n \<le> m \<Longrightarrow> labels_wf m labels"
  by (fastforce simp: labels_wf_def)

lemma peel_labels_strip: "strip line = line \<Longrightarrow> peel_labels line = (names, rest) \<Longrightarrow> strip rest = rest"
proof (induction line arbitrary: names rest rule: peel_labels.induct)
  case (1 line)
  show ?case
  proof (cases "is_label line")
    case None
    then show ?thesis using 1(2,3) by (simp add: peel_labels.simps [of line])
  next
    case (Some nr)
    obtain name r where nr: "nr = (name, r)" by (cases nr)
    have r: "strip r = r" using Some nr by (auto simp: is_label_def split: if_splits option.splits)
    show ?thesis
    proof (cases "r = []")
      case True
      then show ?thesis
        using Some nr 1(3) by (auto simp: peel_labels.simps [of line] strip_def lstrip_of_def rstrip_of_def)
    next
      case False
      then show ?thesis
        using Some nr 1(3) 1(1) [OF Some [unfolded nr] refl False r]
        by (auto simp: peel_labels.simps [of line] split: prod.splits)
    qed
  qed
qed

lemma split_first_hd:
  assumes "strip line = line" "line \<noteq> []"
  shows "split_first line \<noteq> []" and "hd (split_first line) \<noteq> []"
proof -
  obtain c cs where line: "line = c # cs" using assms(2) by (cases line) auto
  then have "\<not> py_space c" using strip_ends(1) [of line] assms by simp
  then have e: "dropWhile py_space line = line" and t: "takeWhile (\<lambda>c. \<not> py_space c) line \<noteq> []"
    by (simp_all only: line dropWhile.simps takeWhile.simps if_False if_True not_False_eq_True list.distinct simp_thms)
  define h r where "h = takeWhile (\<lambda>c. \<not> py_space c) line"
    and "r = dropWhile py_space (dropWhile (\<lambda>c. \<not> py_space c) line)"
  have "split_first line = (if r = [] then [h] else [h, r])"
    unfolding split_first_def lstrip_of_def Let_def e h_def r_def using assms(2) by (simp only: if_False)
  then show "split_first line \<noteq> []" and "hd (split_first line) \<noteq> []"
    using t by (simp_all add: h_def [symmetric])
qed

lemma split_operands_ok: "op \<in> set (split_operands text) \<Longrightarrow> op \<noteq> [] \<and> strip op = op"
  by (auto simp: split_operands_def Let_def split: prod.splits)

lemma parse_line_wf:
  assumes "labels_wf (length insns) labels" and "insns_wf lines insns"
    and "\<forall>i \<in> set insns. insn_line i < n" and n: "1 \<le> n" "n \<le> length lines" "lines ! (n - 1) = raw"
    and res: "parse_line (n, raw) (insns, labels) = (insns', labels')"
  shows "labels_wf (length insns') labels'" and "insns_wf lines insns'"
    and "\<forall>i \<in> set insns'. insn_line i < Suc n"
proof -
  obtain names line where pl: "peel_labels (strip_comment raw) = (names, line)"
    by (cases "peel_labels (strip_comment raw)")
  have line: "strip line = line"
    by (rule peel_labels_strip [OF _ pl]) (simp add: strip_comment_def)
  let ?labels = "fold (\<lambda>name. dict_append name (length insns)) names labels"
  let ?i = "\<lparr>insn_line = n, insn_text = raw, mnemonic = hd (split_first line),
      operands = (if length (split_first line) > 1
        then map strip (split_operands (split_first line ! 1)) else [])\<rparr>"
  have lw: "labels_wf (length insns) ?labels" by (rule labels_wf_fold [OF assms(1)])
  consider "insns' = insns" "labels' = labels \<or> labels' = ?labels"
    | "line \<noteq> []" "insns' = insns @ [?i]" "labels' = ?labels"
    using res by (auto simp: parse_line_def Let_def pl split: if_splits)
  then have "labels_wf (length insns') labels' \<and> insns_wf lines insns'
    \<and> (\<forall>i \<in> set insns'. insn_line i < Suc n)"
  proof cases
    case 1
    then show ?thesis using lw assms(1-3) by fastforce
  next
    case 2
    have "\<forall>op \<in> set (operands ?i). op \<noteq> [] \<and> strip op = op"
      using split_operands_ok by (auto split: if_splits)
    moreover have "mnemonic ?i \<noteq> []" using split_first_hd(2) [OF line 2(1)] by simp
    moreover have "1 \<le> insn_line ?i" "insn_line ?i \<le> length lines"
        "insn_text ?i = lines ! (insn_line ?i - 1)" using n by simp_all
    ultimately have "insn_wf lines ?i" unfolding insn_wf_def by blast
    then show ?thesis
      using 2 assms(2,3) labels_wf_mono [OF lw, of "Suc (length insns)"]
      by (auto simp: insns_wf_def sorted_wrt_append less_SucI)
  qed
  then show "labels_wf (length insns') labels'" and "insns_wf lines insns'"
    and "\<forall>i \<in> set insns'. insn_line i < Suc n" by auto
qed

lemma parse_lines_wf:
  assumes "lines = pre @ ls" and "labels_wf (length insns) labels" and "insns_wf lines insns"
    and "\<forall>i \<in> set insns. insn_line i < Suc (length pre)"
    and "fold parse_line (List.enumerate (Suc (length pre)) ls) (insns, labels) = (insns', labels')"
  shows "labels_wf (length insns') labels' \<and> insns_wf lines insns'"
  using assms
proof (induction ls arbitrary: pre insns labels)
  case Nil
  then show ?case by simp
next
  case (Cons l ls)
  obtain i1 l1 where 1: "parse_line (Suc (length pre), l) (insns, labels) = (i1, l1)"
    by (cases "parse_line (Suc (length pre), l) (insns, labels)")
  have "labels_wf (length i1) l1" "insns_wf lines i1" "\<forall>i \<in> set i1. insn_line i < Suc (Suc (length pre))"
    using parse_line_wf [OF Cons.prems(2-4) _ _ _ 1] Cons.prems(1) by (auto simp: nth_append)
  then show ?case using Cons.IH [of "pre @ [l]" i1 l1] Cons.prems(1,5) 1 by simp
qed

text \<open>
  The parser's output is well formed for every source text: instructions come in strictly
  increasing line order, each with the source line it was read from, a mnemonic and
  stripped non-empty operands; label names are distinct, and the definitions of a label
  are a sorted non-empty list of instruction indices, the end of the program included.
\<close>

theorem parse_instructions_wf:
  "case parse_instructions source of (insns, labels) \<Rightarrow>
     insns_wf (split_lines source) insns \<and> labels_wf (length insns) labels"
proof -
  obtain insns labels where p: "parse_instructions source = (insns, labels)"
    by (cases "parse_instructions source")
  have "labels_wf 0 []" "insns_wf (split_lines source) []" by (simp_all add: labels_wf_def insns_wf_def)
  then show ?thesis
    using parse_lines_wf [of "split_lines source" "[]" "split_lines source" "[]" "[]" insns labels] p
    by (simp add: parse_instructions_def)
qed

section \<open>Resolution of branch targets\<close>

text \<open>
  A numeric local label resolves to the nearest definition: \<open>Nb\<close> to the greatest index at
  or before the branch, \<open>Nf\<close> to the least one after it, and to nothing exactly when there
  is none.
\<close>

theorem resolve_numeric:
  fixes labels :: labels and n :: string
  assumes "n \<noteq> []" and "list_all py_digit n"
  defines "vs \<equiv> dict_getd labels n []"
  shows "(resolve_target (n @ ''b'') labels cur = Some v
        \<longleftrightarrow> v \<in> set vs \<and> v \<le> cur \<and> (\<forall>w \<in> set vs. w \<le> cur \<longrightarrow> w \<le> v))
    \<and> (resolve_target (n @ ''f'') labels cur = Some v
        \<longleftrightarrow> v \<in> set vs \<and> cur < v \<and> (\<forall>w \<in> set vs. cur < w \<longrightarrow> v \<le> w))"
proof -
  have "\<not> py_space (hd n)"
    using assms(1,2) by (cases n) (auto simp: py_digit_def py_space_def)
  then have st: "strip (n @ ''b'') = n @ ''b''" "strip (n @ ''f'') = n @ ''f''"
    using assms(1) by (auto intro!: strip_id simp: py_space_def)
  have b: "resolve_target (n @ ''b'') labels cur =
      (let earlier = filter (\<lambda>v. v \<le> cur) vs in if earlier \<noteq> [] then Some (Max (set earlier)) else None)"
    using assms by (simp add: resolve_target_def st vs_def Let_def)
  have f: "resolve_target (n @ ''f'') labels cur =
      (let after = filter (\<lambda>v. v > cur) vs in if after \<noteq> [] then Some (Min (set after)) else None)"
    using assms by (simp add: resolve_target_def st vs_def Let_def)
  show ?thesis
    unfolding b f Let_def opt_Max opt_Min by auto
qed

theorem resolve_numeric_witness:
  "resolve_target ''9b'' [(''9'', [2, 5, 8])] 6 = Some 5 \<and> resolve_target ''9f'' [(''9'', [2, 5, 8])] 6 = Some 8"
  using resolve_numeric [of "''9''" "[(''9'', [2, 5, 8])]" 6 5] resolve_numeric [of "''9''" "[(''9'', [2, 5, 8])]" 6 8]
  by (simp add: dict_getd_def py_digit_def)

end
