(* ===== verification/Asm_Macros.thy ===== *)
theory Asm_Macros
  imports Asm_Parse
begin

text \<open>
  Macro definitions and their expansion (\<open>scripts/asmparse.py\<close>: \<open>Macro\<close>,
  \<open>parse_macros\<close>, \<open>expand_macros\<close>). The platform, which the script takes from the host
  when it is not given, is a parameter.
\<close>

section \<open>Definitions\<close>

record macro =
  mac_name :: string
  mac_params :: "(string \<times> string option) list"
  mac_body :: "string list"

type_synonym macros = "(string, macro) dict"

record macro_state =
  ms_macros :: macros
  ms_branch :: "bool list"
  ms_active :: bool
  ms_current :: "macro option"

definition parse_param :: "string \<Rightarrow> (string \<times> string option) option" where
  "parse_param part =
     (let part = strip part in
      if part = [] then None
      else let (pname, eq, dflt) = partition_chr CHR ''='' part
           in Some (strip pname, if eq then Some (strip dflt) else None))"

definition parse_decl :: "string \<Rightarrow> macro" where
  "parse_decl line =
     (let decl = strip (drop (length ''.macro'') (strip_comment line));
          (head, _, rest) = partition_chr CHR '' '' decl
      in \<lparr>mac_name = rstrip_of (\<lambda>c. c = CHR '','') head,
          mac_params = List.map_filter parse_param (split_chr CHR '','' rest),
          mac_body = []\<rparr>)"

definition set_branch :: "bool list \<Rightarrow> macro_state \<Rightarrow> macro_state" where
  "set_branch branch st = st\<lparr>ms_branch := branch, ms_active := list_all id branch\<rparr>"

text \<open>What a line does that is not a conditional.\<close>

definition macro_body_line :: "string \<Rightarrow> macro_state \<Rightarrow> macro_state" where
  "macro_body_line raw st =
     (let line = strip raw in
      case ms_current st of
        Some m \<Rightarrow>
          if startswith line ''.endm''
          then st\<lparr>ms_macros := (if ms_active st then dict_put (mac_name m) m (ms_macros st) else ms_macros st),
                  ms_current := None\<rparr>
          else st\<lparr>ms_current := Some (m\<lparr>mac_body := mac_body m @ [raw]\<rparr>)\<rparr>
      | None \<Rightarrow>
          if startswith line ''.macro'' then st\<lparr>ms_current := Some (parse_decl line)\<rparr> else st)"

definition macro_line :: "bool \<Rightarrow> string \<Rightarrow> macro_state \<Rightarrow> macro_state" where
  "macro_line linux raw st =
     (let line = strip raw in
      if startswith line ''#ifdef __linux__'' then set_branch (ms_branch st @ [linux]) st
      else if startswith line ''#ifndef __linux__'' then set_branch (ms_branch st @ [\<not> linux]) st
      else if startswith line ''#else'' \<and> ms_branch st \<noteq> []
        then set_branch (butlast (ms_branch st) @ [\<not> last (ms_branch st)]) st
      else if startswith line ''#endif'' \<and> ms_branch st \<noteq> [] then set_branch (butlast (ms_branch st)) st
      else macro_body_line raw st)"

definition macro_start :: macro_state where
  "macro_start = \<lparr>ms_macros = [], ms_branch = [], ms_active = True, ms_current = None\<rparr>"

definition macro_lines :: "bool \<Rightarrow> string list \<Rightarrow> macro_state \<Rightarrow> macro_state" where
  "macro_lines linux lines st = fold (macro_line linux) lines st"

definition parse_macros :: "bool \<Rightarrow> string \<Rightarrow> macros" where
  "parse_macros linux text = ms_macros (macro_lines linux (split_lines text) macro_start)"

section \<open>Expansion\<close>

fun bind_params :: "(string \<times> string option) list \<Rightarrow> string list \<Rightarrow> (string, string) dict \<Rightarrow> (string, string) dict" where
  "bind_params [] args b = b"
| "bind_params ((pname, dflt) # ps) args b =
     bind_params ps (tl args)
       (dict_put pname (if args \<noteq> [] then hd args else case dflt of Some d \<Rightarrow> d | None \<Rightarrow> []) b)"

text \<open>Longest parameter names first, stable among names of the same length.\<close>

definition substitute :: "(string, string) dict \<Rightarrow> string \<Rightarrow> string" where
  "substitute bindings line =
     fold (\<lambda>pname line. replace_sub (CHR 0x5C # pname) (dict_getd bindings pname []) line)
       (sort_key (\<lambda>p. - int (length p)) (map fst bindings)) line"

definition label_prefix :: "string list \<Rightarrow> string" where
  "label_prefix names = concat (map (\<lambda>n. n @ '':'' @ [CHR 0x0A]) names)"

text \<open>One line of a pass: what it is replaced with, and whether it was an invocation.\<close>

definition expand_line :: "macros \<Rightarrow> string \<Rightarrow> string list \<times> bool" where
  "expand_line macros raw =
     (let stripped = strip_comment raw in
      if stripped = [] then ([raw], False)
      else
        let (names, stripped) = peel_labels stripped;
            (head, _, argtext) = partition_chr CHR '' '' stripped
        in case map_of macros (rstrip_of (\<lambda>c. c = CHR '','') head) of
             None \<Rightarrow> ([raw], False)
           | Some macro \<Rightarrow>
               let bindings = bind_params (mac_params macro) (split_operands argtext) []
               in ((if names \<noteq> [] then [rstrip_of (\<lambda>c. c = CHR 0x0A) (label_prefix names)] else [])
                   @ map (substitute bindings) (mac_body macro), True))"

definition expand_pass :: "macros \<Rightarrow> string \<Rightarrow> string \<times> bool" where
  "expand_pass macros text =
     (let rs = map (expand_line macros) (split_lines text)
      in (join [CHR 0x0A] (concat (map fst rs)), list_ex snd rs))"

definition expand_macros :: "string \<Rightarrow> macros \<Rightarrow> nat \<Rightarrow> string" where
  "expand_macros text macros depth =
     (if macros = [] then text else bounded_loop depth (expand_pass macros) text)"

section \<open>Conditional definitions\<close>

text \<open>A line that is none of the conditionals the parser looks at.\<close>

definition plain_line :: "string \<Rightarrow> bool" where
  "plain_line raw \<longleftrightarrow> (\<forall>p \<in> {''#ifdef __linux__'', ''#ifndef __linux__'', ''#else'', ''#endif''}.
     \<not> startswith (strip raw) p)"

lemma plain_macro_line: "plain_line raw \<Longrightarrow> macro_line linux raw st = macro_body_line raw st"
  by (simp add: plain_line_def macro_line_def Let_def)

lemma plain_macro_lines:
  "\<forall>l \<in> set ls. plain_line l \<Longrightarrow> macro_lines linux ls st = fold macro_body_line ls st"
  by (induction ls arbitrary: st) (auto simp: macro_lines_def plain_macro_line)

lemma body_line_fields:
  "ms_branch (macro_body_line raw st) = ms_branch st"
  "ms_active (macro_body_line raw st) = ms_active st"
  "\<not> ms_active st \<Longrightarrow> ms_macros (macro_body_line raw st) = ms_macros st"
  "ms_current st = ms_current st' \<Longrightarrow> ms_current (macro_body_line raw st) = ms_current (macro_body_line raw st')"
  "macro_body_line raw (st\<lparr>ms_branch := b\<rparr>) = (macro_body_line raw st)\<lparr>ms_branch := b\<rparr>"
  by (simp_all add: macro_body_line_def Let_def split: option.splits)

lemma body_lines_fields:
  "ms_branch (fold macro_body_line ls st) = ms_branch st"
  "ms_active (fold macro_body_line ls st) = ms_active st"
  by (induction ls arbitrary: st) (simp_all add: body_line_fields)

lemma body_lines_inactive:
  "\<not> ms_active st \<Longrightarrow> ms_macros (fold macro_body_line ls st) = ms_macros st"
  by (induction ls arbitrary: st) (simp_all add: body_line_fields)

lemma body_lines_current:
  "ms_current st = ms_current st' \<Longrightarrow>
     ms_current (fold macro_body_line ls st) = ms_current (fold macro_body_line ls st')"
proof (induction ls arbitrary: st st')
  case (Cons l ls)
  show ?case
    unfolding fold_simps by (rule Cons.IH [OF body_line_fields(4) [OF Cons.prems]])
qed simp

lemma body_lines_branch:
  "fold macro_body_line ls (st\<lparr>ms_branch := b\<rparr>) = (fold macro_body_line ls st)\<lparr>ms_branch := b\<rparr>"
  by (induction ls arbitrary: st) (simp_all add: body_line_fields)

text \<open>Whole definitions in an inactive branch leave the state as it was.\<close>

lemma inactive_lines:
  assumes "\<not> ms_active st" "ms_current st = None" "ms_current (fold macro_body_line ls macro_start) = None"
  shows "fold macro_body_line ls st = st"
proof -
  have "ms_current (fold macro_body_line ls st) = None"
    using body_lines_current [of st macro_start ls] assms(2,3) by (simp add: macro_start_def)
  then show ?thesis
    using body_lines_inactive [OF assms(1), of ls] body_lines_fields [of ls st] assms(2)
    by (cases "fold macro_body_line ls st"; cases st) simp
qed

lemma conditional_steps:
  "macro_line linux ''#ifdef __linux__'' st = set_branch (ms_branch st @ [linux]) st"
  "ms_branch st \<noteq> [] \<Longrightarrow> macro_line linux ''#else'' st
     = set_branch (butlast (ms_branch st) @ [\<not> last (ms_branch st)]) st"
  "ms_branch st \<noteq> [] \<Longrightarrow> macro_line linux ''#endif'' st = set_branch (butlast (ms_branch st)) st"
  by (simp_all add: macro_line_def startswith_def strip_def lstrip_of_def rstrip_of_def
      py_space_def Let_def)

text \<open>
  Only the branch of the platform counts: a file that defines its macros twice, inside
  \<open>#ifdef __linux__\<close> / \<open>#else\<close> / \<open>#endif\<close>, gives exactly the macros of the branch that is
  active, for whole definitions without conditionals of their own.
\<close>

theorem parse_macros_platform:
  assumes "\<forall>l \<in> set a. plain_line l" and "\<forall>l \<in> set b. plain_line l"
    and "ms_current (macro_lines linux a macro_start) = None"
    and "ms_current (macro_lines linux b macro_start) = None"
  shows "ms_macros (macro_lines linux
      ([''#ifdef __linux__''] @ a @ [''#else''] @ b @ [''#endif'']) macro_start)
    = ms_macros (macro_lines linux (if linux then a else b) macro_start)"
proof -
  let ?f = "fold macro_body_line"
  note body = plain_macro_lines [OF assms(1), unfolded macro_lines_def]
    plain_macro_lines [OF assms(2), unfolded macro_lines_def]
  have cur: "ms_current (?f a macro_start) = None" "ms_current (?f b macro_start) = None"
    using assms(3,4) body by (simp_all add: macro_lines_def)
  show ?thesis
  proof (cases linux)
    case True
    define st where "st = set_branch [False] ((?f a macro_start)\<lparr>ms_branch := [True]\<rparr>)"
    have start: "set_branch [True] macro_start = macro_start\<lparr>ms_branch := [True]\<rparr>"
      by (simp add: set_branch_def macro_start_def)
    have skip: "?f b st = st"
      by (rule inactive_lines) (use cur in \<open>simp_all add: st_def set_branch_def\<close>)
    have "macro_lines linux ([''#ifdef __linux__''] @ a @ [''#else''] @ b @ [''#endif'']) macro_start
        = macro_line linux ''#endif'' (?f b (macro_line linux ''#else'' (?f a (set_branch [True] macro_start))))"
      using True by (simp add: macro_lines_def conditional_steps body macro_start_def)
    also have "\<dots> = macro_line linux ''#endif'' (?f b st)"
      unfolding start by (simp add: body_lines_branch conditional_steps st_def)
    finally show ?thesis
      using True body by (simp add: skip conditional_steps macro_lines_def) (simp add: st_def set_branch_def conditional_steps)
  next
    case False
    define st where "st = set_branch [False] macro_start"
    have skip: "?f a st = st"
      by (rule inactive_lines) (use cur in \<open>simp_all add: st_def set_branch_def macro_start_def\<close>)
    have on: "macro_line linux ''#else'' st = macro_start\<lparr>ms_branch := [True]\<rparr>"
      by (simp add: st_def conditional_steps set_branch_def macro_start_def)
    have "macro_lines linux ([''#ifdef __linux__''] @ a @ [''#else''] @ b @ [''#endif'']) macro_start
        = macro_line linux ''#endif'' (?f b (macro_line linux ''#else'' (?f a st)))"
      using False by (simp add: macro_lines_def conditional_steps body macro_start_def st_def)
    also have "\<dots> = macro_line linux ''#endif'' ((?f b macro_start)\<lparr>ms_branch := [True]\<rparr>)"
      unfolding skip on by (simp only: body_lines_branch)
    finally show ?thesis
      using False body by (simp add: conditional_steps macro_lines_def) (simp add: set_branch_def)
  qed
qed

theorem parse_macros_platform_witness:
  "\<forall>linux. let a = [''.macro LOAD r'', ''adrp'', ''.endm'']; b = [''.macro LOAD r'', ''adr'', ''.endm''] in
     ms_macros (macro_lines linux ([''#ifdef __linux__''] @ a @ [''#else''] @ b @ [''#endif'']) macro_start)
     = ms_macros (macro_lines linux (if linux then a else b) macro_start)"
proof -
  let ?a = "[''.macro LOAD r'', ''adrp'', ''.endm'']" and ?b = "[''.macro LOAD r'', ''adr'', ''.endm'']"
  have "\<forall>l \<in> set ?a. plain_line l" "\<forall>l \<in> set ?b. plain_line l"
    by code_simp+
  moreover have "ms_current (macro_lines True ?a macro_start) = None" "ms_current (macro_lines True ?b macro_start) = None"
    "ms_current (macro_lines False ?a macro_start) = None" "ms_current (macro_lines False ?b macro_start) = None"
    by code_simp+
  ultimately show ?thesis
    using parse_macros_platform [of ?a ?b True] parse_macros_platform [of ?a ?b False]
    by (auto simp: Let_def all_bool_eq simp del: append.simps if_True if_False)
qed

end
