(* ===== verification/Asm_Regions.thy ===== *)
theory Asm_Regions
  imports Asm_Macros
begin

text \<open>
  Callable regions of the assembly sources and the call graph over them
  (\<open>scripts/asmparse.py\<close>: \<open>Region\<close>, \<open>doc_field\<close>, \<open>_classify_lines\<close>, \<open>scan_regions\<close>,
  \<open>SourceIndex\<close>, \<open>index_source\<close>). The files of the tree and their texts, which the
  script reads from disk in sorted order, are arguments. The lemmas show where regions
  lie in their file, that top-level regions do not overlap, and that the edges of the
  call graph lead to regions of the index.
\<close>

section \<open>Regions\<close>

record region =
  rg_name :: string
  rg_path :: string
  label_line :: nat
  start_line :: nat
  end_line :: nat
  rg_text :: string
  rg_body :: string
  rg_doc :: string
  is_global :: bool
  is_local_label :: bool
  falls_through_to :: "string option"
  enclosing :: "string option"

text \<open>\<open>Region.rel\<close>: the path relative to the root of the repository, when it is below it.\<close>

definition region_rel :: "string \<Rightarrow> region \<Rightarrow> string" where
  "region_rel root r =
     (if startswith (rg_path r) (root @ ''/'') then drop (Suc (length root)) (rg_path r) else rg_path r)"

definition CARRY_RE :: rx where
  "CARRY_RE = seqs [ilit ''carry'', rep1 ws, Grp 1 (alts [ilit ''set'', ilit ''clear''])]"

definition carry_abi :: "region \<Rightarrow> bool" where
  "carry_abi r = re_found CARRY_RE (rg_doc r)"

definition FIELD_RE :: rx where
  "FIELD_RE = seqs [Bos, Cls (char_between CHR ''A'' CHR ''Z''),
     rep1 (Cls (\<lambda>c. char_between CHR ''A'' CHR ''Z'' c \<or> char_between CHR ''a'' CHR ''z'' c
       \<or> c \<in> {CHR ''/'', CHR '' ''})), chr CHR '':'']"

text \<open>A line of a comment header without its marker.\<close>

definition uncomment :: "string \<Rightarrow> string" where
  "uncomment raw = (let text = strip raw in if startswith text ''//'' then strip (drop 2 text) else text)"

text \<open>
  The lines of a field after its first: a blank line, a rule line (the box-drawing rule
  is outside ASCII) or another field ends the block.
\<close>

fun field_block :: "string list \<Rightarrow> string list" where
  "field_block [] = []"
| "field_block (raw # rest) =
     (let text = uncomment raw in
      if text = [] \<or> list_all (\<lambda>c. c \<in> {CHR ''-'', CHR ''=''}) text then []
      else if re_matches FIELD_RE text then []
      else text # field_block rest)"

fun field_find :: "string \<Rightarrow> string list \<Rightarrow> string list option" where
  "field_find name [] = None"
| "field_find name (raw # rest) =
     (let text = uncomment raw in
      if startswith text (name @ '':'')
      then let first = strip (drop (length name + 1) text)
           in Some ((if first \<noteq> [] then [first] else []) @ field_block rest)
      else field_find name rest)"

definition doc_field :: "string \<Rightarrow> string \<Rightarrow> string option" where
  "doc_field doc name = map_option (\<lambda>c. strip (join '' '' c)) (field_find name (split_lines doc))"

definition documented_clobbers :: "region \<Rightarrow> string option" where
  "documented_clobbers r = doc_field (rg_doc r) ''Clobbered Registers''"

section \<open>One pass over a file\<close>

text \<open>What a line declares: a global, and possibly a label.\<close>

definition line_symbols :: "string \<Rightarrow> string option \<times> string option" where
  "line_symbols raw =
     (let line = strip_comment raw in
      if line = [] then (None, None)
      else case re_match GLOBAL_RE line of
        Some g \<Rightarrow> (Some (group_str g 1), None)
      | None \<Rightarrow>
          (case symbol_macro line of
             Some d \<Rightarrow> (Some d, Some d)
           | None \<Rightarrow> (None, map_option fst (is_label line))))"

text \<open>
  The first content from a label on decides whether it labels data; further labels,
  declarations and header directives are not content.
\<close>

fun is_data_from :: "string list \<Rightarrow> bool" where
  "is_data_from [] = False"
| "is_data_from (raw # rest) =
     (let line = snd (peel_labels (strip_comment raw)) in
      if line = [] then is_data_from rest
      else if symbol_macro line \<noteq> None then is_data_from rest
      else if re_matches HEADER_DIRECTIVE_RE line then is_data_from rest
      else re_matches DATA_DIRECTIVE_RE line)"

definition file_labels :: "string list \<Rightarrow> (nat \<times> string \<times> bool) list" where
  "file_labels lines =
     List.map_filter (\<lambda>i. map_option (\<lambda>name. (i, name, is_data_from (drop i lines)))
       (snd (line_symbols (lines ! i)))) [0..<length lines]"

definition file_globals :: "string list \<Rightarrow> string set" where
  "file_globals lines = set (List.map_filter (fst \<circ> line_symbols) lines)"

definition classify_lines :: "string \<Rightarrow> (nat \<times> string \<times> bool) list \<times> string set \<times> nat set" where
  "classify_lines text =
     (let lines = split_lines text; labels = file_labels lines
      in (labels, file_globals lines, set (map fst (filter (\<lambda>(i, n, d). d) labels))))"

definition FUNCTION_NAME_RE :: rx where
  "FUNCTION_NAME_RE = seqs [Bos, lit ''//'', Star ws, lit ''Function Name:'', Star ws, Grp 1 (rep1 labelc)]"

text \<open>\<open>flush\<close>: the first \<open>Function Name\<close> line of a comment block names it.\<close>

definition block_name :: "string list \<Rightarrow> string option" where
  "block_name block =
     (case List.map_filter (\<lambda>l. re_match FUNCTION_NAME_RE (strip l)) block of
        [] \<Rightarrow> None | g # _ \<Rightarrow> Some (group_str g 1))"

definition flush_block :: "string list \<times> (string, string) dict \<Rightarrow> string list \<times> (string, string) dict" where
  "flush_block = (\<lambda>(current, blocks).
     ([], case block_name current of
            None \<Rightarrow> blocks
          | Some name \<Rightarrow> dict_setdefault name (join [CHR 0x0A] current) blocks))"

definition doc_blocks :: "string list \<Rightarrow> (string, string) dict" where
  "doc_blocks lines =
     snd (flush_block
       (fold (\<lambda>raw (current, blocks).
           if startswith (strip raw) ''//'' then (current @ [raw], blocks)
           else flush_block (current, blocks)) lines ([], [])))"

definition header_line :: "string \<Rightarrow> bool" where
  "header_line raw \<longleftrightarrow>
     (let text = strip raw; stripped = strip_comment raw in
      text = [] \<or> startswith text ''//'' \<or> startswith text ''/*'' \<or> startswith text ''*''
      \<or> (stripped \<noteq> [] \<and> re_matches HEADER_DIRECTIVE_RE stripped))"

text \<open>The walk back from a label; the start of the header is the last line walked over.\<close>

fun header_start :: "string list \<Rightarrow> nat \<Rightarrow> nat \<Rightarrow> nat" where
  "header_start lines 0 floor = 0"
| "header_start lines (Suc j) floor =
     (if floor \<le> j \<and> header_line (lines ! j) then header_start lines j floor else Suc j)"

section \<open>Splitting a file into regions\<close>

type_synonym candidates = "(nat \<times> string) list"

definition cand_name :: "candidates \<Rightarrow> nat \<Rightarrow> string" where
  "cand_name cands i = (case map_of cands i of Some n \<Rightarrow> n | None \<Rightarrow> [])"

definition extent_floor :: "candidates \<Rightarrow> nat \<Rightarrow> nat" where
  "extent_floor cands label_index =
     fold (\<lambda>(other, _) fl. if other < label_index then max fl (other + 1) else fl) cands 0"

definition clip_data :: "string list \<Rightarrow> nat list \<Rightarrow> nat \<Rightarrow> nat \<Rightarrow> nat" where
  "clip_data lines data_starts label_index en =
     (case find (\<lambda>d. label_index < d \<and> d < en) data_starts of
        Some d \<Rightarrow> header_start lines d (label_index + 1)
      | None \<Rightarrow> en)"

definition clip_closer :: "string list \<Rightarrow> string \<Rightarrow> nat \<Rightarrow> nat \<Rightarrow> nat" where
  "clip_closer lines name label_index en =
     (case find (\<lambda>k. strip_comment (lines ! k) \<in> {''ENDFUNC '' @ name, ''ENDOBJ '' @ name})
        [label_index + 1..<en] of
        Some k \<Rightarrow> k + 1
      | None \<Rightarrow> en)"

definition extent :: "string list \<Rightarrow> candidates \<Rightarrow> nat list \<Rightarrow> nat \<Rightarrow> nat option \<Rightarrow> nat \<times> nat" where
  "extent lines cands data_starts label_index next_index =
     (let start = header_start lines label_index (extent_floor cands label_index);
          en = (case next_index of
                  Some nx \<Rightarrow> header_start lines nx (label_index + 1)
                | None \<Rightarrow> length lines);
          en = clip_data lines data_starts label_index en
      in (start, clip_closer lines (cand_name cands label_index) label_index en))"

text \<open>Every entry of a list with the one that follows it.\<close>

fun with_next :: "'a list \<Rightarrow> ('a \<times> 'a option) list" where
  "with_next [] = []"
| "with_next [x] = [(x, None)]"
| "with_next (x # y # ys) = (x, Some y) # with_next (y # ys)"

definition make_region :: "string list \<Rightarrow> string \<Rightarrow> candidates \<Rightarrow> string set \<Rightarrow> (string, string) dict
    \<Rightarrow> nat list \<Rightarrow> nat \<Rightarrow> nat option \<Rightarrow> string option \<Rightarrow> region" where
  "make_region lines path cands globals blocks data_starts label_index next_index encl =
     (let (start, en) = extent lines cands data_starts label_index next_index;
          name = cand_name cands label_index;
          doc = join [CHR 0x0A] (filter (\<lambda>raw. startswith (strip raw) ''//'') (drop start (take label_index lines)));
          doc = (if \<not> has_sub ''Function Name:'' doc then dict_getd blocks name doc else doc)
      in \<lparr>rg_name = name, rg_path = path, label_line = label_index + 1, start_line = start + 1,
          end_line = en + 1, rg_text = join [CHR 0x0A] (drop start (take en lines)),
          rg_body = join [CHR 0x0A] (drop label_index (take en lines)), rg_doc = doc,
          is_global = (name \<in> globals), is_local_label = (startswith name ''.L'' \<or> startswith name ''L''),
          falls_through_to = None, enclosing = encl\<rparr>)"

definition TERMINATORS :: "string list" where
  "TERMINATORS = [''ret'', ''br'', ''b'', ''eret'']"

definition SYSCALL_MNEMONICS :: "string list" where
  "SYSCALL_MNEMONICS = [''svc'', ''SCWISVC'']"

definition EXIT_NUMBER_RE :: rx where
  "EXIT_NUMBER_RE = seqs [WordB, lit ''SYS_exit'', Opt (lit ''_group''), WordB]"

definition terminates :: "instruction list \<Rightarrow> bool" where
  "terminates insns =
     (let m = mnemonic (last insns) in
      if m \<in> set TERMINATORS then True
      else if m \<notin> set SYSCALL_MNEMONICS then False
      else list_ex (\<lambda>i. re_found EXIT_NUMBER_RE (insn_text i)) (rev (drop (length insns - 6) insns)))"

text \<open>
  A region that does not end in a terminator runs on into the next region of its tier
  (top-level or nested).
\<close>

fun link_fallthrough :: "region list \<Rightarrow> region list" where
  "link_fallthrough [] = []"
| "link_fallthrough (r # rs) =
     (case find (\<lambda>s. (enclosing s = None) = (enclosing r = None)) rs of
        None \<Rightarrow> r
      | Some s \<Rightarrow>
          let insns = fst (parse_instructions (rg_body r))
          in if insns = [] \<or> \<not> terminates insns then r\<lparr>falls_through_to := Some (rg_name s)\<rparr> else r)
     # link_fallthrough rs"

definition enclosing_global :: "candidates \<Rightarrow> (nat \<times> nat) list \<Rightarrow> nat \<Rightarrow> string option" where
  "enclosing_global cands extents label_index =
     map_option (\<lambda>(s, e). cand_name cands s) (find (\<lambda>(s, e). s < label_index \<and> label_index < e) extents)"

definition candidates_of :: "(nat \<times> string \<times> bool) list \<Rightarrow> string set \<Rightarrow> string set \<Rightarrow> candidates" where
  "candidates_of labels globals call_targets =
     map (\<lambda>(i, n, d). (i, n)) (filter (\<lambda>(i, n, d). \<not> d \<and> (n \<in> globals \<or> n \<in> call_targets)) labels)"

text \<open>The start lines of the top-level units.\<close>

definition top_level_of :: "string list \<Rightarrow> candidates \<Rightarrow> string set \<Rightarrow> (nat \<times> nat) list \<Rightarrow> nat list" where
  "top_level_of lines cands globals extents =
     map fst (filter (\<lambda>(i, n). n \<in> globals \<or> enclosing_global cands extents i = None) cands)"

definition scan_regions :: "string \<Rightarrow> string \<Rightarrow> string set \<Rightarrow> region list" where
  "scan_regions text path call_targets =
     (let lines = split_lines text;
          (labels, globals, _) = classify_lines text;
          blocks = doc_blocks lines;
          cands = candidates_of labels globals call_targets;
          data_starts = sort (map fst (filter (\<lambda>(i, n, d). d) labels));
          global_indices = map fst (filter (\<lambda>(i, n). n \<in> globals) cands);
          extents = map (\<lambda>(i, nx). (i, snd (extent lines cands data_starts i nx))) (with_next global_indices);
          top_level = top_level_of lines cands globals extents;
          make = make_region lines path cands globals blocks data_starts;
          tops = map (\<lambda>(i, nx). make i nx None) (with_next top_level);
          nested = map (\<lambda>(i, nx). make i nx (enclosing_global cands extents i))
            (filter (\<lambda>(i, nx). i \<notin> set top_level) (with_next (map fst cands)))
      in if cands = [] then []
         else link_fallthrough
           (sort_key (\<lambda>r. 2 * label_line r + (if enclosing r \<noteq> None then 1 else 0)) (tops @ nested)))"

section \<open>The call graph\<close>

definition BL_RE :: rx where
  "BL_RE = seqs [Bos, lit ''bl'', rep1 ws, Grp 1 (rep1 labelc)]"

definition B_RE :: rx where
  "B_RE = seqs [Bos, lit ''b'', rep1 ws,
     Grp 1 (Seq (Cls (\<lambda>c. char_between CHR ''A'' CHR ''Z'' c \<or> char_between CHR ''a'' CHR ''z'' c
       \<or> c \<in> {CHR ''_'', CHR ''.'', CHR ''$''})) (Star labelc))]"

definition branch_line :: "string \<Rightarrow> string list \<times> string list \<Rightarrow> string list \<times> string list" where
  "branch_line raw = (\<lambda>(calls, tails).
     let line = strip_comment raw in
     if line = [] then (calls, tails)
     else
       let line = snd (peel_labels line)
       in case re_match BL_RE line of
            Some g \<Rightarrow> (calls @ [group_str g 1], tails)
          | None \<Rightarrow>
              (case re_match B_RE line of
                 Some g \<Rightarrow> (calls, tails @ [group_str g 1])
               | None \<Rightarrow> (calls, tails)))"

definition branch_targets_in :: "string \<Rightarrow> macros \<Rightarrow> string list \<times> string list" where
  "branch_targets_in text macros = fold branch_line (split_lines (expand_macros text macros 4)) ([], [])"

definition call_targets_in :: "string \<Rightarrow> macros \<Rightarrow> string list" where
  "call_targets_in text macros = fst (branch_targets_in text macros)"

text \<open>
  Sets of names are lists without repetition here: Python's iteration order over a set
  is unspecified, and nothing below depends on it.
\<close>

record source_index =
  ix_regions :: "region list"
  by_name :: "(string, region) dict"
  all_by_name :: "(string, region list) dict"
  ix_macros :: macros
  callers :: "(string, (string \<times> string) list) dict"
  calls :: "(string, string list) dict"
  tail_calls :: "(string, string list) dict"
  references :: "(string, string list) dict"

definition call_sites :: "source_index \<Rightarrow> string \<Rightarrow> nat" where
  "call_sites ix name = length (dict_getd (callers ix) name [])"

definition referenced :: "source_index \<Rightarrow> string \<Rightarrow> bool" where
  "referenced ix name \<longleftrightarrow> dict_getd (references ix) name [] \<noteq> []"

text \<open>\<open>analysis_body\<close>: the body followed by those it falls through to, three at most.\<close>

fun fallthrough_body :: "source_index \<Rightarrow> nat \<Rightarrow> string set \<Rightarrow> region \<Rightarrow> string \<Rightarrow> string" where
  "fallthrough_body ix 0 seen current body = body"
| "fallthrough_body ix (Suc depth) seen current body =
     (case falls_through_to current of
        None \<Rightarrow> body
      | Some target \<Rightarrow>
          if target = [] then body
          else case map_of (by_name ix) target of
            None \<Rightarrow> body
          | Some nxt \<Rightarrow>
              if rg_name nxt \<in> seen then body
              else fallthrough_body ix depth (insert (rg_name nxt) seen) nxt (body @ [CHR 0x0A] @ rg_body nxt))"

definition analysis_body :: "source_index \<Rightarrow> region \<Rightarrow> string" where
  "analysis_body ix r = fallthrough_body ix 3 {rg_name r} r (rg_body r)"

text \<open>
  \<open>load_macros\<close>: the macros of \<open>defs.S\<close>, then those of the other files that a file
  before them does not define.
\<close>

definition load_macros :: "bool \<Rightarrow> string option \<Rightarrow> string list \<Rightarrow> macros" where
  "load_macros linux defs others =
     fold (\<lambda>text macros.
         if \<not> has_sub ''.macro'' text then macros
         else fold (\<lambda>(name, mac). dict_setdefault name mac) (parse_macros linux text) macros)
       others (case defs of Some text \<Rightarrow> parse_macros linux text | None \<Rightarrow> [])"

type_synonym sources = "(string \<times> string) list"

definition all_call_targets :: "sources \<Rightarrow> macros \<Rightarrow> string set" where
  "all_call_targets texts macros = set (concat (map (\<lambda>(p, text). call_targets_in text macros) texts))"

definition all_doc_blocks :: "sources \<Rightarrow> (string, string) dict" where
  "all_doc_blocks texts =
     fold (\<lambda>(p, text). fold (\<lambda>(name, block). dict_setdefault name block) (doc_blocks (split_lines text))) texts []"

definition index_region :: "(string, string) dict \<Rightarrow> region \<Rightarrow> source_index \<Rightarrow> source_index" where
  "index_region blocks r ix =
     (let r = (if \<not> has_sub ''Clobbered Registers:'' (rg_doc r)
               then r\<lparr>rg_doc := dict_getd blocks (rg_name r) (rg_doc r)\<rparr> else r)
      in ix\<lparr>ix_regions := ix_regions ix @ [r],
            by_name := dict_setdefault (rg_name r) r (by_name ix),
            all_by_name := dict_append (rg_name r) r (all_by_name ix)\<rparr>)"

definition index_regions :: "macros \<Rightarrow> sources \<Rightarrow> source_index" where
  "index_regions macros texts =
     fold (\<lambda>(path, text). fold (index_region (all_doc_blocks texts))
             (scan_regions text path (all_call_targets texts macros)))
       texts
       \<lparr>ix_regions = [], by_name = [], all_by_name = [], ix_macros = macros, callers = [],
        calls = [], tail_calls = [], references = []\<rparr>"

definition local_labels :: "region \<Rightarrow> string list" where
  "local_labels r = map fst (snd (parse_instructions (rg_body r)))"

definition label_owner :: "region list \<Rightarrow> (string \<times> string, string) dict" where
  "label_owner regions =
     fold (\<lambda>r. fold (\<lambda>l. dict_put (rg_path r, l) (rg_name r)) (local_labels r)) regions []"

definition resolve_tails :: "string set \<Rightarrow> (string \<times> string, string) dict \<Rightarrow> region \<Rightarrow> string list \<Rightarrow> string list" where
  "resolve_tails known owner r tails =
     remdups (List.map_filter (\<lambda>target.
         if target \<in> set (local_labels r) \<or> target = rg_name r then None
         else if target \<in> known then Some target
         else case map_of owner (rg_path r, target) of
             Some own \<Rightarrow> if own \<noteq> rg_name r then Some own else None
           | None \<Rightarrow> None) tails)"

definition call_edges :: "string \<Rightarrow> macros \<Rightarrow> string set \<Rightarrow> (string \<times> string, string) dict
    \<Rightarrow> region \<Rightarrow> source_index \<Rightarrow> source_index" where
  "call_edges root macros known owner r ix =
     (let (cs, tails) = branch_targets_in (rg_body r) macros;
          callees = remdups cs;
          resolved = resolve_tails known owner r tails
      in ix\<lparr>calls := dict_put (rg_name r) callees (calls ix),
            tail_calls := dict_put (rg_name r) resolved (tail_calls ix),
            callers := fold (\<lambda>callee. dict_append callee (rg_name r, region_rel root r)) (callees @ resolved)
              (callers ix)\<rparr>)"

definition BRANCH_LINE_RE :: rx where
  "BRANCH_LINE_RE = seqs [Bos, Grp 1 (alts [lit ''bl'', lit ''blr'', lit ''b'', Seq (lit ''b.'') (rep1 wordc),
     Seq (lit ''bc.'') (rep1 wordc)]), ws]"

definition reference_line :: "string \<Rightarrow> string list \<Rightarrow> string \<Rightarrow> (string, string list) dict \<Rightarrow> (string, string list) dict" where
  "reference_line path names raw refs =
     (let line = strip_comment raw in
      if line = [] then refs
      else
        let line = snd (peel_labels line) in
        if line = [] \<or> (re_matches DIRECTIVE_RE line \<and> \<not> re_matches DATA_DIRECTIVE_RE line) then refs
        else if re_matches BRANCH_LINE_RE line then refs
        else fold (\<lambda>name refs.
               if re_found (seqs [WordB, lit name, WordB]) line \<and> path \<notin> set (dict_getd refs name [])
               then dict_append name path refs else refs) names refs)"

definition index_source :: "string \<Rightarrow> macros \<Rightarrow> sources \<Rightarrow> source_index" where
  "index_source root macros texts =
     (let ix = index_regions macros texts;
          known = set (map fst (by_name ix));
          ix = fold (call_edges root macros known (label_owner (ix_regions ix))) (ix_regions ix) ix
      in ix\<lparr>references := fold (\<lambda>(path, text). fold (reference_line path (map fst (by_name ix))) (split_lines text))
              texts []\<rparr>)"

section \<open>Where regions lie\<close>

lemma header_start_le: "header_start lines k fl \<le> k"
  by (induction lines k fl rule: header_start.induct) (auto simp: le_Suc_eq)

lemma header_start_ge: "fl \<le> k \<Longrightarrow> fl \<le> header_start lines k fl"
  by (induction lines k fl rule: header_start.induct) auto

lemma header_start_mono: "fl \<le> fl' \<Longrightarrow> header_start lines k fl \<le> header_start lines k fl'"
  by (induction lines k fl rule: header_start.induct)
    (auto intro: le_SucI order_trans [OF header_start_le])

lemma header_start_header:
  "header_start lines k fl \<le> j \<Longrightarrow> j < k \<Longrightarrow> header_line (lines ! j)"
  by (induction lines k fl rule: header_start.induct) (auto simp: less_Suc_eq split: if_splits)

lemma clip_data_bounds:
  assumes "label_index < en"
  shows "label_index < clip_data lines ds label_index en \<and> clip_data lines ds label_index en \<le> en"
proof (cases "find (\<lambda>d. label_index < d \<and> d < en) ds")
  case None
  then show ?thesis using assms by (simp add: clip_data_def)
next
  case (Some d)
  then have "label_index < d" "d < en" by (auto dest: find_SomeD)
  moreover have "label_index + 1 \<le> header_start lines d (label_index + 1)"
    using \<open>label_index < d\<close> by (intro header_start_ge) simp
  ultimately show ?thesis
    using Some header_start_le [of lines d "label_index + 1"] by (simp add: clip_data_def)
qed

lemma clip_closer_bounds:
  assumes "label_index < en"
  shows "label_index < clip_closer lines name label_index en \<and> clip_closer lines name label_index en \<le> en"
  using assms by (auto simp: clip_closer_def split: option.splits dest!: find_SomeD)


lemma extent_bounds:
  assumes "label_index < length lines" and "\<And>nx. next_index = Some nx \<Longrightarrow> label_index < nx \<and> nx < length lines"
    and "extent lines cands ds label_index next_index = (s, e)"
  shows "s \<le> label_index" and "label_index < e" and "e \<le> length lines"
    and "next_index = Some nx \<Longrightarrow> e \<le> header_start lines nx (label_index + 1)"
proof -
  define en where "en = (case next_index of Some nx \<Rightarrow> header_start lines nx (label_index + 1) | None \<Rightarrow> length lines)"
  have en: "label_index < en \<and> en \<le> length lines"
  proof (cases next_index)
    case None
    then show ?thesis using assms(1) by (simp add: en_def)
  next
    case (Some nx)
    then have "label_index + 1 \<le> header_start lines nx (label_index + 1)"
      using assms(2) by (intro header_start_ge) fastforce
    then show ?thesis
      using Some assms(2) header_start_le [of lines nx "label_index + 1"] by (fastforce simp: en_def)
  qed
  note clip = clip_data_bounds [OF conjunct1 [OF en], of lines ds]
  note close = clip_closer_bounds [OF conjunct1 [OF clip], of lines "cand_name cands label_index"]
  have se: "s = header_start lines label_index (extent_floor cands label_index)"
    "e = clip_closer lines (cand_name cands label_index) label_index (clip_data lines ds label_index en)"
    using assms(3) by (simp_all add: extent_def en_def Let_def)
  show "s \<le> label_index" by (simp add: se header_start_le)
  show "label_index < e" using close by (simp add: se)
  show "e \<le> length lines" using close clip en by (simp add: se)
  show "e \<le> header_start lines nx (label_index + 1)" if "next_index = Some nx"
    using close clip that by (simp add: se en_def)
qed

lemma with_next_fst [simp]: "map fst (with_next xs) = xs"
  by (induction xs rule: with_next.induct) auto

lemma with_next_mem: "(x, nx) \<in> set (with_next xs) \<Longrightarrow> x \<in> set xs"
  by (metis fst_conv image_eqI list.set_map with_next_fst)

lemma with_next_less:
  "sorted_wrt (<) xs \<Longrightarrow> (x, Some y) \<in> set (with_next xs) \<Longrightarrow> x < (y :: nat) \<and> y \<in> set xs"
  by (induction xs rule: with_next.induct) auto

lemma with_next_least:
  "sorted_wrt (<) xs \<Longrightarrow> (x, nx) \<in> set (with_next xs) \<Longrightarrow> z \<in> set xs \<Longrightarrow> x < z
     \<Longrightarrow> \<exists>y. nx = Some y \<and> y \<le> (z :: nat)"
proof (induction xs rule: with_next.induct)
  case (3 a b ys)
  show ?case
  proof (cases "(x, nx) = (a, Some b)")
    case True
    then show ?thesis using "3.prems" by auto
  next
    case False
    then have "(x, nx) \<in> set (with_next (b # ys))" using "3.prems"(2) by auto
    moreover from with_next_mem [OF this] have "a < x" using "3.prems"(1) by auto
    ultimately show ?thesis using 3 by auto
  qed
qed auto

lemma file_labels_eq:
  "file_labels lines = map (\<lambda>i. (i, the (snd (line_symbols (lines ! i))), is_data_from (drop i lines)))
     (filter (\<lambda>i. snd (line_symbols (lines ! i)) \<noteq> None) [0..<length lines])"
  by (auto simp: file_labels_def List.map_filter_def comp_def intro!: map_cong filter_cong)

lemma candidates_sorted: "sorted_wrt (<) (map fst (candidates_of (file_labels lines) gl ct))"
proof -
  have "map fst (candidates_of (file_labels lines) gl ct)
      = filter (\<lambda>i. i \<in> fst ` set (candidates_of (file_labels lines) gl ct)) [0..<length lines]"
    by (simp add: candidates_of_def file_labels_eq filter_map comp_def case_prod_beta image_image)
      (auto intro!: filter_cong)
  then show ?thesis by (metis sorted_wrt_filter strict_sorted_list_of_set sorted_wrt_upt)
qed

lemma link_fallthrough_mem:
  "r \<in> set (link_fallthrough rs) \<Longrightarrow> \<exists>r0 \<in> set rs. \<exists>x. r = r0\<lparr>falls_through_to := x\<rparr>"
proof (induction rs)
  case (Cons a rs)
  have "\<exists>x. a = a\<lparr>falls_through_to := x\<rparr>" by (rule exI [of _ "falls_through_to a"]) simp
  then show ?case using Cons by (auto simp: Let_def split: option.splits if_splits)
qed simp

text \<open>
  Where a region comes from: the line of a candidate label, and the candidate that ends
  it; a region without an enclosing one comes from the list of top-level units.
\<close>

lemma region_origin:
  assumes "r \<in> set (scan_regions text path ct)"
  defines "lines \<equiv> split_lines text"
  defines "cands \<equiv> candidates_of (file_labels lines) (file_globals lines) ct"
  obtains ds extents i nx encl x where
    "r = (make_region lines path cands (file_globals lines) (doc_blocks lines) ds i nx encl)\<lparr>falls_through_to := x\<rparr>"
    "(i, nx) \<in> set (with_next (if encl = None then top_level_of lines cands (file_globals lines) extents else map fst cands))"
    "extents = map (\<lambda>(i, nx). (i, snd (extent lines cands ds i nx)))
       (with_next (map fst (filter (\<lambda>(i, n). n \<in> file_globals lines) cands)))"
    "ds = sort (map fst (filter (\<lambda>(i, n, d). d) (file_labels lines)))"
proof -
  define ds where "ds = sort (map fst (filter (\<lambda>(i, n, d). d) (file_labels lines)))"
  define extents where "extents = map (\<lambda>(i, nx). (i, snd (extent lines cands ds i nx)))
       (with_next (map fst (filter (\<lambda>(i, n). n \<in> file_globals lines) cands)))"
  define tl where "tl = top_level_of lines cands (file_globals lines) extents"
  define make where "make = make_region lines path cands (file_globals lines) (doc_blocks lines) ds"
  have "r \<in> set (link_fallthrough
        (sort_key (\<lambda>r. 2 * label_line r + (if enclosing r \<noteq> None then 1 else 0))
          (map (\<lambda>(i, nx). make i nx None) (with_next tl)
           @ map (\<lambda>(i, nx). make i nx (enclosing_global cands extents i))
            (filter (\<lambda>(i, nx). i \<notin> set tl) (with_next (map fst cands))))))"
    using assms(1)
    by (simp add: scan_regions_def classify_lines_def Let_def lines_def [symmetric] cands_def [symmetric]
        ds_def [symmetric] extents_def [symmetric] tl_def [symmetric] make_def [symmetric] split: if_splits)
  then obtain r0 x where r: "r = r0\<lparr>falls_through_to := x\<rparr>" and
    "r0 \<in> set (map (\<lambda>(i, nx). make i nx None) (with_next tl)
           @ map (\<lambda>(i, nx). make i nx (enclosing_global cands extents i))
            (filter (\<lambda>(i, nx). i \<notin> set tl) (with_next (map fst cands))))"
    using link_fallthrough_mem by fastforce
  then consider i nx where "(i, nx) \<in> set (with_next tl)" "r0 = make i nx None"
    | i nx where "(i, nx) \<in> set (with_next (map fst cands))" "i \<notin> set tl"
        "r0 = make i nx (enclosing_global cands extents i)"
    by auto
  then show ?thesis
  proof cases
    case 1
    then have "(i, nx) \<in> set (with_next (if (None :: string option) = None
        then top_level_of lines cands (file_globals lines) extents else map fst cands))"
      by (simp add: tl_def)
    with 1 r show ?thesis unfolding make_def by (intro that [OF _ _ extents_def ds_def]) blast+
  next
    case 2
    obtain n where "(i, n) \<in> set cands" using with_next_mem [OF 2(1)] by auto
    then have "enclosing_global cands extents i \<noteq> None"
      using 2(2) by (force simp: tl_def top_level_of_def)
    with 2 have "(i, nx) \<in> set (with_next (if enclosing_global cands extents i = None
        then top_level_of lines cands (file_globals lines) extents else map fst cands))"
      by (simp only: if_False)
    with 2 r show ?thesis unfolding make_def by (intro that [OF _ _ extents_def ds_def]) blast+
  qed
qed

lemma top_level_sorted:
  "sorted_wrt (<) (top_level_of lines (candidates_of (file_labels lines) gl ct) gl ex)"
proof -
  have "sorted_wrt (\<lambda>x y. fst x < fst y) (candidates_of (file_labels lines) gl ct)"
    using candidates_sorted by (simp only: sorted_wrt_map)
  then show ?thesis unfolding top_level_of_def sorted_wrt_map by (rule sorted_wrt_filter)
qed

lemma candidate_label:
  assumes "i \<in> fst ` set (candidates_of (file_labels lines) gl ct)"
  shows "i < length lines \<and> snd (line_symbols (lines ! i)) = Some (cand_name (candidates_of (file_labels lines) gl ct) i)"
proof -
  let ?c = "candidates_of (file_labels lines) gl ct"
  obtain n where mem: "(i, n) \<in> set ?c" using assms by auto
  have "distinct (map fst ?c)" using candidates_sorted strict_sorted_iff by blast
  then have "cand_name ?c i = n" using mem by (simp add: cand_name_def)
  then show ?thesis using mem by (auto simp: candidates_of_def file_labels_eq)
qed

text \<open>
  C39. Every region lies in its file: the header starts at or before the label, every line
  of it is a comment, a directive or blank, the region ends after its label and within
  the file, its label line declares its name, and its body is the text from the label to
  the end.
\<close>

theorem scan_regions_wf:
  assumes "r \<in> set (scan_regions text path ct)"
  shows "1 \<le> start_line r \<and> start_line r \<le> label_line r \<and> label_line r < end_line r
    \<and> end_line r \<le> length (split_lines text) + 1
    \<and> snd (line_symbols (split_lines text ! (label_line r - 1))) = Some (rg_name r)
    \<and> (\<forall>k. start_line r \<le> k \<and> k < label_line r \<longrightarrow> header_line (split_lines text ! (k - 1)))
    \<and> rg_body r = join [CHR 0x0A] (drop (label_line r - 1) (take (end_line r - 1) (split_lines text)))"
proof -
  let ?lines = "split_lines text" and ?gl = "file_globals (split_lines text)"
  let ?c = "candidates_of (file_labels ?lines) ?gl ct"
  obtain ds ex i nx encl x where
    r: "r = (make_region ?lines path ?c ?gl (doc_blocks ?lines) ds i nx encl)\<lparr>falls_through_to := x\<rparr>" and
    mem: "(i, nx) \<in> set (with_next (if encl = None then top_level_of ?lines ?c ?gl ex else map fst ?c))"
    by (rule region_origin [OF assms])
  let ?xs = "if encl = None then top_level_of ?lines ?c ?gl ex else map fst ?c"
  have xs: "sorted_wrt (<) ?xs" "set ?xs \<subseteq> fst ` set ?c"
    by (simp_all add: top_level_sorted candidates_sorted) (auto simp: top_level_of_def)
  have i: "i \<in> fst ` set ?c" using with_next_mem [OF mem] xs(2) by blast
  have nx: "i < y \<and> y < length ?lines" if "nx = Some y" for y
    using with_next_less [OF xs(1)] mem that xs(2) candidate_label [of y] by blast
  obtain s e where se: "extent ?lines ?c ds i nx = (s, e)" by (cases "extent ?lines ?c ds i nx")
  note b = extent_bounds [OF conjunct1 [OF candidate_label [OF i]] nx se]
  have "s = header_start ?lines i (extent_floor ?c i)" using se by (simp add: extent_def Let_def)
  then have "header_line (?lines ! (k - 1))" if "s + 1 \<le> k" "k < i + 1" for k
    using header_start_header [of ?lines i "extent_floor ?c i" "k - 1"] that by simp
  then show ?thesis
    using b candidate_label [OF i] by (simp add: r make_region_def se Let_def)
qed

definition two_functions :: string where
  "two_functions = join [CHR 0x0A] [''// f'', ''FUNC f'', '' ret'', ''ENDFUNC f'', ''FUNC g'', ''g1: ret'']"

theorem scan_regions_wf_witness:
  "label_line (hd (scan_regions two_functions ''a.S'' {})) < end_line (hd (scan_regions two_functions ''a.S'' {}))"
proof -
  have "scan_regions two_functions ''a.S'' {} \<noteq> []" by code_simp
  then show ?thesis using scan_regions_wf [OF hd_in_set] by blast
qed

lemma floor_fold:
  fixes l :: nat
  defines "F \<equiv> \<lambda>(other, _ :: string) fl. if other < l then max fl (other + 1) else fl"
  shows "fl \<le> fold F cs fl" and "i \<in> fst ` set cs \<Longrightarrow> i < l \<Longrightarrow> i + 1 \<le> fold F cs fl"
    and "fl \<le> l \<Longrightarrow> fold F cs fl \<le> l"
proof (induction cs arbitrary: fl)
  case (Cons c cs)
  obtain o' n where c: "c = (o', n)" by (cases c)
  { case 1 show ?case using Cons.IH(1) [of "F c fl"] by (auto simp: c F_def split: if_splits) }
  { case 2 then show ?case
      using Cons.IH(1) [of "F c fl"] Cons.IH(2) [of "F c fl"] by (auto simp: c F_def split: if_splits) }
  { case 3 then show ?case using Cons.IH(3) [of "F c fl"] by (auto simp: c F_def split: if_splits) }
qed simp_all

lemma extent_floor_bounds:
  "i \<in> fst ` set cs \<Longrightarrow> i < l \<Longrightarrow> i + 1 \<le> extent_floor cs l" "extent_floor cs l \<le> l"
  unfolding extent_floor_def using floor_fold(2) [of i cs l 0] floor_fold(3) [of 0 l cs] by simp_all

lemma header_start_between:
  assumes "i < y" "y \<le> j" "i \<in> fst ` set cs" "y \<in> fst ` set cs"
  shows "header_start lines y (i + 1) \<le> header_start lines j (extent_floor cs j)"
proof (cases "y = j")
  case True
  then show ?thesis
    using assms extent_floor_bounds(1) [of i cs j] header_start_mono [of "i + 1" "extent_floor cs j"] by simp
next
  case False
  then have "y + 1 \<le> extent_floor cs j" using assms extent_floor_bounds(1) [of y cs j] by simp
  also have "\<dots> \<le> header_start lines j (extent_floor cs j)"
    by (rule header_start_ge) (rule extent_floor_bounds)
  finally show ?thesis using header_start_le [of lines y "i + 1"] by simp
qed

text \<open>
  Top-level regions do not overlap: one ends before the header of the next begins.
\<close>

theorem scan_regions_disjoint:
  assumes "r \<in> set (scan_regions text path ct)" and "s \<in> set (scan_regions text path ct)"
    and "enclosing r = None" and "enclosing s = None" and "label_line r < label_line s"
  shows "end_line r \<le> start_line s"
proof -
  let ?lines = "split_lines text" and ?gl = "file_globals (split_lines text)"
  let ?c = "candidates_of (file_labels ?lines) ?gl ct"
  obtain ds ex i nx encl x where
    r: "r = (make_region ?lines path ?c ?gl (doc_blocks ?lines) ds i nx encl)\<lparr>falls_through_to := x\<rparr>" and
    mem: "(i, nx) \<in> set (with_next (if encl = None then top_level_of ?lines ?c ?gl ex else map fst ?c))" and
    ex: "ex = map (\<lambda>(i, nx). (i, snd (extent ?lines ?c ds i nx))) (with_next (map fst (filter (\<lambda>(i, n). n \<in> ?gl) ?c)))"
    and ds: "ds = sort (map fst (filter (\<lambda>(i, n, d). d) (file_labels ?lines)))"
    by (rule region_origin [OF assms(1)])
  obtain ds' ex' j nx' encl' x' where
    s: "s = (make_region ?lines path ?c ?gl (doc_blocks ?lines) ds' j nx' encl')\<lparr>falls_through_to := x'\<rparr>" and
    mem': "(j, nx') \<in> set (with_next (if encl' = None then top_level_of ?lines ?c ?gl ex' else map fst ?c))" and
    ex': "ex' = map (\<lambda>(i, nx). (i, snd (extent ?lines ?c ds' i nx))) (with_next (map fst (filter (\<lambda>(i, n). n \<in> ?gl) ?c)))"
    and ds': "ds' = sort (map fst (filter (\<lambda>(i, n, d). d) (file_labels ?lines)))"
    by (rule region_origin [OF assms(2)])
  have ex_eq: "ex' = ex" by (simp only: ex ex' ds ds')
  have encl: "encl = None" "encl' = None"
    using assms(3,4) by (simp_all add: r s make_region_def Let_def split: prod.splits)
  let ?tl = "top_level_of ?lines ?c ?gl ex"
  have tl: "(i, nx) \<in> set (with_next ?tl)" "j \<in> set ?tl"
    using mem mem' encl ex_eq with_next_mem by auto
  have ij: "i < j" using assms(5) by (simp add: r s make_region_def Let_def split: prod.splits)
  then obtain y where y: "nx = Some y" "y \<le> j" using with_next_least [OF top_level_sorted tl] by blast
  have lab: "i < length ?lines" "y < length ?lines" "i < y"
    using with_next_less [OF top_level_sorted tl(1) [unfolded y(1)]] with_next_mem [OF tl(1)]
      candidate_label [of _ ?lines ?gl ct] by (auto simp: top_level_of_def)
  have "snd (extent ?lines ?c ds i nx) \<le> header_start ?lines y (i + 1)"
    using extent_bounds(4) [of i ?lines nx ?c ds] lab y(1) by (metis option.inject prod.collapse)
  also have "\<dots> \<le> header_start ?lines j (extent_floor ?c j)"
    using lab(3) y(2) with_next_mem [OF tl(1)] with_next_less [OF top_level_sorted tl(1) [unfolded y(1)]]
    by (intro header_start_between) (auto simp: top_level_of_def)
  finally show ?thesis
    by (simp add: r s make_region_def extent_def Let_def split: prod.splits)
qed

lemma two_functions_scan:
  "case scan_regions two_functions ''a.S'' {} of
     [r, s] \<Rightarrow> enclosing r = None \<and> enclosing s = None \<and> label_line r < label_line s
   | _ \<Rightarrow> False"
  by code_simp

theorem scan_regions_disjoint_witness:
  "\<exists>r s. scan_regions two_functions ''a.S'' {} = [r, s] \<and> end_line r \<le> start_line s"
proof -
  obtain r s where rs: "scan_regions two_functions ''a.S'' {} = [r, s]"
    "enclosing r = None" "enclosing s = None" "label_line r < label_line s"
    using two_functions_scan by (auto split: list.splits)
  then have "end_line r \<le> start_line s"
    using scan_regions_disjoint [of r two_functions "''a.S''" "{}" s] by simp
  then show ?thesis using rs(1) by blast
qed

section \<open>Edges of the call graph\<close>

lemma fold_dict_put_range:
  "map_of (fold (\<lambda>l. dict_put (f l) v) ls d) k = Some w \<Longrightarrow> w = v \<or> map_of d k = Some w"
proof (induction ls arbitrary: d)
  case (Cons l ls)
  then show ?case by (fastforce split: if_splits)
qed simp

lemma label_owner_range:
  "map_of (label_owner rs) k = Some n \<Longrightarrow> n \<in> rg_name ` set rs"
proof -
  have "map_of (fold (\<lambda>r. fold (\<lambda>l. dict_put (rg_path r, l) (rg_name r)) (local_labels r)) rs d) k = Some n
      \<Longrightarrow> n \<in> rg_name ` set rs \<or> map_of d k = Some n" for d
  proof (induction rs arbitrary: d)
    case (Cons r rs)
    from Cons.IH [OF Cons.prems [unfolded fold_simps]] show ?case
      using fold_dict_put_range [of "\<lambda>l. (rg_path r, l)" "rg_name r" "local_labels r" d k n] by auto
  qed simp
  from this [of "[]"] show "map_of (label_owner rs) k = Some n \<Longrightarrow> n \<in> rg_name ` set rs"
    by (simp add: label_owner_def)
qed

lemma set_dict_keys [simp]:
  "fst ` set (dict_put k v d) = insert k (fst ` set d)"
  "fst ` set (dict_setdefault k v d) = insert k (fst ` set d)"
  by (induction k v d rule: dict_put.induct)
    (auto simp: dict_setdefault_def dom_map_of_conv_image_fst [symmetric] split: option.splits)

lemma index_region_names:
  "set (map fst (by_name ix)) = rg_name ` set (ix_regions ix)
     \<Longrightarrow> set (map fst (by_name (index_region blocks r ix))) = rg_name ` set (ix_regions (index_region blocks r ix))"
  by (simp add: index_region_def Let_def)

lemma fold_index_region_names:
  "set (map fst (by_name ix)) = rg_name ` set (ix_regions ix)
     \<Longrightarrow> set (map fst (by_name (fold (index_region blocks) rs ix))) = rg_name ` set (ix_regions (fold (index_region blocks) rs ix))"
  by (induction rs arbitrary: ix) (simp_all only: fold_simps index_region_names)

lemma index_regions_names:
  "set (map fst (by_name (index_regions macros texts))) = rg_name ` set (ix_regions (index_regions macros texts))"
proof -
  have "set (map fst (by_name ix)) = rg_name ` set (ix_regions ix) \<Longrightarrow>
      set (map fst (by_name (fold (\<lambda>(path, text). fold (index_region b) (scan_regions text path c)) ts ix)))
      = rg_name ` set (ix_regions (fold (\<lambda>(path, text). fold (index_region b) (scan_regions text path c)) ts ix))"
    for b c ts ix
  proof (induction ts arbitrary: ix)
    case (Cons t ts)
    then show ?case using fold_index_region_names [of ix b] by (cases t) (simp only: fold_simps split)
  qed simp
  then show ?thesis by (simp add: index_regions_def)
qed

lemma resolve_tails_known:
  assumes "\<And>k n. map_of owner k = Some n \<Longrightarrow> n \<in> known"
  shows "set (resolve_tails known owner r tails) \<subseteq> known - {rg_name r}"
  using assms by (force simp: resolve_tails_def List.map_filter_def split: if_splits option.splits)

definition edges_wf :: "source_index \<Rightarrow> bool" where
  "edges_wf ix \<longleftrightarrow> (\<forall>(r, ts) \<in> set (tail_calls ix). set ts \<subseteq> set (map fst (by_name ix)) - {r})"

lemma call_edges_fields:
  "by_name (call_edges root macros known owner r ix) = by_name ix"
  "tail_calls (call_edges root macros known owner r ix)
     = dict_put (rg_name r) (resolve_tails known owner r (snd (branch_targets_in (rg_body r) macros))) (tail_calls ix)"
  by (simp_all add: call_edges_def Let_def split: prod.splits)

lemma call_edges_wf:
  assumes "edges_wf ix" and "\<And>k n. map_of owner k = Some n \<Longrightarrow> n \<in> set (map fst (by_name ix))"
  shows "edges_wf (call_edges root macros (set (map fst (by_name ix))) owner r ix)"
  unfolding edges_wf_def call_edges_fields
proof (rule ballI)
  let ?res = "resolve_tails (set (map fst (by_name ix))) owner r (snd (branch_targets_in (rg_body r) macros))"
  fix e assume "e \<in> set (dict_put (rg_name r) ?res (tail_calls ix))"
  then have "e = (rg_name r, ?res) \<or> e \<in> set (tail_calls ix)" using set_dict_put by fast
  moreover have "set ?res \<subseteq> set (map fst (by_name ix)) - {rg_name r}"
    by (rule resolve_tails_known) (rule assms(2))
  ultimately show "case e of (r, ts) \<Rightarrow> set ts \<subseteq> set (map fst (by_name ix)) - {r}"
    using assms(1) unfolding edges_wf_def by auto
qed

lemma index_regions_no_edges: "tail_calls (index_regions macros texts) = []"
proof -
  have region: "tail_calls (fold (index_region b) rs ix) = tail_calls ix" for b rs ix
    by (induction rs arbitrary: ix) (simp_all add: index_region_def Let_def)
  have "tail_calls (fold (\<lambda>(path, text). fold (index_region b) (scan_regions text path c)) ts ix) = tail_calls ix"
    for b c ts ix
    by (induction ts arbitrary: ix) (simp_all add: region split: prod.splits)
  then show ?thesis by (simp add: index_regions_def)
qed

text \<open>
  Every tail call of the index leads to a region the index knows, and never back to
  the region that makes it: a plain \<open>b\<close> to a label in the middle of another function is
  an edge to the function that owns the label.
\<close>

theorem index_tail_calls_known:
  "edges_wf (index_source root macros texts)"
proof -
  let ?ix = "index_regions macros texts"
  define ow where "ow = label_owner (ix_regions ?ix)"
  have ow: "n \<in> set (map fst (by_name ?ix))" if "map_of ow k = Some n" for k n
    unfolding index_regions_names by (rule label_owner_range) (use that in \<open>simp add: ow_def\<close>)
  have step: "edges_wf (fold (call_edges root macros (set (map fst (by_name ?ix))) ow) rs ix)
      \<and> by_name (fold (call_edges root macros (set (map fst (by_name ?ix))) ow) rs ix) = by_name ?ix"
    if "edges_wf ix" "by_name ix = by_name ?ix" for rs ix
    using that
  proof (induction rs arbitrary: ix)
    case (Cons r rs)
    show ?case unfolding fold_simps
      by (rule Cons.IH) (use call_edges_wf [OF Cons.prems(1), of ow] Cons.prems(2) ow
          in \<open>simp_all only: call_edges_fields\<close>)
  qed simp
  have "edges_wf ?ix" by (simp add: edges_wf_def index_regions_no_edges)
  from step [OF this refl, of "ix_regions ?ix"] show ?thesis
    unfolding index_source_def Let_def ow_def by (elim conjE) (simp add: edges_wf_def)
qed

end
