(* ===== verification/Flow.thy ===== *)
theory Flow
  imports Sarm_Prelude
begin

text \<open>
  The dataflow loops of the scripts: a sweep visits the instructions in some order and
  recomputes the facts at each of them from its neighbours, and sweeps are repeated until
  one changes nothing or a fixed number has been made. The locale \<open>bit_sweep\<close> is the
  contract of such a sweep on one bit of the facts (the flags are live at an
  instruction, a register is live, a definition reaches); its lemmas say that as many
  sweeps as there are instructions compute the bit exactly, that is, a bit is set if and
  only if a path leads from it to a place that generates it.
\<close>

section \<open>Sweeps\<close>

fun sweep_step :: "('i \<Rightarrow> 's \<Rightarrow> 's) \<Rightarrow> 'i \<Rightarrow> 's \<times> bool \<Rightarrow> 's \<times> bool" where
  "sweep_step step i (s, changed) = (let s' = step i s in (s', changed \<or> s' \<noteq> s))"

definition sweep :: "('i \<Rightarrow> 's \<Rightarrow> 's) \<Rightarrow> 'i list \<Rightarrow> 's \<Rightarrow> 's \<times> bool" where
  "sweep step ord s = fold (sweep_step step) ord (s, False)"

lemma sweep_fold:
  "fold (sweep_step step) ord (s, ch) = (fold step ord s, ch \<or> snd (sweep step ord s))
   \<and> (\<not> snd (sweep step ord s) \<longrightarrow> fold step ord s = s)"
proof (induction ord arbitrary: s ch)
  case Nil
  then show ?case by (simp add: sweep_def)
next
  case (Cons i ord)
  have "snd (sweep step (i # ord) s) \<longleftrightarrow> step i s \<noteq> s \<or> snd (sweep step ord (step i s))"
    using Cons [of "step i s" "step i s \<noteq> s"] by (simp add: sweep_def Let_def)
  then show ?case
    using Cons [of "step i s" "ch \<or> step i s \<noteq> s"] by (auto simp: Let_def)
qed

lemma fst_sweep: "fst (sweep step ord s) = fold step ord s"
  unfolding sweep_def by (simp only: sweep_fold [THEN conjunct1] fst_conv)

lemma sweep_unchanged: "\<not> snd (sweep step ord s) \<Longrightarrow> fold step ord s = s"
  using sweep_fold [of step ord s] by blast

lemma bounded_loop_power:
  assumes "\<And>s. \<not> snd (f s) \<Longrightarrow> fst (f s) = s"
  shows "bounded_loop k f s = ((fst \<circ> f) ^^ k) s"
proof (induction k arbitrary: s)
  case (Suc k)
  have stay: "((fst \<circ> f) ^^ m) s = s" if "fst (f s) = s" for m
    using that by (induction m) simp_all
  show ?case
  proof (cases "snd (f s)")
    case True
    then show ?thesis
      using Suc by (simp add: case_prod_beta funpow_swap1 [of "fst \<circ> f", unfolded comp_apply, symmetric])

  next
    case False
    then have "bounded_loop (Suc k) f s = s" using assms [of s] by (simp add: case_prod_beta)
    then show ?thesis using stay [OF assms [OF False], of "Suc k"] by (simp only:)
  qed
qed simp

lemma sweep_loop: "bounded_loop k (sweep step ord) s = (fold step ord ^^ k) s"
proof -
  have "fst \<circ> sweep step ord = fold step ord" by (simp add: fun_eq_iff fst_sweep)
  then show ?thesis
    by (subst bounded_loop_power) (simp_all add: fst_sweep sweep_unchanged)
qed

text \<open>A loop that left by \<open>break\<close> ended in a state that a sweep does not change.\<close>

lemma sweep_stable:
  assumes "loop_converges k (sweep step ord) s"
  shows "fold step ord (bounded_loop k (sweep step ord) s) = bounded_loop k (sweep step ord) s"
proof -
  obtain s' where s': "sweep step ord s' = (bounded_loop k (sweep step ord) s, False)"
    using bounded_loop_converged [OF assms, of "\<lambda>_. True"] by auto
  then have "fold step ord s' = s'" by (intro sweep_unchanged) simp
  moreover have "fold step ord s' = bounded_loop k (sweep step ord) s"
    using s' fst_sweep [of step ord s'] by simp
  ultimately show ?thesis by simp
qed

section \<open>One bit of a sweep\<close>

locale bit_sweep =
  fixes n :: nat and nbrs :: "nat \<Rightarrow> nat list" and gen :: "nat \<Rightarrow> bool" and pass :: "nat \<Rightarrow> bool"
    and bit :: "'s \<Rightarrow> nat \<Rightarrow> bool" and step :: "nat \<Rightarrow> 's \<Rightarrow> 's" and ord :: "nat list" and inv :: "'s \<Rightarrow> bool"
  assumes nbrs_less: "\<And>i j. i < n \<Longrightarrow> j \<in> set (nbrs i) \<Longrightarrow> j < n"
    and ord: "set ord = {..<n}"
    and step_inv: "\<And>i s. i < n \<Longrightarrow> inv s \<Longrightarrow> inv (step i s)"
    and step_bit: "\<And>i j s. i < n \<Longrightarrow> j < n \<Longrightarrow> inv s \<Longrightarrow>
      bit (step i s) j = (if j = i then gen i \<or> (pass i \<and> (\<exists>k \<in> set (nbrs i). bit s k)) else bit s j)"
begin

text \<open>The bit as a property of paths.\<close>

inductive flows :: "nat \<Rightarrow> bool" where
  here: "i < n \<Longrightarrow> gen i \<Longrightarrow> flows i"
| along: "i < n \<Longrightarrow> pass i \<Longrightarrow> j \<in> set (nbrs i) \<Longrightarrow> flows j \<Longrightarrow> flows i"

definition upto :: "nat \<Rightarrow> nat set" where
  "upto k = ((\<lambda>X. {i. i < n \<and> (gen i \<or> (pass i \<and> (\<exists>j \<in> set (nbrs i). j \<in> X)))}) ^^ k) {}"

lemma upto_Suc: "upto (Suc k) = {i. i < n \<and> (gen i \<or> (pass i \<and> (\<exists>j \<in> set (nbrs i). j \<in> upto k)))}"
  by (simp add: upto_def)

lemma upto_subset: "upto k \<subseteq> {..<n}"
  by (cases k) (auto simp: upto_def upto_Suc)

lemma upto_mono_Suc: "upto k \<subseteq> upto (Suc k)"
  by (induction k) (auto simp: upto_Suc, auto simp: upto_def)

lemma upto_mono: "k \<le> m \<Longrightarrow> upto k \<subseteq> upto m"
  by (rule lift_Suc_mono_le [of upto]) (use upto_mono_Suc in auto)

lemma upto_stable_add: "upto (Suc k) = upto k \<Longrightarrow> upto (k + m) = upto k"
  by (induction m) (simp_all add: upto_Suc)

text \<open>The chain grows by one instruction at least until it stops growing.\<close>

lemma upto_grows: "(\<exists>j < k. upto (Suc j) = upto j) \<or> k \<le> card (upto k)"
proof (induction k)
  case (Suc k)
  show ?case
  proof (cases "\<exists>j < Suc k. upto (Suc j) = upto j")
    case False
    then have "upto k \<subset> upto (Suc k)" using upto_mono_Suc [of k] by blast
    then have "card (upto k) < card (upto (Suc k))"
      by (rule psubset_card_mono [rotated]) (rule finite_subset [OF upto_subset], simp)
    moreover have "k \<le> card (upto k)" using Suc False less_SucI by blast
    ultimately show ?thesis by simp
  qed simp
qed simp

lemma upto_stable: "upto (Suc n) = upto n"
proof -
  have "\<exists>j \<le> n. upto (Suc j) = upto j"
  proof (rule ccontr)
    assume no: "\<not> (\<exists>j \<le> n. upto (Suc j) = upto j)"
    then have "Suc n \<le> card (upto (Suc n))" using upto_grows [of "Suc n"] less_Suc_eq_le by blast
    moreover have "card (upto (Suc n)) \<le> n"
      using card_mono [OF _ upto_subset [of "Suc n"]] by simp
    ultimately show False by simp
  qed
  then obtain j where j: "j \<le> n" "upto (Suc j) = upto j" by blast
  then show ?thesis
    using upto_stable_add [of j "n - j"] upto_stable_add [of j "Suc n - j"] by simp
qed

lemma upto_flows: "i \<in> upto k \<Longrightarrow> flows i"
  by (induction k arbitrary: i) (auto simp: upto_Suc intro: flows.intros, auto simp: upto_def)

lemma flows_upto: "flows i \<Longrightarrow> i \<in> upto n"
  by (induction rule: flows.induct) (subst upto_stable [symmetric], auto simp: upto_Suc)+

lemma flows_iff: "flows i \<longleftrightarrow> i \<in> upto n"
  using flows_upto upto_flows by blast

text \<open>What a sweep keeps: sound bits, and every bit of the chain so far.\<close>

lemma steps_bits:
  assumes "inv s" and "set xs \<subseteq> {..<n}"
    and "\<And>i. i < n \<Longrightarrow> bit s i \<Longrightarrow> flows i"
    and "\<And>i. i \<in> upto k \<Longrightarrow> bit s i"
  shows "inv (fold step xs s)"
    and "\<And>i. i < n \<Longrightarrow> bit (fold step xs s) i \<Longrightarrow> flows i"
    and "\<And>i. i \<in> upto k \<or> (i \<in> upto (Suc k) \<and> i \<in> set xs) \<Longrightarrow> bit (fold step xs s) i"
proof -
  have "inv (fold step xs s) \<and> (\<forall>i < n. bit (fold step xs s) i \<longrightarrow> flows i)
      \<and> (\<forall>i. i \<in> upto k \<or> (i \<in> upto (Suc k) \<and> (i \<in> set xs \<or> bit s i)) \<longrightarrow> bit (fold step xs s) i)"
    using assms
  proof (induction xs arbitrary: s)
    case Nil
    then show ?case by auto
  next
    case (Cons x xs)
    have x: "x < n" using Cons.prems(2) by simp
    note bit = step_bit [OF x _ Cons.prems(1)]
    have inv: "inv (step x s)" using step_inv x Cons.prems(1) by simp
    have sound: "flows i" if "i < n" "bit (step x s) i" for i
      using that Cons.prems(3) x nbrs_less flows.intros
      by (cases "i = x") (auto simp: bit)
    have kept: "bit (step x s) i" if "i \<in> upto k" for i
    proof -
      have "i \<in> upto (Suc k)" using that upto_mono_Suc by blast
      then show ?thesis
        using that Cons.prems(4) upto_subset [of k] by (cases "i = x") (auto simp: bit upto_Suc)
    qed
    have new: "bit (step x s) x" if "x \<in> upto (Suc k)"
      using that Cons.prems(4) x by (auto simp: bit upto_Suc)
    have old: "bit (step x s) i" if "i \<in> upto (Suc k)" "bit s i" for i
      using that new upto_subset [of "Suc k"] by (cases "i = x") (auto simp: bit)
    show ?case
      using Cons.IH [OF inv _ sound kept] Cons.prems(2) new old by auto
  qed
  then show "inv (fold step xs s)" "\<And>i. i < n \<Longrightarrow> bit (fold step xs s) i \<Longrightarrow> flows i"
    "\<And>i. i \<in> upto k \<or> (i \<in> upto (Suc k) \<and> i \<in> set xs) \<Longrightarrow> bit (fold step xs s) i"
    by blast+
qed

lemma sweeps_bits:
  assumes "inv s" and "\<And>i. i < n \<Longrightarrow> bit s i \<Longrightarrow> flows i"
  shows "inv ((fold step ord ^^ k) s)"
    and "\<And>i. i < n \<Longrightarrow> bit ((fold step ord ^^ k) s) i \<Longrightarrow> flows i"
    and "\<And>i. i \<in> upto k \<Longrightarrow> bit ((fold step ord ^^ k) s) i"
proof (induction k)
  case 0
  { case 1 show ?case using assms by simp }
  { case 2 then show ?case using assms by simp }
  { case 3 then show ?case by (simp add: upto_def) }
next
  case (Suc k)
  have sub: "set ord \<subseteq> {..<n}" by (simp add: ord)
  note st = steps_bits [OF Suc.IH(1) sub Suc.IH(2,3)]
  { case 1 show ?case using st(1) by simp }
  { case 2 then show ?case using st(2) by simp }
  { case 3 then show ?case using st(3) upto_subset [of "Suc k"] by (auto simp: ord) }
qed

text \<open>As many sweeps as there are instructions, or more, give the bit exactly.\<close>

theorem sweeps_exact:
  assumes "inv s" and "\<And>i. i < n \<Longrightarrow> bit s i \<Longrightarrow> flows i" and "n \<le> k" and "i < n"
  shows "bit ((fold step ord ^^ k) s) i \<longleftrightarrow> flows i"
proof
  show "flows i" if "bit ((fold step ord ^^ k) s) i"
    using sweeps_bits(2) [OF assms(1,2)] assms(4) that by blast
  show "bit ((fold step ord ^^ k) s) i" if "flows i"
    using sweeps_bits(3) [OF assms(1,2)] flows_upto [OF that] upto_mono [OF assms(3)] by blast
qed

lemma loop_exact:
  assumes "inv s" and "\<And>i. i < n \<Longrightarrow> bit s i \<Longrightarrow> flows i" and "n \<le> k" and "i < n"
  shows "bit (bounded_loop k (sweep step ord) s) i \<longleftrightarrow> flows i"
  unfolding sweep_loop by (rule sweeps_exact [OF assms])

lemma loop_inv: "inv s \<Longrightarrow> inv (bounded_loop k (sweep step ord) s)"
proof -
  have "inv s \<Longrightarrow> inv (fold step xs s)" if "set xs \<subseteq> {..<n}" for xs s
    using that by (induction xs arbitrary: s) (simp_all add: step_inv)
  from this [of ord] show "inv s \<Longrightarrow> ?thesis"
    unfolding sweep_loop by (induction k) (simp_all add: ord)
qed

lemma step_exact:
  assumes "inv s" and "\<And>i. i < n \<Longrightarrow> bit s i \<longleftrightarrow> flows i" and "x < n" and "i < n"
  shows "bit (step x s) i \<longleftrightarrow> flows i"
proof (cases "i = x")
  case True
  have "flows x \<longleftrightarrow> gen x \<or> (pass x \<and> (\<exists>k \<in> set (nbrs x). flows k))"
    using assms(3) by (auto intro: flows.intros elim: flows.cases)
  then show ?thesis using step_bit [OF assms(3) assms(3,1)] assms(2,3) nbrs_less True by auto
qed (use step_bit [OF assms(3,4,1)] assms(2,4) in simp)

end

text \<open>
  A second fact at every instruction that the sweep computes from the bits of the
  neighbours: one sweep over exact bits makes it exact too.
\<close>

locale bit_sweep_obs = bit_sweep n nbrs gen pass bit step ord inv
  for n nbrs gen pass and bit :: "'s \<Rightarrow> nat \<Rightarrow> bool" and step ord inv +
  fixes obs :: "'s \<Rightarrow> nat \<Rightarrow> bool" and f :: "nat \<Rightarrow> bool \<Rightarrow> bool"
  assumes step_obs: "\<And>i j s. i < n \<Longrightarrow> j < n \<Longrightarrow> inv s \<Longrightarrow>
      obs (step i s) j = (if j = i then f i (\<exists>k \<in> set (nbrs i). bit s k) else obs s j)"
begin

lemma fold_obs:
  assumes "inv s" and "\<And>i. i < n \<Longrightarrow> bit s i \<longleftrightarrow> flows i" and "set xs \<subseteq> {..<n}" and "i < n"
    and "i \<in> set xs \<or> obs s i = f i (\<exists>k \<in> set (nbrs i). flows k)"
  shows "obs (fold step xs s) i = f i (\<exists>k \<in> set (nbrs i). flows k)"
  using assms
proof (induction xs arbitrary: s)
  case (Cons x xs)
  have x: "x < n" using Cons.prems(3) by simp
  have "(\<exists>k \<in> set (nbrs i). bit s k) = (\<exists>k \<in> set (nbrs i). flows k)"
    using Cons.prems(2,4) nbrs_less by blast
  then have "i \<in> set xs \<or> obs (step x s) i = f i (\<exists>k \<in> set (nbrs i). flows k)"
    using Cons.prems(5) step_obs [OF x Cons.prems(4,1)] by (cases "i = x") simp_all
  then show ?case
    using Cons.IH [OF step_inv [OF x Cons.prems(1)] step_exact [OF Cons.prems(1,2) x]] Cons.prems(3,4) by simp
qed simp

theorem loop_obs_exact:
  assumes "inv s" and "\<And>i. i < n \<Longrightarrow> bit s i \<Longrightarrow> flows i" and "Suc n \<le> k" and "i < n"
  shows "obs (bounded_loop k (sweep step ord) s) i = f i (\<exists>j \<in> set (nbrs i). flows j)"
proof -
  obtain m where k: "k = Suc m" "n \<le> m" using assms(3) by (cases k) auto
  show ?thesis unfolding sweep_loop k(1) funpow.simps comp_apply
    by (rule fold_obs) (use assms(4) k(2) in \<open>auto simp: ord sweeps_exact [OF assms(1,2)] intro: sweeps_bits(1) [OF assms(1,2)]\<close>)
qed

end

end
