(* ===== verification/Abi_Effect.thy ===== *)
theory Abi_Effect
  imports Asm_Regions Flow "HOL-Library.Char_ord" "HOL-Library.List_Lexorder"
begin

text \<open>
  The instruction semantics and the control flow graph of the ABI checker
  (\<open>scripts/abi.py\<close>: the mnemonic tables, \<open>effect\<close>, \<open>build_cfg\<close>, \<open>predecessors\<close>,
  \<open>back_edges\<close>). Python's sets of mnemonics are lists here, used for membership only.
  The lemmas show that the graph stays within the instructions and what its edges are.
\<close>

section \<open>Registers\<close>

definition numbered :: "string \<Rightarrow> nat list \<Rightarrow> string list" where
  "numbered p ns = map (\<lambda>i. p @ str_nat i) ns"

definition CALLEE_SAVED_GPR :: "string list" where
  "CALLEE_SAVED_GPR = numbered ''x'' [19..<29] @ [''x29'', ''x30'']"

definition CALLEE_SAVED_SIMD :: "string list" where
  "CALLEE_SAVED_SIMD = numbered ''v'' [8..<16]"

definition SIMD_ALIASES :: "(string, string) dict" where
  "SIMD_ALIASES = map (\<lambda>i. (''d'' @ str_nat i, ''v'' @ str_nat i)) [0..<32]
     @ map (\<lambda>i. (''q'' @ str_nat i, ''v'' @ str_nat i)) [0..<32]"

definition normalise_reg :: "string \<Rightarrow> string" where
  "normalise_reg reg = dict_getd SIMD_ALIASES reg reg"

definition tracked :: "string \<Rightarrow> bool" where
  "tracked reg =
     (let reg = normalise_reg reg in reg \<in> set CALLEE_SAVED_GPR \<or> reg \<in> set CALLEE_SAVED_SIMD)"

text \<open>The tables, evaluated once.\<close>

lemma CALLEE_SAVED_GPR_code [code]: "CALLEE_SAVED_GPR =
  [''x19'', ''x20'', ''x21'', ''x22'', ''x23'', ''x24'', ''x25'', ''x26'', ''x27'', ''x28'',
      ''x29'', ''x30'']"
  by code_simp

lemma CALLEE_SAVED_SIMD_code [code]: "CALLEE_SAVED_SIMD =
  [''v8'', ''v9'', ''v10'', ''v11'', ''v12'', ''v13'', ''v14'', ''v15'']"
  by code_simp

lemma SIMD_ALIASES_code [code]: "SIMD_ALIASES =
  [(''d0'', ''v0''), (''d1'', ''v1''), (''d2'', ''v2''), (''d3'', ''v3''), (''d4'', ''v4''),
      (''d5'', ''v5''), (''d6'', ''v6''), (''d7'', ''v7''), (''d8'', ''v8''), (''d9'', ''v9''),
      (''d10'', ''v10''), (''d11'', ''v11''), (''d12'', ''v12''), (''d13'', ''v13''),
      (''d14'', ''v14''), (''d15'', ''v15''), (''d16'', ''v16''), (''d17'', ''v17''),
      (''d18'', ''v18''), (''d19'', ''v19''), (''d20'', ''v20''), (''d21'', ''v21''),
      (''d22'', ''v22''), (''d23'', ''v23''), (''d24'', ''v24''), (''d25'', ''v25''),
      (''d26'', ''v26''), (''d27'', ''v27''), (''d28'', ''v28''), (''d29'', ''v29''),
      (''d30'', ''v30''), (''d31'', ''v31''), (''q0'', ''v0''), (''q1'', ''v1''), (''q2'', ''v2''),
      (''q3'', ''v3''), (''q4'', ''v4''), (''q5'', ''v5''), (''q6'', ''v6''), (''q7'', ''v7''),
      (''q8'', ''v8''), (''q9'', ''v9''), (''q10'', ''v10''), (''q11'', ''v11''),
      (''q12'', ''v12''), (''q13'', ''v13''), (''q14'', ''v14''), (''q15'', ''v15''),
      (''q16'', ''v16''), (''q17'', ''v17''), (''q18'', ''v18''), (''q19'', ''v19''),
      (''q20'', ''v20''), (''q21'', ''v21''), (''q22'', ''v22''), (''q23'', ''v23''),
      (''q24'', ''v24''), (''q25'', ''v25''), (''q26'', ''v26''), (''q27'', ''v27''),
      (''q28'', ''v28''), (''q29'', ''v29''), (''q30'', ''v30''), (''q31'', ''v31'')]"
  by code_simp

section \<open>Mnemonics\<close>

definition LOAD_MNEMONICS :: "string list" where
  "LOAD_MNEMONICS = [
    ''ldr'', ''ldp'', ''ldur'', ''ldrb'', ''ldrh'', ''ldrsb'', ''ldrsh'', ''ldrsw'', ''ldnp'',
     ''ldar'', ''ldxr'', ''ldaxr'', ''ldarh'', ''ldaxrh'', ''ldarb'', ''ldaxrb'', ''ldxp'',
     ''ldaxp'', ''ldursw'', ''ldurb'', ''ldurh'', ''ldursb'', ''ldursh'', ''ld1'', ''ld2'',
     ''ld3'', ''ld4'', ''ld1r'', ''ld2r'', ''ld3r'', ''ld4r'', ''ldadd'', ''ldclr'', ''ldeor'',
     ''ldset'', ''ldsmax'', ''ldsmin'', ''ldumax'', ''ldumin'']"

definition LOAD_PAIR :: "string list" where
  "LOAD_PAIR = [
    ''ldp'', ''ldnp'', ''ldxp'', ''ldaxp'']"

definition STORE_MNEMONICS :: "string list" where
  "STORE_MNEMONICS = [
    ''str'', ''stp'', ''stur'', ''strb'', ''strh'', ''stnp'', ''stlr'', ''stxr'', ''stlxp'',
     ''sturb'', ''sturh'', ''stlxr'', ''stxp'', ''st1'', ''st2'', ''st3'', ''st4'', ''stadd'',
     ''stclr'', ''steor'', ''stset'', ''stsmax'', ''stsmin'', ''stumax'', ''stumin'']"

definition STORE_PAIR :: "string list" where
  "STORE_PAIR = [
    ''stp'', ''stnp'', ''stxp'', ''stlxp'']"

definition COND_BRANCH :: "string list" where
  "COND_BRANCH = [
    ''b'', ''b.eq'', ''b.ne'', ''b.cs'', ''b.hs'', ''b.cc'', ''b.lo'', ''b.mi'', ''b.pl'',
     ''b.vs'', ''b.vc'', ''b.hi'', ''b.ls'', ''b.ge'', ''b.lt'', ''b.gt'', ''b.le'', ''b.al'',
     ''b.nv'', ''cbz'', ''cbnz'', ''tbz'', ''tbnz'']"

definition NO_DEST :: "string list" where
  "NO_DEST = [
    ''cmp'', ''cmn'', ''tst'', ''fcmp'', ''fcmpe'', ''fccmp'', ''fccmpe'', ''ccmp'', ''ccmn'',
     ''prfm'', ''nop'', ''dsb'', ''dmb'', ''isb'', ''clrex'', ''sev'', ''sevl'', ''wfe'',
     ''wfi'', ''yield'', ''hint'', ''brk'', ''svc'', ''eret'', ''at'', ''dc'', ''ic'',
     ''tlbi'', ''sys'', ''sysl'']"

definition FLAG_DEFS :: "string list" where
  "FLAG_DEFS = [
    ''adds'', ''adcs'', ''subs'', ''sbcs'', ''ands'', ''bics'', ''negs'', ''ngcs'', ''cmp'',
     ''cmn'', ''tst'', ''ccmp'', ''ccmn'', ''fcmp'', ''fcmpe'', ''fccmp'', ''fccmpe'',
     ''rmif'', ''setf8'', ''setf16'', ''cfinv'', ''msr'', ''bl'', ''blr'', ''svc'']"

definition FLAG_USES :: "string list" where
  "FLAG_USES = [
    ''adc'', ''adcs'', ''sbc'', ''sbcs'', ''ngc'', ''ngcs'', ''ccmp'', ''ccmn'', ''cfinv'',
     ''csel'', ''csinc'', ''csinv'', ''csneg'', ''cset'', ''csetm'', ''cinc'', ''cinv'',
     ''cneg'', ''fcsel'', ''mrs'']"

definition defines_flags :: "instruction \<Rightarrow> bool" where
  "defines_flags insn \<longleftrightarrow> mnemonic insn \<in> set FLAG_DEFS"

definition uses_flags :: "instruction \<Rightarrow> bool" where
  "uses_flags insn \<longleftrightarrow> mnemonic insn \<in> set FLAG_USES
     \<or> startswith (mnemonic insn) ''b.'' \<or> startswith (mnemonic insn) ''bc.''"

definition norm_text :: "instruction \<Rightarrow> string" where
  "norm_text insn = join '' '' (lower (mnemonic insn) # map lower (operands insn))"

section \<open>Effects\<close>

datatype branch_kind = BNone | BCond | BRet

record effect_info =
  loads :: "string list"
  stores :: "string list"
  dirtied :: "string list"
  sp_delta :: "int option"
  sp_restore :: bool
  is_call :: bool
  ret_reg :: "string option"
  br_reg :: "string option"
  branch :: branch_kind
  copy_from :: "string option"

definition no_effect :: effect_info where
  "no_effect = \<lparr>loads = [], stores = [], dirtied = [], sp_delta = None, sp_restore = False,
     is_call = False, ret_reg = None, br_reg = None, branch = BNone, copy_from = None\<rparr>"

definition PRE_INDEX_RE :: rx where
  "PRE_INDEX_RE = seqs [lit ''[sp,'', Star ws, lit ''#'', Grp 1 (Seq (Opt (chr CHR ''-'')) (rep1 digit)), lit '']!'']"

definition POST_INDEX_RE :: rx where
  "POST_INDEX_RE = seqs [lit ''[sp]'', Star ws, lit '','', Star ws, lit ''#'', Grp 1 (Seq (Opt (chr CHR ''-'')) (rep1 digit))]"

definition sp_delta_of :: "string list \<Rightarrow> int option" where
  "sp_delta_of ops =
     (let text = join '', '' ops in
      case re_search PRE_INDEX_RE text of
        Some g \<Rightarrow> Some (py_int (group_str g 1))
      | None \<Rightarrow> map_option (\<lambda>g. py_int (group_str g 1)) (re_search POST_INDEX_RE text))"

definition STACK_BASE_RE :: rx where
  "STACK_BASE_RE = seqs [WordB, Grp 1 (alts [lit ''sp'', lit ''x29'']), WordB]"

definition IMM_RE :: rx where
  "IMM_RE = seqs [Bos, chr CHR ''#'', Grp 1 (Seq (Opt (one_of ''+-'')) (rep1 digit))]"

definition first_regs :: "string list \<Rightarrow> string list" where
  "first_regs ops = (case ops of [] \<Rightarrow> [] | o1 # _ \<Rightarrow> regs_of o1)"

text \<open>The registers named by the data operands: a brace list, or the first \<open>k\<close> operands.\<close>

definition data_regs :: "nat \<Rightarrow> string list \<Rightarrow> string list" where
  "data_regs k ops =
     (if ops \<noteq> [] \<and> startswith (hd ops) ''{'' then regs_of (hd ops)
      else concat (map regs_of (take k ops)))"

definition load_address :: "nat \<Rightarrow> string list \<Rightarrow> string" where
  "load_address k ops =
     join '' '' (if ops \<noteq> [] \<and> startswith (hd ops) ''{'' then drop 1 ops else drop k ops)"

text \<open>The last branch of \<open>effect\<close>: the destination is the first operand.\<close>

definition default_effect :: "string list \<Rightarrow> effect_info" where
  "default_effect ops = no_effect\<lparr>dirtied := take 1 (first_regs ops)\<rparr>"

definition effect :: "instruction \<Rightarrow> effect_info" where
  "effect insn =
     (let m = mnemonic insn; ops = operands insn in
      if m \<in> set COND_BRANCH then no_effect\<lparr>branch := BCond\<rparr>
      else if m = ''ret'' then
        no_effect\<lparr>ret_reg := Some (case filter (\<lambda>r. startswith r ''x'') (first_regs ops) of
            [] \<Rightarrow> ''x30'' | r # _ \<Rightarrow> r), branch := BRet\<rparr>
      else if m = ''br'' then
        no_effect\<lparr>br_reg := Some (case first_regs ops of [] \<Rightarrow> ''x30'' | r # _ \<Rightarrow> r), branch := BRet\<rparr>
      else if m \<in> {''bl'', ''blr''} then
        no_effect\<lparr>is_call := True, dirtied := [''x30''], branch := (if m = ''blr'' then BCond else BNone)\<rparr>
      else if m = ''mov'' \<and> length ops \<ge> 2 then
        (if strip (ops ! 0) = ''sp'' then no_effect\<lparr>sp_restore := True\<rparr>
         else case regs_of (ops ! 0) of
           [] \<Rightarrow> no_effect
         | d # _ \<Rightarrow> no_effect\<lparr>dirtied := [d],
             copy_from := (case regs_of (ops ! 1) of [] \<Rightarrow> None | s # _ \<Rightarrow> Some s)\<rparr>)
      else if m \<in> {''movz'', ''movk'', ''movn'', ''adr'', ''adrp''} then default_effect ops
      else if m \<in> set LOAD_MNEMONICS then
        (let k = (if m \<in> set LOAD_PAIR then 2 else 1); loaded = data_regs k ops
         in (if re_found STACK_BASE_RE (load_address k ops)
             then no_effect\<lparr>loads := loaded, sp_delta := sp_delta_of ops\<rparr>
             else no_effect\<lparr>dirtied := loaded, sp_delta := sp_delta_of ops\<rparr>))
      else if m \<in> set STORE_MNEMONICS then
        no_effect\<lparr>stores := data_regs (if m \<in> set STORE_PAIR then 2 else 1) ops, sp_delta := sp_delta_of ops\<rparr>
      else if m \<in> {''sub'', ''add''} \<and> length ops \<ge> 3 \<and> ops ! 0 = ''sp'' \<and> ops ! 1 = ''sp'' then
        no_effect\<lparr>sp_delta := map_option (\<lambda>g. let v = py_int (group_str g 1) in if m = ''sub'' then - v else v)
            (re_match IMM_RE (ops ! 2))\<rparr>
      else if m \<in> set NO_DEST then no_effect
      else default_effect ops)"

section \<open>Control flow graph\<close>

definition succ_of :: "instruction list \<Rightarrow> labels \<Rightarrow> nat \<Rightarrow> nat list" where
  "succ_of insns labels i =
     (let n = length insns; insn = insns ! i; m = mnemonic insn; ops = operands insn;
          fallthrough = (if i + 1 < n then [i + 1] else [])
      in if m \<in> {''ret'', ''br'', ''eret''} then []
         else if m = ''b'' then
           (case (if ops \<noteq> [] then resolve_target (hd ops) labels i else None) of
              Some t \<Rightarrow> if t < n then [t] else []
            | None \<Rightarrow> [])
         else if m \<in> set COND_BRANCH then
           fallthrough @
           (case (if ops \<noteq> [] then resolve_target (last ops) labels i else None) of
              Some t \<Rightarrow> if t < n \<and> t \<noteq> i + 1 then [t] else []
            | None \<Rightarrow> [])
         else fallthrough)"

definition build_cfg :: "instruction list \<Rightarrow> labels \<Rightarrow> nat list list" where
  "build_cfg insns labels = map (succ_of insns labels) [0..<length insns]"

definition predecessors :: "nat list list \<Rightarrow> nat list list" where
  "predecessors succ =
     fold (\<lambda>i preds. fold (\<lambda>t preds. preds[t := preds ! t @ [i]]) (succ ! i) preds)
       [0..<length succ] (replicate (length succ) [])"

definition back_edges :: "nat list list \<Rightarrow> (nat \<times> nat) list" where
  "back_edges succ = concat (map (\<lambda>i. map (Pair i) (filter (\<lambda>t. t \<le> i) (succ ! i))) [0..<length succ])"

definition cfg_wf :: "nat list list \<Rightarrow> bool" where
  "cfg_wf succ \<longleftrightarrow> (\<forall>ts \<in> set succ. \<forall>t \<in> set ts. t < length succ)"

lemma cfg_wf_nth: "cfg_wf succ \<Longrightarrow> i < length succ \<Longrightarrow> t \<in> set (succ ! i) \<Longrightarrow> t < length succ"
  by (auto simp: cfg_wf_def)

lemma length_build_cfg [simp]: "length (build_cfg insns labels) = length insns"
  by (simp add: build_cfg_def)

lemma build_cfg_wf: "cfg_wf (build_cfg insns labels)"
  by (auto simp: cfg_wf_def build_cfg_def succ_of_def Let_def split: if_splits option.splits)

lemma pred_inner:
  assumes "\<forall>t \<in> set ts. t < length preds"
  shows "length (fold (\<lambda>t preds. preds[t := preds ! t @ [i]]) ts preds) = length preds
    \<and> (\<forall>t < length preds. set (fold (\<lambda>t preds. preds[t := preds ! t @ [i]]) ts preds ! t)
         = set (preds ! t) \<union> (if t \<in> set ts then {i} else {}))"
  using assms
  by (induction ts arbitrary: preds) (auto simp: nth_list_update)

lemma predecessors_spec:
  assumes "cfg_wf succ"
  shows "length (predecessors succ) = length succ
    \<and> (\<forall>t < length succ. set (predecessors succ ! t) = {i. i < length succ \<and> t \<in> set (succ ! i)})"
proof -
  let ?f = "\<lambda>i preds. fold (\<lambda>t preds. preds[t := preds ! t @ [i]]) (succ ! i) preds"
  have "length (fold ?f [0..<m] (replicate (length succ) [])) = length succ
      \<and> (\<forall>t < length succ. set (fold ?f [0..<m] (replicate (length succ) []) ! t) = {i. i < m \<and> t \<in> set (succ ! i)})"
    if "m \<le> length succ" for m
    using that
  proof (induction m)
    case (Suc m)
    then have len: "length (fold ?f [0..<m] (replicate (length succ) [])) = length succ" by simp
    have "\<forall>t \<in> set (succ ! m). t < length succ" using cfg_wf_nth [OF assms, of m] Suc.prems by auto
    then show ?case
      using Suc pred_inner [of "succ ! m" "fold ?f [0..<m] (replicate (length succ) [])" m]
      by (auto simp: len less_Suc_eq split: if_splits)
  qed simp
  then show ?thesis by (simp add: predecessors_def)
qed

lemma length_predecessors [simp]: "cfg_wf succ \<Longrightarrow> length (predecessors succ) = length succ"
  using predecessors_spec by blast

lemma set_predecessors:
  "cfg_wf succ \<Longrightarrow> t < length succ \<Longrightarrow> set (predecessors succ ! t) = {i. i < length succ \<and> t \<in> set (succ ! i)}"
  using predecessors_spec by blast

text \<open>
  The control flow graph is well formed for every instruction list and label map: its
  edges stay within the instructions, \<open>predecessors\<close> is its exact converse, the edges
  \<open>back_edges\<close> reports are exactly those that do not go forward, and every instruction
  but a return, an indirect branch and a plain \<open>b\<close> falls through.
\<close>

theorem cfg_edges:
  fixes insns :: "instruction list" and labels :: labels
  defines "succ \<equiv> build_cfg insns labels"
  shows "length succ = length insns
    \<and> (\<forall>i j. i < length insns \<longrightarrow> j \<in> set (succ ! i) \<longrightarrow> j < length insns \<and> i \<in> set (predecessors succ ! j))
    \<and> (\<forall>i j. j < length insns \<longrightarrow> i \<in> set (predecessors succ ! j) \<longrightarrow> i < length insns \<and> j \<in> set (succ ! i))
    \<and> set (back_edges succ) = {(i, j). i < length insns \<and> j \<in> set (succ ! i) \<and> j \<le> i}
    \<and> (\<forall>i. i + 1 < length insns \<longrightarrow> mnemonic (insns ! i) \<notin> {''ret'', ''br'', ''eret'', ''b''} \<longrightarrow> i + 1 \<in> set (succ ! i))"
proof -
  have wf: "cfg_wf succ" and len: "length succ = length insns" by (simp_all add: succ_def build_cfg_wf)
  have "i + 1 \<in> set (succ ! i)"
    if "i + 1 < length insns" "mnemonic (insns ! i) \<notin> {''ret'', ''br'', ''eret'', ''b''}" for i
    using that by (simp add: succ_def build_cfg_def succ_of_def Let_def)
  then show ?thesis
    using cfg_wf_nth [OF wf] set_predecessors [OF wf] len by (auto simp: back_edges_def)
qed

definition two_insns :: "instruction list" where
  "two_insns = [\<lparr>insn_line = 1, insn_text = ''mov x0, #1'', mnemonic = ''mov'', operands = [''x0'', ''#1'']\<rparr>,
     \<lparr>insn_line = 2, insn_text = ''ret'', mnemonic = ''ret'', operands = []\<rparr>]"

theorem cfg_edges_witness:
  "length (build_cfg two_insns []) = 2 \<and> 0 \<in> set (predecessors (build_cfg two_insns []) ! 1)"
  using cfg_edges [of two_insns "[]"] by (auto simp: two_insns_def)

end
