(* ===== verification/Abi_Flags.thy ===== *)
theory Abi_Flags
  imports Abi_Effect
begin

text \<open>
  The analysis of the condition flags in the ABI checker (\<open>scripts/abi.py\<close>:
  \<open>FlagAnalysis\<close>, \<open>analyse_flags\<close>): backward liveness and forward reaching definitions,
  each \<open>n + 2\<close> sweeps at most. Both are instances of \<open>Flow.bit_sweep_obs\<close>, and the
  theorems say that the result is exact: the flags are live where a path leads to a
  reader, and a definition reaches a use where a path without another definition leads
  from it.
\<close>

section \<open>Definitions\<close>

record flag_analysis =
  live_in :: "bool list"
  live_out :: "bool list"
  reaching :: "(int, nat set) dict"
  rets :: "nat list"
  fa_carry_abi :: bool

definition live_at_ret :: "flag_analysis \<Rightarrow> bool" where
  "live_at_ret fa \<longleftrightarrow> fa_carry_abi fa \<and> rets fa \<noteq> []"

definition use_key :: "instruction list \<Rightarrow> int \<Rightarrow> string" where
  "use_key insns use = (if use = - 1 then ''ret'' else norm_text (insns ! nat use))"

definition signature_of :: "flag_analysis \<Rightarrow> instruction list \<Rightarrow> (string, string set) dict" where
  "signature_of fa insns =
     fold (\<lambda>(use, defs) out.
         let key = use_key insns use; texts = (\<lambda>d. norm_text (insns ! d)) ` defs
         in dict_put key (dict_getd out key {} \<union> texts) out)
       (reaching fa) []"

text \<open>Exits: \<open>ret\<close>, and a branch that leaves the region.\<close>

definition flag_exits :: "instruction list \<Rightarrow> nat list list \<Rightarrow> nat list" where
  "flag_exits insns succ =
     filter (\<lambda>i. mnemonic (insns ! i) = ''ret'' \<or> (mnemonic (insns ! i) \<in> {''b'', ''br''} \<and> succ ! i = []))
       [0..<length insns]"

definition live_step :: "instruction list \<Rightarrow> nat list list \<Rightarrow> nat list \<Rightarrow> bool \<Rightarrow> nat
    \<Rightarrow> bool list \<times> bool list \<Rightarrow> bool list \<times> bool list" where
  "live_step insns succ exits carry i = (\<lambda>(lin, lout).
     let out = (if i \<in> set exits then carry else list_ex (\<lambda>s. lin ! s) (succ ! i));
         new_in = uses_flags (insns ! i) \<or> (out \<and> \<not> defines_flags (insns ! i))
     in (lin[i := new_in], lout[i := out]))"

definition reach_step :: "instruction list \<Rightarrow> nat list list \<Rightarrow> nat
    \<Rightarrow> nat set list \<times> nat set list \<Rightarrow> nat set list \<times> nat set list" where
  "reach_step insns preds i = (\<lambda>(rin, rout).
     let new_in = fold (\<lambda>p acc. acc \<union> rout ! p) (preds ! i) {};
         new_out = (if defines_flags (insns ! i) then {i} else new_in)
     in (rin[i := new_in], rout[i := new_out]))"

definition flag_liveness :: "instruction list \<Rightarrow> nat list list \<Rightarrow> bool \<Rightarrow> bool list \<times> bool list" where
  "flag_liveness insns succ carry =
     (let n = length insns in
      bounded_loop (n + 2) (sweep (live_step insns succ (flag_exits insns succ) carry) (rev [0..<n]))
        (replicate n False, replicate n False))"

definition flag_reaching :: "instruction list \<Rightarrow> nat list list \<Rightarrow> nat set list \<times> nat set list" where
  "flag_reaching insns succ =
     (let n = length insns in
      bounded_loop (n + 2) (sweep (reach_step insns (predecessors succ)) [0..<n])
        (replicate n {}, replicate n {}))"

definition analyse_flags :: "instruction list \<Rightarrow> nat list list \<Rightarrow> bool \<Rightarrow> flag_analysis" where
  "analyse_flags insns succ carry =
     (let n = length insns;
          exits = flag_exits insns succ;
          (lin, lout) = flag_liveness insns succ carry;
          (rin, rout) = flag_reaching insns succ;
          uses = map (\<lambda>i. (int i, rin ! i)) (filter (\<lambda>i. uses_flags (insns ! i)) [0..<n]);
          at_ret = (if carry then [(- 1, fold (\<lambda>r acc. acc \<union> rin ! r) exits {})] else [])
      in \<lparr>live_in = lin, live_out = lout, reaching = uses @ at_ret, rets = exits, fa_carry_abi = carry\<rparr>)"

section \<open>Liveness is exact\<close>

text \<open>The flags are live into an instruction: a path without a definition leads to a reader.\<close>

inductive flags_live :: "instruction list \<Rightarrow> nat list list \<Rightarrow> bool \<Rightarrow> nat \<Rightarrow> bool"
  for insns succ carry where
  read: "i < length insns \<Longrightarrow> uses_flags (insns ! i) \<Longrightarrow> flags_live insns succ carry i"
| returned: "i \<in> set (flag_exits insns succ) \<Longrightarrow> carry \<Longrightarrow> \<not> defines_flags (insns ! i) \<Longrightarrow> flags_live insns succ carry i"
| along: "i < length insns \<Longrightarrow> i \<notin> set (flag_exits insns succ) \<Longrightarrow> \<not> defines_flags (insns ! i) \<Longrightarrow> j \<in> set (succ ! i)
     \<Longrightarrow> flags_live insns succ carry j \<Longrightarrow> flags_live insns succ carry i"

lemma flag_exits_less: "i \<in> set (flag_exits insns succ) \<Longrightarrow> i < length insns"
  by (simp add: flag_exits_def)

interpretation fl: bit_sweep_obs "length insns" "\<lambda>i. build_cfg insns labels ! i"
  "\<lambda>i. uses_flags (insns ! i) \<or> (i \<in> set (flag_exits insns (build_cfg insns labels)) \<and> carry \<and> \<not> defines_flags (insns ! i))"
  "\<lambda>i. i \<notin> set (flag_exits insns (build_cfg insns labels)) \<and> \<not> defines_flags (insns ! i)"
  "\<lambda>st i. fst st ! i" "live_step insns (build_cfg insns labels) (flag_exits insns (build_cfg insns labels)) carry"
  "rev [0..<length insns]" "\<lambda>st. length (fst st) = length insns \<and> length (snd st) = length insns"
  "\<lambda>st i. snd st ! i" "\<lambda>i b. if i \<in> set (flag_exits insns (build_cfg insns labels)) then carry else b"
  for insns labels carry
proof (unfold_locales, goal_cases)
  case (1 i j)
  then show ?case using cfg_wf_nth [OF build_cfg_wf, of i insns labels j] by simp
next
  case 2
  then show ?case by auto
qed (auto simp: live_step_def Let_def nth_list_update list_ex_iff split: prod.splits)

lemma flags_live_eq: "fl.flows insns labels carry = flags_live insns (build_cfg insns labels) carry"
proof (intro ext iffI)
  fix i
  assume "fl.flows insns labels carry i"
  then show "flags_live insns (build_cfg insns labels) carry i"
    by (induction rule: fl.flows.induct) (auto intro: flags_live.intros)
next
  fix i
  assume "flags_live insns (build_cfg insns labels) carry i"
  then show "fl.flows insns labels carry i"
  proof (induction rule: flags_live.induct)
    case (along i j)
    show ?case
      by (rule fl.flows.along [OF along.hyps(1) _ along.hyps(4) along.IH]) (use along.hyps(2,3) in simp)
  qed (rule fl.flows.here; use flag_exits_less in blast)+
qed

text \<open>
  C10. The liveness of the flags is exact: after the \<open>n + 2\<close> sweeps the flags are marked live
  into an instruction if and only if some path from it, without a flag-writing
  instruction, reaches a reader of the flags or, for a function that returns its status
  in the carry, an exit; and live out of it if and only if they are live into a successor,
  or it is such an exit.
\<close>

theorem flag_liveness_exact:
  fixes insns :: "instruction list" and labels :: labels
  defines "succ \<equiv> build_cfg insns labels"
  assumes "i < length insns"
  shows "(live_in (analyse_flags insns succ carry) ! i \<longleftrightarrow> flags_live insns succ carry i)
    \<and> (live_out (analyse_flags insns succ carry) ! i \<longleftrightarrow>
      (if i \<in> set (flag_exits insns succ) then carry else (\<exists>j \<in> set (succ ! i). flags_live insns succ carry j)))"
proof -
  let ?st = "flag_liveness insns succ carry"
  have fields: "live_in (analyse_flags insns succ carry) = fst ?st" "live_out (analyse_flags insns succ carry) = snd ?st"
    by (simp_all add: analyse_flags_def Let_def split: prod.splits)
  note exact = fl.loop_exact [where s = "(replicate (length insns) False, replicate (length insns) False)" and k = "length insns + 2" and i = i and insns = insns and labels = labels and carry = carry]
    fl.loop_obs_exact [where s = "(replicate (length insns) False, replicate (length insns) False)" and k = "length insns + 2" and i = i and insns = insns and labels = labels and carry = carry]
  show ?thesis
    unfolding fields unfolding flag_liveness_def Let_def succ_def
    using exact assms(2) by (simp add: flags_live_eq del: bounded_loop.simps add_2_eq_Suc')
qed

definition carry_example :: "instruction list \<times> labels" where
  "carry_example = parse_instructions (join [CHR 0x0A] [''cmp x0, #1'', ''b.eq 1f'', ''mov x0, #0'', ''1: ret''])"

theorem flag_liveness_exact_witness:
  "live_in (analyse_flags (fst carry_example) (build_cfg (fst carry_example) (snd carry_example)) True) ! 2
     \<longleftrightarrow> flags_live (fst carry_example) (build_cfg (fst carry_example) (snd carry_example)) True 2"
proof -
  have "2 < length (fst carry_example)" by code_simp
  from flag_liveness_exact [OF this] show ?thesis by blast
qed

section \<open>Reaching definitions are exact\<close>

text \<open>A definition reaches the entry of an instruction: a path from it meets no other definition.\<close>

inductive flag_reaches :: "instruction list \<Rightarrow> nat list list \<Rightarrow> nat \<Rightarrow> nat \<Rightarrow> bool"
  for insns succ d where
  set: "d < length insns \<Longrightarrow> defines_flags (insns ! d) \<Longrightarrow> i \<in> set (succ ! d) \<Longrightarrow> flag_reaches insns succ d i"
| kept: "flag_reaches insns succ d j \<Longrightarrow> j < length insns \<Longrightarrow> \<not> defines_flags (insns ! j) \<Longrightarrow> i \<in> set (succ ! j)
     \<Longrightarrow> flag_reaches insns succ d i"

lemma fold_union: "fold (\<lambda>p acc. acc \<union> g p) ps A = A \<union> (\<Union>p \<in> set ps. g p)"
  by (induction ps arbitrary: A) auto

interpretation fr: bit_sweep_obs "length insns" "\<lambda>i. predecessors (build_cfg insns labels) ! i"
  "\<lambda>i. defines_flags (insns ! i) \<and> i = d" "\<lambda>i. \<not> defines_flags (insns ! i)"
  "\<lambda>st i. d \<in> snd st ! i" "reach_step insns (predecessors (build_cfg insns labels))"
  "[0..<length insns]" "\<lambda>st. length (fst st) = length insns \<and> length (snd st) = length insns"
  "\<lambda>st i. d \<in> fst st ! i" "\<lambda>i b. b"
  for insns labels d
proof (unfold_locales, goal_cases)
  case (1 i j)
  then show ?case by (simp add: set_predecessors build_cfg_wf)
next
  case 2
  then show ?case by auto
qed (auto simp: reach_step_def Let_def nth_list_update fold_union split: prod.splits if_splits)

lemma flag_reaches_iff:
  assumes "i < length insns"
  shows "(\<exists>p \<in> set (predecessors (build_cfg insns labels) ! i). fr.flows insns labels d p)
    \<longleftrightarrow> flag_reaches insns (build_cfg insns labels) d i"
proof
  have "flag_reaches insns (build_cfg insns labels) d i" if "fr.flows insns labels d p" "i \<in> set (build_cfg insns labels ! p)" for p i
    using that
  proof (induction p arbitrary: i rule: fr.flows.induct)
    case (here p)
    then show ?case by (auto intro: flag_reaches.set)
  next
    case (along p q)
    have "p \<in> set (build_cfg insns labels ! q)"
      using along.hyps(1,3) by (simp add: set_predecessors build_cfg_wf)
    from along.IH [OF this] show ?case by (rule flag_reaches.kept) (use along in auto)
  qed
  then show "flag_reaches insns (build_cfg insns labels) d i"
    if "\<exists>p \<in> set (predecessors (build_cfg insns labels) ! i). fr.flows insns labels d p"
    using that assms by (auto simp: set_predecessors build_cfg_wf)
next
  assume "flag_reaches insns (build_cfg insns labels) d i"
  then show "\<exists>p \<in> set (predecessors (build_cfg insns labels) ! i). fr.flows insns labels d p"
    using assms
  proof (induction rule: flag_reaches.induct)
    case (set i)
    then have "fr.flows insns labels d d" by (auto intro: fr.flows.here)
    then show ?case using set by (auto simp: set_predecessors build_cfg_wf)
  next
    case (kept j i)
    then obtain p where "p \<in> set (predecessors (build_cfg insns labels) ! j)" "fr.flows insns labels d p" by blast
    then have "fr.flows insns labels d j" using kept by (auto intro: fr.flows.along)
    then show ?case using kept by (auto simp: set_predecessors build_cfg_wf)
  qed
qed

lemma flag_reaching_in:
  assumes "i < length insns"
  shows "d \<in> fst (flag_reaching insns (build_cfg insns labels)) ! i \<longleftrightarrow> flag_reaches insns (build_cfg insns labels) d i"
  using fr.loop_obs_exact [where s = "(replicate (length insns) {}, replicate (length insns) {})" and k = "length insns + 2" and i = i and insns = insns and labels = labels and d = d]
    assms by (simp add: flag_reaching_def Let_def flag_reaches_iff)

text \<open>
  The reaching definitions are exact: at every reader of the flags the analysis records
  precisely the flag-writing instructions from which a path without another one leads to
  it, and under the carry convention the synthetic use -1 has precisely those that reach
  some exit.
\<close>

theorem flag_reaching_exact:
  fixes insns :: "instruction list" and labels :: labels and carry :: bool
  defines "succ \<equiv> build_cfg insns labels"
  defines "fa \<equiv> analyse_flags insns succ carry"
  shows "map_of (reaching fa) (int i) =
      (if i < length insns \<and> uses_flags (insns ! i) then Some {d. flag_reaches insns succ d i} else None)
    \<and> map_of (reaching fa) (- 1) =
      (if carry then Some {d. \<exists>r \<in> set (flag_exits insns succ). flag_reaches insns succ d r} else None)"
proof -
  obtain rin rout where r: "flag_reaching insns succ = (rin, rout)" by fastforce
  have rin: "rin ! i = {d. flag_reaches insns succ d i}" if "i < length insns" for i
    using flag_reaching_in [OF that, of _ labels] r by (auto simp: succ_def)
  have reach: "reaching fa = map (\<lambda>i. (int i, rin ! i)) (filter (\<lambda>i. uses_flags (insns ! i)) [0..<length insns])
      @ (if carry then [(- 1, \<Union>x \<in> set (flag_exits insns succ). rin ! x)] else [])"
    by (simp add: fa_def analyse_flags_def Let_def r fold_union split: prod.splits)
  have uses: "map_of (map (\<lambda>i. (int i, rin ! i)) xs) (int i) = (if i \<in> set xs then Some (rin ! i) else None)" for xs i
    by (induction xs) auto
  have none: "map_of (map (\<lambda>i. (int i, rin ! i)) xs) (- 1) = None" for xs
    by (induction xs) auto
  have at_ret: "(\<Union>x \<in> set (flag_exits insns succ). rin ! x) = {d. \<exists>r \<in> set (flag_exits insns succ). flag_reaches insns succ d r}"
    using flag_exits_less by (fastforce simp: rin)
  show ?thesis
    by (auto simp: reach map_add_def uses none rin at_ret split: option.splits)
qed

end
