(* ===== verification/Abi_Check.thy ===== *)
theory Abi_Check
  imports Abi_Flags
begin

text \<open>
  The ABI checker (\<open>scripts/abi.py\<close>: \<open>State\<close>, \<open>join\<close>, \<open>apply_effect\<close>,
  \<open>check_function\<close>, \<open>_check_ret\<close>, \<open>_check_flags\<close>, \<open>check_region\<close>). The macros, which
  the script loads from the tree, are an argument. The theorems say what a clean report
  means for every path of the control flow graph, and where the checker misses a
  violation.
\<close>

section \<open>Dataflow state\<close>

record abi_state =
  dirty :: "string set"
  sp_net :: int
  saved_x30 :: bool
  called :: bool

definition clean_state :: abi_state where
  "clean_state = \<lparr>dirty = {}, sp_net = 0, saved_x30 = False, called = False\<rparr>"

definition join_two :: "abi_state \<Rightarrow> abi_state \<Rightarrow> abi_state" where
  "join_two other result =
     \<lparr>dirty = dirty result \<union> dirty other,
      sp_net = (if sp_net result \<noteq> sp_net other then - 1 else sp_net result),
      saved_x30 = (saved_x30 result \<or> saved_x30 other), called = (called result \<or> called other)\<rparr>"

definition join_states :: "abi_state list \<Rightarrow> abi_state" where
  "join_states states = (case states of [] \<Rightarrow> clean_state | s # ss \<Rightarrow> fold join_two ss s)"

definition discard_loads :: "string list \<Rightarrow> string set \<Rightarrow> string set" where
  "discard_loads regs d =
     fold (\<lambda>reg d. let reg = normalise_reg reg in if tracked reg then d - {reg} else d) regs d"

definition mark_dirtied :: "bool option \<Rightarrow> string list \<Rightarrow> string set \<Rightarrow> string set" where
  "mark_dirtied dirty_source regs d =
     fold (\<lambda>reg d. let reg = normalise_reg reg in
         if \<not> tracked reg then d
         else case dirty_source of
             Some src \<Rightarrow> if src then insert reg d else d - {reg}
           | None \<Rightarrow> insert reg d) regs d"

definition apply_effect :: "effect_info \<Rightarrow> abi_state \<Rightarrow> abi_state" where
  "apply_effect info st =
     (let d = discard_loads (loads info) (dirty st);
          saved = (saved_x30 st \<or> list_ex (\<lambda>r. normalise_reg r = ''x30'') (stores info));
          src = (case copy_from info of
                   Some r \<Rightarrow> if r \<noteq> [] \<and> tracked r then Some (normalise_reg r \<in> d) else None
                 | None \<Rightarrow> None);
          d = mark_dirtied src (dirtied info) d;
          d = (if is_call info then insert ''x30'' d else d);
          sp = (if sp_restore info then 0 else sp_net st);
          sp = (case sp_delta info of Some delta \<Rightarrow> if sp \<noteq> - 1 then sp + delta else sp | None \<Rightarrow> sp)
      in \<lparr>dirty = d, sp_net = sp, saved_x30 = saved, called = (called st \<or> is_call info)\<rparr>)"

definition after :: "abi_state \<Rightarrow> instruction \<Rightarrow> abi_state" where
  "after st insn = apply_effect (effect insn) st"

section \<open>Warnings\<close>

datatype severity = SError | SWarning

record abi_warning =
  severity :: severity
  message :: string
  wline :: "nat option"

definition warn :: "severity \<Rightarrow> string \<Rightarrow> nat option \<Rightarrow> abi_warning" where
  "warn s m l = \<lparr>severity = s, message = m, wline = l\<rparr>"

definition render :: "abi_warning \<Rightarrow> string" where
  "render w = ''  ['' @ (case severity w of SError \<Rightarrow> ''ERROR'' | SWarning \<Rightarrow> ''WARNING'') @ ''] '' @ message w
     @ (case wline w of Some l \<Rightarrow> if l \<noteq> 0 then '' (line '' @ str_nat l @ '')'' else [] | None \<Rightarrow> [])"

text \<open>The callee-saved registers but \<open>x30\<close>, sorted as strings.\<close>

definition RET_REGS :: "string list" where
  "RET_REGS = sort (filter (\<lambda>r. r \<noteq> ''x30'') CALLEE_SAVED_GPR @ CALLEE_SAVED_SIMD)"

definition unrestored_msg :: "string \<Rightarrow> string" where
  "unrestored_msg reg = ''modifies callee-saved '' @ reg @ '' but never restores it before ret''"

definition check_ret :: "abi_state \<Rightarrow> effect_info \<Rightarrow> instruction \<Rightarrow> abi_warning list" where
  "check_ret st info insn =
     (let line = Some (insn_line insn);
          reg = (case ret_reg info of Some r \<Rightarrow> r
                 | None \<Rightarrow> (case br_reg info of Some r \<Rightarrow> r | None \<Rightarrow> ''x30''))
      in (if reg \<in> dirty st \<and> reg \<noteq> ''x30''
          then [warn SError (''ret '' @ reg @ '' with '' @ reg @ '' dirty (modified but not restored)'') line] else [])
         @ map (\<lambda>r. warn SError (unrestored_msg r) line) (filter (\<lambda>r. r \<in> dirty st) RET_REGS)
         @ (if ''x30'' \<in> dirty st \<and> reg = ''x30''
            then [warn SError ''returns with x30 dirty (return address not restored before ret)'' line] else [])
         @ (if sp_net st = - 1
            then [warn SWarning ''could not verify SP restoration at ret (different paths disagree)'' line]
            else if sp_net st \<noteq> 0
            then [warn SError (''SP not restored at ret (net change '' @ str_signed (sp_net st) @ '')'') line]
            else []))"

section \<open>The forward analysis\<close>

definition is_reached :: "abi_state option list \<Rightarrow> nat \<Rightarrow> bool" where
  "is_reached entry p \<longleftrightarrow> entry ! p \<noteq> None"

definition after_at :: "instruction list \<Rightarrow> abi_state option list \<Rightarrow> nat \<Rightarrow> abi_state" where
  "after_at insns entry p = after (the (entry ! p)) (insns ! p)"

definition flow_step :: "instruction list \<Rightarrow> nat list list \<Rightarrow> nat \<Rightarrow> abi_state option list \<Rightarrow> abi_state option list" where
  "flow_step insns preds i entry =
     (if i = 0 then entry
      else let live_preds = filter (is_reached entry) (preds ! i)
           in if live_preds = [] then entry
              else entry[i := Some (join_states (map (after_at insns entry) live_preds))])"

definition flow_start :: "nat \<Rightarrow> abi_state option list" where
  "flow_start n = (replicate n None)[0 := Some clean_state]"

definition abi_flow :: "instruction list \<Rightarrow> labels \<Rightarrow> abi_state option list" where
  "abi_flow insns labels =
     (let n = length insns in
      bounded_loop (n + 2) (sweep (flow_step insns (predecessors (build_cfg insns labels))) [0..<n]) (flow_start n))"

definition check_at :: "instruction list \<Rightarrow> abi_state option list \<Rightarrow> nat \<Rightarrow> abi_warning list" where
  "check_at insns entry i = (case entry ! i of
       None \<Rightarrow> []
     | Some st \<Rightarrow> let info = effect (insns ! i) in if branch info = BRet then check_ret st info (insns ! i) else [])"

definition check_rets :: "instruction list \<Rightarrow> abi_state option list \<Rightarrow> abi_warning list" where
  "check_rets insns entry =
     concat (map (check_at insns entry) [0..<length insns])"

definition check_x30 :: "instruction list \<Rightarrow> abi_warning list" where
  "check_x30 insns =
     (if list_ex (\<lambda>i. mnemonic i \<in> {''bl'', ''blr''}) insns \<and> \<not> list_ex (\<lambda>i. ''x30'' \<in> set (stores (effect i))) insns
      then [warn SWarning (''function calls bl/blr but never saves x30 to the stack; ''
              @ ''x30 must be restored some other way before ret'') None]
      else [])"

definition misaligned :: "string \<Rightarrow> nat \<Rightarrow> abi_warning" where
  "misaligned amount line =
     warn SError (''SP adjusted by '' @ amount @ '' (not a multiple of 16) -- breaks 16-byte stack alignment'') (Some line)"

definition check_alignment :: "instruction list \<Rightarrow> abi_warning list" where
  "check_alignment insns =
     concat (map (\<lambda>insn.
         let ops = operands insn in
         if mnemonic insn \<notin> {''sub'', ''add''} \<or> length ops < 3 \<or> ops ! 0 \<noteq> ''sp'' then []
         else case re_match (Seq IMM_RE Eos) (strip (ops ! 2)) of
             Some g \<Rightarrow> if py_int (group_str g 1) mod 16 \<noteq> 0 then [misaligned (group_str g 1) (insn_line insn)] else []
           | None \<Rightarrow> []) insns)
     @ concat (map (\<lambda>insn.
         case sp_delta_of (operands insn) of
           Some delta \<Rightarrow> if delta mod 16 \<noteq> 0 then [misaligned (str_int delta) (insn_line insn)] else []
         | None \<Rightarrow> []) insns)"

definition detect_carry_abi :: "string \<Rightarrow> bool" where
  "detect_carry_abi source = re_found CARRY_RE source"

section \<open>The differential flag check\<close>

definition changed_msg :: "string \<Rightarrow> string list \<Rightarrow> string list \<Rightarrow> string" where
  "changed_msg use added removed =
     (let detail = (if added \<noteq> [] then [''now also reached by '' @ join ''; '' added] else [])
            @ (if removed \<noteq> [] then [''no longer reached by '' @ join ''; '' removed] else []);
          place = (if use = ''ret'' then ''the ret (carry-flag return value)'' else [CHR 0x27] @ use @ [CHR 0x27])
      in ''NZCV dependency changed: the condition flags read by '' @ place
         @ '' come from a different instruction than in the original ('' @ join '', '' detail
         @ '') -- a flag-clobbering instruction was moved or inserted into a live flag range'')"

definition compare_flags :: "(string, string set) dict \<Rightarrow> (string, string set) dict \<Rightarrow> abi_warning list" where
  "compare_flags before now =
     concat (map (\<lambda>(use, defs). case map_of now use of
         None \<Rightarrow> []
       | Some cur \<Rightarrow>
           if cur = defs then []
           else [warn SError (changed_msg use (sorted_list_of_set (cur - defs)) (sorted_list_of_set (defs - cur))) None])
       before)"

definition check_flags :: "macros \<Rightarrow> instruction list \<Rightarrow> flag_analysis \<Rightarrow> string option \<Rightarrow> bool \<Rightarrow> abi_warning list" where
  "check_flags macros insns flags original carry =
     (let real_rets = filter (\<lambda>i. mnemonic (insns ! i) = ''ret'') (rets flags);
          unset = (if carry \<and> map_of (reaching flags) (- 1) = Some {} \<and> real_rets \<noteq> []
            then [warn SWarning (''documents a carry-flag return but no instruction on the path ''
                    @ ''to ret writes NZCV; the returned status is the caller'' @ [CHR 0x27] @ ''s flags'')
                  (Some (insn_line (insns ! hd real_rets)))]
            else [])
      in case original of
           None \<Rightarrow> unset
         | Some text \<Rightarrow>
             (let (oinsns, olabels) = parse_instructions (expand_macros text macros 4)
              in if oinsns = [] then unset
                 else unset @ compare_flags
                   (signature_of (analyse_flags oinsns (build_cfg oinsns olabels) carry) oinsns)
                   (signature_of flags insns)))"

section \<open>The checker\<close>

definition check_function :: "macros \<Rightarrow> string \<Rightarrow> string option \<Rightarrow> bool option \<Rightarrow> abi_warning list" where
  "check_function macros source original carry_opt =
     (let (insns, labels) = parse_instructions (expand_macros source macros 4)
      in if insns = [] then [warn SError ''no instructions found in function'' None]
         else
           let carry = (case carry_opt of
                 Some c \<Rightarrow> c
               | None \<Rightarrow> detect_carry_abi source \<or> (case original of Some t \<Rightarrow> detect_carry_abi t | None \<Rightarrow> False))
           in check_rets insns (abi_flow insns labels)
              @ check_x30 insns
              @ check_alignment insns
              @ check_flags macros insns (analyse_flags insns (build_cfg insns labels) carry) original carry)"

definition saves_and_restores :: "string \<Rightarrow> string \<Rightarrow> macros \<Rightarrow> bool" where
  "saves_and_restores body reg macros =
     (let insns = fst (parse_instructions (expand_macros body macros 4))
      in list_ex (\<lambda>i. reg \<in> set (map normalise_reg (stores (effect i)))) insns
         \<and> list_ex (\<lambda>i. reg \<in> set (map normalise_reg (loads (effect i)))) insns)"

definition UNRESTORED_RE :: rx where
  "UNRESTORED_RE = seqs [lit ''modifies callee-saved '', Grp 1 (rep1 wordc), lit '' but never restores it before ret'']"

text \<open>
  \<open>check_region\<close>; a caller that is not in \<open>by_name\<close> is a \<open>KeyError\<close>, here \<open>None\<close>.
\<close>

definition unprotected_callers :: "source_index \<Rightarrow> (string \<times> string) list \<Rightarrow> string \<Rightarrow> string list option" where
  "unprotected_callers ix cs reg =
     fold (\<lambda>(name, _) acc. do {
         names \<leftarrow> acc;
         r \<leftarrow> map_of (by_name ix) name;
         Some (if saves_and_restores (analysis_body ix r) reg (ix_macros ix) then names else names @ [name])
       }) cs (Some [])"

definition judge_warning :: "source_index \<Rightarrow> (string \<times> string) list \<Rightarrow> abi_warning \<Rightarrow> abi_warning option" where
  "judge_warning ix cs w =
     (case re_search UNRESTORED_RE (message w) of
        Some g \<Rightarrow>
          if severity w \<noteq> SError \<or> cs = [] then Some w
          else do {
            let reg = normalise_reg (group_str g 1);
            unprotected \<leftarrow> unprotected_callers ix cs reg;
            Some (if unprotected \<noteq> []
              then w\<lparr>message := message w @ ''; caller(s) '' @ join '', '' (sort unprotected)
                       @ '' do not preserve '' @ reg @ '' either''\<rparr>
              else warn SWarning (''private region writes callee-saved '' @ reg @ '' without restoring it; all ''
                     @ str_nat (length cs) @ '' caller(s) ('' @ join '', '' (sort (map fst cs))
                     @ '') do preserve it, so this is a non-AAPCS internal contract, not a violation'') (wline w))
          }
      | None \<Rightarrow> Some w)"

fun judge_warnings :: "source_index \<Rightarrow> (string \<times> string) list \<Rightarrow> abi_warning list \<Rightarrow> abi_warning list option" where
  "judge_warnings ix cs [] = Some []"
| "judge_warnings ix cs (w # rest) = do {
     w' \<leftarrow> judge_warning ix cs w;
     rest' \<leftarrow> judge_warnings ix cs rest;
     Some (w' # rest')
   }"

definition check_region :: "macros \<Rightarrow> source_index \<Rightarrow> region \<Rightarrow> abi_warning list option" where
  "check_region macros ix r =
     (let found = check_function macros (analysis_body ix r) None (Some (carry_abi r))
      in if is_global r then Some found
         else judge_warnings ix (dict_getd (callers ix) (rg_name r) []) found)"

section \<open>Soundness\<close>

text \<open>
  The same effects along one path, with the stack pointer as an exact sum: no join, no
  sentinel.
\<close>

definition exact_effect :: "effect_info \<Rightarrow> abi_state \<Rightarrow> abi_state" where
  "exact_effect info st = (apply_effect info st)\<lparr>sp_net := (if sp_restore info then 0 else sp_net st)
     + (case sp_delta info of Some d \<Rightarrow> d | None \<Rightarrow> 0)\<rparr>"

inductive abi_path :: "instruction list \<Rightarrow> nat list list \<Rightarrow> nat \<Rightarrow> abi_state \<Rightarrow> bool" for insns succ where
  start: "insns \<noteq> [] \<Longrightarrow> abi_path insns succ 0 clean_state"
| step: "abi_path insns succ i st \<Longrightarrow> i < length insns \<Longrightarrow> j \<in> set (succ ! i)
     \<Longrightarrow> abi_path insns succ j (exact_effect (effect (insns ! i)) st)"

definition abi_converged :: "instruction list \<Rightarrow> labels \<Rightarrow> bool" where
  "abi_converged insns labels =
     (let n = length insns in
      loop_converges (n + 2) (sweep (flow_step insns (predecessors (build_cfg insns labels))) [0..<n]) (flow_start n))"

text \<open>An abstract state covers a path state.\<close>

definition covers :: "abi_state \<Rightarrow> abi_state \<Rightarrow> bool" where
  "covers e st \<longleftrightarrow> dirty st \<subseteq> dirty e \<and> (sp_net e = - 1 \<or> sp_net e = sp_net st)"

lemma discard_loads_mono: "d \<subseteq> d' \<Longrightarrow> discard_loads regs d \<subseteq> discard_loads regs d'"
  unfolding discard_loads_def
proof (induction regs arbitrary: d d')
  case (Cons r regs)
  show ?case unfolding fold_simps by (rule Cons.IH) (use Cons.prems in \<open>auto simp: Let_def\<close>)
qed simp

lemma mark_dirtied_mono:
  assumes "d \<subseteq> d'" and "src = src' \<or> (\<exists>b b'. src = Some b \<and> src' = Some b' \<and> (b \<longrightarrow> b'))"
  shows "mark_dirtied src regs d \<subseteq> mark_dirtied src' regs d'"
  using assms(1) unfolding mark_dirtied_def
proof (induction regs arbitrary: d d')
  case (Cons r regs)
  show ?case unfolding fold_simps
    by (rule Cons.IH) (use Cons.prems assms(2) in \<open>auto simp: Let_def split: option.splits\<close>)
qed simp

lemma covers_effect: "covers e st \<Longrightarrow> covers (apply_effect info e) (exact_effect info st)"
proof -
  assume cov: "covers e st"
  then have d: "discard_loads (loads info) (dirty st) \<subseteq> discard_loads (loads info) (dirty e)"
    by (intro discard_loads_mono) (simp add: covers_def)
  let ?src = "\<lambda>d. case copy_from info of
      Some r \<Rightarrow> if r \<noteq> [] \<and> tracked r then Some (normalise_reg r \<in> d) else None | None \<Rightarrow> None"
  have "mark_dirtied (?src (discard_loads (loads info) (dirty st))) (dirtied info) (discard_loads (loads info) (dirty st))
      \<subseteq> mark_dirtied (?src (discard_loads (loads info) (dirty e))) (dirtied info) (discard_loads (loads info) (dirty e))"
    by (rule mark_dirtied_mono [OF d]) (use d in \<open>auto split: option.splits\<close>)
  then have "dirty (exact_effect info st) \<subseteq> dirty (apply_effect info e)"
    by (auto simp: exact_effect_def apply_effect_def Let_def)
  then show ?thesis
    using cov by (auto simp: covers_def exact_effect_def apply_effect_def Let_def split: option.splits)
qed

lemma covers_join_two: "covers r st \<or> covers s st \<Longrightarrow> covers (join_two s r) st"
  by (auto simp: covers_def join_two_def)

lemma covers_join:
  assumes "s \<in> set ss" and "covers s st"
  shows "covers (join_states ss) st"
proof -
  have fold: "covers (fold join_two xs r) st" if "covers r st \<or> (\<exists>x \<in> set xs. covers x st)" for xs r
    using that by (induction xs arbitrary: r) (auto simp: covers_join_two)
  show ?thesis using assms fold by (cases ss) (auto simp: join_states_def)
qed


lemma flow_stable_nth:
  assumes "fold (flow_step insns preds) [0..<n] entry = entry" and "j < n" and "n \<le> length entry"
  shows "flow_step insns preds j entry = entry"
proof -
  have other: "flow_step insns preds i e ! k = e ! k" if "i \<noteq> k" for i k e
    using that by (simp add: flow_step_def Let_def)
  have "fold (flow_step insns preds) [0..<m] entry = entry" if "m \<le> n" for m
    using that
  proof (induction m)
    case (Suc m)
    define e where "e = flow_step insns preds m entry"
    have len: "length (fold (flow_step insns preds) xs e) = length e" for xs e
      by (induction xs arbitrary: e) (simp_all add: flow_step_def Let_def)
    have rest: "fold (flow_step insns preds) [Suc m..<n] e = entry"
      using Suc assms(1) upt_add_eq_append [of 0 m "n - m"] upt_conv_Cons [of m n] by (simp add: e_def)
    have keep: "fold (flow_step insns preds) xs e ! k = e ! k" if "k \<notin> set xs" for xs e k
      using that by (induction xs arbitrary: e) (simp_all add: other)
    have "e ! k = entry ! k" for k
      using keep [of m "[Suc m..<n]" e] rest other [of m k entry] by (cases "k = m") (simp_all add: e_def)
    moreover have "length e = length entry" by (simp add: e_def flow_step_def Let_def)
    ultimately have "e = entry" by (simp add: list_eq_iff_nth_eq)
    then show ?case using Suc by (simp add: e_def)
  qed simp
  from this [of j] this [of "Suc j"] show ?thesis using assms(2) by simp
qed

lemma length_abi_flow [simp]: "length (abi_flow insns labels) = length insns"
proof -
  have "length (fold (flow_step insns preds) xs e) = length e" for preds xs e
    by (induction xs arbitrary: e) (simp_all add: flow_step_def Let_def)
  then show ?thesis unfolding abi_flow_def Let_def
    by (intro bounded_loop_invariant [where P = "\<lambda>e. length e = length insns"])
      (simp_all add: flow_start_def fst_sweep)
qed

lemma abi_flow_entry: "insns \<noteq> [] \<Longrightarrow> abi_flow insns labels ! 0 = Some clean_state"
proof -
  have "fold (flow_step insns preds) xs e ! 0 = e ! 0" for preds xs e
    by (induction xs arbitrary: e) (simp_all add: flow_step_def Let_def)
  then show "insns \<noteq> [] \<Longrightarrow> ?thesis" unfolding abi_flow_def Let_def
    by (intro bounded_loop_invariant [where P = "\<lambda>e. e ! 0 = Some clean_state"])
      (simp_all add: flow_start_def fst_sweep)
qed

text \<open>A path that does not come back to the entry is covered by the converged analysis.\<close>

lemma abi_flow_covers:
  assumes "abi_converged insns labels" and "\<forall>i < length insns. 0 \<notin> set (build_cfg insns labels ! i)"
    and "abi_path insns (build_cfg insns labels) i st"
  shows "i < length insns \<and> (\<exists>e. abi_flow insns labels ! i = Some e \<and> covers e st)"
  using assms(3)
proof (induction rule: abi_path.induct)
  case start
  then show ?case by (simp add: abi_flow_entry covers_def)
next
  case (step i st j)
  let ?succ = "build_cfg insns labels" and ?entry = "abi_flow insns labels"
  let ?preds = "predecessors (build_cfg insns labels)"
  obtain e where e: "?entry ! i = Some e" "covers e st" using step.IH by blast
  have j: "j < length insns" using cfg_wf_nth [OF build_cfg_wf, of i insns labels j] step.hyps by simp
  have i: "i \<in> set (?preds ! j)" using step.hyps j by (simp add: set_predecessors build_cfg_wf)
  have "0 < j" using assms(2) step.hyps by (cases j) auto
  have "fold (flow_step insns ?preds) [0..<length insns] ?entry = ?entry"
    unfolding abi_flow_def Let_def
    by (rule sweep_stable) (use assms(1) in \<open>simp only: abi_converged_def Let_def\<close>)
  then have stable: "flow_step insns ?preds j ?entry = ?entry"
    by (rule flow_stable_nth [OF _ j]) simp
  define live where "live = filter (is_reached ?entry) (?preds ! j)"
  have live: "i \<in> set live" using i e by (simp add: live_def is_reached_def)
  have "flow_step insns ?preds j ?entry
      = ?entry[j := Some (join_states (map (after_at insns ?entry) live))]"
    unfolding flow_step_def live_def [symmetric] Let_def using \<open>0 < j\<close> live by auto
  then have at: "?entry ! j = Some (join_states (map (after_at insns ?entry) live))"
    unfolding stable using j by (metis length_abi_flow nth_list_update_eq)
  have "covers (after_at insns ?entry i) (exact_effect (effect (insns ! i)) st)"
    using e covers_effect by (simp add: after_at_def after_def)
  then have "covers (join_states (map (after_at insns ?entry) live)) (exact_effect (effect (insns ! i)) st)"
    using live by (intro covers_join) auto
  then show ?case using at j by blast
qed

lemma RET_REGS_set: "set RET_REGS = (set CALLEE_SAVED_GPR \<union> set CALLEE_SAVED_SIMD) - {''x30''}"
  by (auto simp: RET_REGS_def CALLEE_SAVED_SIMD_def numbered_def)


lemma check_ret_clean:
  assumes "check_ret e info insn = []" and "covers e st"
  shows "dirty st \<inter> (set CALLEE_SAVED_GPR \<union> set CALLEE_SAVED_SIMD - {''x30''}) = {}" and "sp_net st = 0"
    and "ret_reg info = Some ''x30'' \<Longrightarrow> ''x30'' \<notin> dirty st"
  using assms unfolding RET_REGS_set [symmetric]
  by (auto simp: check_ret_def Let_def covers_def filter_empty_conv split: if_splits)


definition loop_example :: string where
  "loop_example = join [CHR 0x0A] [''stp x19, x30, [sp, #-16]!'', ''1: mov x19, #1'', ''cbnz x0, 1b'',
     ''ldp x19, x30, [sp], #16'', ''ret'']"

definition ex_insns :: "instruction list" where
  "ex_insns =
    [\<lparr>insn_line = 1, insn_text = ''stp x19, x30, [sp, #-16]!'', mnemonic = ''stp'',
      operands = [''x19'', ''x30'', ''[sp, #-16]!'']\<rparr>,
     \<lparr>insn_line = 2, insn_text = ''1: mov x19, #1'', mnemonic = ''mov'', operands = [''x19'', ''#1'']\<rparr>,
     \<lparr>insn_line = 3, insn_text = ''cbnz x0, 1b'', mnemonic = ''cbnz'', operands = [''x0'', ''1b'']\<rparr>,
     \<lparr>insn_line = 4, insn_text = ''ldp x19, x30, [sp], #16'', mnemonic = ''ldp'',
      operands = [''x19'', ''x30'', ''[sp]'', ''#16'']\<rparr>,
     \<lparr>insn_line = 5, insn_text = ''ret'', mnemonic = ''ret'', operands = []\<rparr>]"

definition ex_labels :: labels where "ex_labels = [(''1'', [1])]"

lemma ex_parse: "parse_instructions (expand_macros loop_example [] 4) = (ex_insns, ex_labels)"
  by code_simp

definition ex_state :: "nat list \<Rightarrow> abi_state" where
  "ex_state is = fold (\<lambda>i. exact_effect (effect (ex_insns ! i))) is clean_state"


section \<open>What the checker misses\<close>

definition entry_loop :: string where
  "entry_loop = join [CHR 0x0A] [''f: cbz x0, 1f'', ''mov x19, #1'', ''b f'', ''1: ret'']"

definition el_insns :: "instruction list" where
  "el_insns =
    [\<lparr>insn_line = 1, insn_text = ''f: cbz x0, 1f'', mnemonic = ''cbz'', operands = [''x0'', ''1f'']\<rparr>,
     \<lparr>insn_line = 2, insn_text = ''mov x19, #1'', mnemonic = ''mov'', operands = [''x19'', ''#1'']\<rparr>,
     \<lparr>insn_line = 3, insn_text = ''b f'', mnemonic = ''b'', operands = [''f'']\<rparr>,
     \<lparr>insn_line = 4, insn_text = ''1: ret'', mnemonic = ''ret'', operands = []\<rparr>]"

definition el_labels :: labels where "el_labels = [(''f'', [0]), (''1'', [3])]"

lemma el_parse: "parse_instructions (expand_macros entry_loop [] 4) = (el_insns, el_labels)"
  by code_simp

text \<open>
  The checker accepts a function that clobbers a callee-saved register: the first
  instruction always starts clean, also when it is the head of a loop, so that what the
  loop body writes never reaches the return. The function reports nothing, although the
  path around the loop once returns with \<open>x19\<close> modified.
\<close>

lemma entry_loop_missed:
  "check_function [] entry_loop None (Some False) = []
    \<and> mnemonic (el_insns ! 3) = ''ret''
    \<and> (\<exists>st. abi_path el_insns (build_cfg el_insns el_labels) 3 st \<and> ''x19'' \<in> dirty st)"
proof -
  let ?succ = "build_cfg el_insns el_labels"
  have succ: "?succ = [[1, 3], [2], [0], []]" by code_simp
  have len: "length el_insns = 4" by code_simp
  have "check_rets el_insns (abi_flow el_insns el_labels) = []" "check_x30 el_insns = []"
    "check_alignment el_insns = []" by code_simp+
  moreover have "check_flags [] el_insns (analyse_flags el_insns ?succ False) None False = []"
    unfolding succ by code_simp
  ultimately have clean: "check_function [] entry_loop None (Some False) = []"
    using len by (auto simp: check_function_def el_parse Let_def)
  define st where "st = (\<lambda>is. fold (\<lambda>i. exact_effect (effect (el_insns ! i))) is clean_state)"
  have "abi_path el_insns ?succ 0 (st [])" using len by (auto simp: st_def intro: abi_path.start)
  from abi_path.step [OF this, of 1] have "abi_path el_insns ?succ 1 (st [0])" by (simp add: succ len st_def)
  from abi_path.step [OF this, of 2] have "abi_path el_insns ?succ 2 (st [0, 1])" by (simp add: succ len st_def)
  from abi_path.step [OF this, of 0] have "abi_path el_insns ?succ 0 (st [0, 1, 2])" by (simp add: succ len st_def)
  from abi_path.step [OF this, of 3] have "abi_path el_insns ?succ 3 (st [0, 1, 2, 0])" by (simp add: succ len st_def)
  moreover have "''x19'' \<in> dirty (st [0, 1, 2, 0])" unfolding st_def by code_simp
  ultimately show ?thesis using clean by (auto simp: el_insns_def)
qed

text \<open>
  A write through the 32-bit name of a callee-saved register is not seen: only \<open>d\<close> and
  \<open>q\<close> names are normalised, so a function that overwrites \<open>x19\<close> by writing \<open>w19\<close> is
  reported clean, and the same write through \<open>x19\<close> is an error.
\<close>

lemma narrow_write_missed:
  "check_function [] (join [CHR 0x0A] [''mov w19, #1'', ''ret'']) None (Some False) = []
    \<and> map severity (check_function [] (join [CHR 0x0A] [''mov x19, #1'', ''ret'']) None (Some False)) = [SError]"
  by code_simp

end
