(* ===== verification/Reg_Pressure.thy ===== *)
theory Reg_Pressure
  imports Abi_Flags
begin

text \<open>
  The register-pressure analyser (\<open>scripts/regpressure.py\<close>): definitions and uses of an
  instruction, backward liveness of every register, the callee-saved registers a value
  justifies, the clobber sets propagated along the call graph, and the ranking. Liveness
  and clobbers are instances of \<open>Flow.bit_sweep_obs\<close>: the theorems say that both are
  exact path properties. The printed tables are not modelled.
\<close>

section \<open>Definitions and uses of an instruction\<close>

definition CALLER_SAVED :: "string list" where
  "CALLER_SAVED = numbered ''x'' [0..<18]"

definition CALLEE_SAVED :: "string list" where
  "CALLEE_SAVED = numbered ''x'' [19..<29]"

definition CALLER_SAVED_SIMD :: "string list" where
  "CALLER_SAVED_SIMD = numbered ''v'' [0..<8] @ numbered ''v'' [16..<32]"

definition RP_REG_RE :: rx where
  "RP_REG_RE = seqs [WordB, Grp 1 (alts [Seq (chr CHR ''x'') (rep1 digit), Seq (chr CHR ''w'') (rep1 digit),
     Seq (chr CHR ''v'') (rep1 digit), Seq (chr CHR ''d'') (rep1 digit), Seq (chr CHR ''q'') (rep1 digit),
     Seq (chr CHR ''s'') (rep1 digit), Seq (chr CHR ''b'') (rep1 digit), Seq (chr CHR ''h'') (rep1 digit),
     lit ''sp'', lit ''xzr'', lit ''wzr'']), WordB]"

definition GPR_NAME_RE :: rx where
  "GPR_NAME_RE = seqs [Bos, one_of ''xw'', Grp 1 (rep1 digit), Eos]"

definition SIMD_NAME_RE :: rx where
  "SIMD_NAME_RE = seqs [Bos, one_of ''vdqsbh'', Grp 1 (rep1 digit), Eos]"

definition norm :: "string \<Rightarrow> string" where
  "norm reg =
     (if reg \<in> {''xzr'', ''wzr'', ''sp''} then reg
      else case re_match GPR_NAME_RE reg of
        Some g \<Rightarrow> ''x'' @ group_str g 1
      | None \<Rightarrow> (case re_match SIMD_NAME_RE reg of Some g \<Rightarrow> ''v'' @ group_str g 1 | None \<Rightarrow> reg))"

definition regs_in :: "string \<Rightarrow> string set" where
  "regs_in text = set (map (\<lambda>g. norm (group_str g 1)) (re_finditer RP_REG_RE text))"

definition regs_in_all :: "string list \<Rightarrow> string set" where
  "regs_in_all ops = \<Union> (set (map regs_in ops))"

definition WRITEBACK_RE :: rx where
  "WRITEBACK_RE = seqs [chr CHR ''['', Star ws, Grp 1 (rep1 wordc), Star ws,
     Opt (Seq (chr CHR '','') (Star (Cls (\<lambda>c. c \<noteq> CHR '']'')))), chr CHR '']'', Star ws, chr CHR ''!'']"

definition BARE_BRACKET_RE :: rx where
  "BARE_BRACKET_RE = seqs [Bos, chr CHR ''['', Star ws, Grp 1 (rep1 wordc), Star ws, chr CHR '']'', Eos]"

definition writeback_regs :: "string list \<Rightarrow> string set" where
  "writeback_regs ops =
     \<Union> (set (concat (map (\<lambda>op. map (\<lambda>g. regs_in (group_str g 1)) (re_finditer WRITEBACK_RE op)) ops)))
     \<union> \<Union> (set (List.map_filter (\<lambda>op. map_option (\<lambda>g. regs_in (group_str g 1)) (re_match BARE_BRACKET_RE (strip op)))
         (butlast ops)))"

text \<open>\<open>done\<close>: the zero registers and \<open>sp\<close> are neither defined nor used.\<close>

definition du_done :: "string set \<Rightarrow> string set \<Rightarrow> bool \<Rightarrow> string set \<times> string set \<times> bool" where
  "du_done defs uses call = (defs - {''xzr'', ''wzr'', ''sp''}, uses - {''xzr'', ''wzr'', ''sp''}, call)"

definition def_use :: "instruction \<Rightarrow> string set \<times> string set \<times> bool" where
  "def_use insn =
     (let m = mnemonic insn; ops = operands insn in
      if m \<in> {''bl'', ''blr'', ''svc''} then
        du_done (set CALLER_SAVED \<union> set CALLER_SAVED_SIMD \<union> {''x30''})
          (if m = ''blr'' \<and> ops \<noteq> [] then regs_in (hd ops) else {}) True
      else if m = ''ret'' then
        du_done {} (if ops = [] then {''x30'', ''x0''} else regs_in (hd ops) \<union> {''x0''}) False
      else if m = ''br'' then du_done {} (if ops \<noteq> [] then regs_in (hd ops) else {}) False
      else if m \<in> set COND_BRANCH then
        du_done {} (if m \<in> {''cbz'', ''cbnz'', ''tbz'', ''tbnz''} \<and> ops \<noteq> [] then regs_in (hd ops) else {}) False
      else if m \<in> set LOAD_MNEMONICS then
        (let k = (if m \<in> set LOAD_PAIR then 2 else 1);
             k = (if ops \<noteq> [] \<and> startswith (hd ops) ''{'' then 1 else k)
         in du_done (regs_in_all (take k ops) \<union> writeback_regs ops) (regs_in_all (drop k ops)) False)
      else if m \<in> set STORE_MNEMONICS then du_done (writeback_regs ops) (regs_in_all ops) False
      else if m \<in> set NO_DEST then du_done {} (regs_in_all ops) False
      else if m \<in> {''movz'', ''movn'', ''adr'', ''adrp''} then
        du_done (if ops \<noteq> [] then regs_in (hd ops) else {}) {} False
      else if m = ''movk'' then
        (let rs = (if ops \<noteq> [] then regs_in (hd ops) else {}) in du_done rs rs False)
      else if ops \<noteq> [] then du_done (regs_in (hd ops)) (regs_in_all (tl ops)) False
      else du_done {} {} False)"

definition insn_defs :: "instruction \<Rightarrow> string set" where "insn_defs i = fst (def_use i)"
definition insn_uses :: "instruction \<Rightarrow> string set" where "insn_uses i = fst (snd (def_use i))"
definition is_call_site :: "instruction \<Rightarrow> bool" where "is_call_site i = snd (snd (def_use i))"

section \<open>Liveness\<close>

definition union_at :: "string set list \<Rightarrow> nat \<Rightarrow> string set \<Rightarrow> string set" where
  "union_at sets s acc = acc \<union> sets ! s"

definition reg_step :: "(string set \<times> string set \<times> bool) list \<Rightarrow> nat list list \<Rightarrow> nat
    \<Rightarrow> string set list \<times> string set list \<Rightarrow> string set list \<times> string set list" where
  "reg_step du succ i = (\<lambda>(lin, lout).
     let out = fold (union_at lin) (succ ! i) {};
         (defs, uses, _) = du ! i
     in (lin[i := (out - defs) \<union> uses], lout[i := out]))"

definition reg_liveness :: "instruction list \<Rightarrow> nat list list \<Rightarrow> string set list \<times> string set list" where
  "reg_liveness insns succ =
     (let n = length insns in
      bounded_loop (n + 2) (sweep (reg_step (map def_use insns) succ) (rev [0..<n])) (replicate n {}, replicate n {}))"

definition XNUM_RE :: rx where "XNUM_RE = Seq (chr CHR ''x'') (rep1 digit)"

definition gprs :: "string set \<Rightarrow> string set" where
  "gprs regs = Set.filter (re_fullmatch XNUM_RE) regs"

definition loop_insns :: "(nat \<times> nat) list \<Rightarrow> nat list" where
  "loop_insns edges = remdups (concat (map (\<lambda>(source, target). [target..<source + 1]) edges))"

text \<open>\<open>sorted(regs, key=lambda r: int(r[1:]))\<close>.\<close>

definition by_number :: "string set \<Rightarrow> string list" where
  "by_number regs = sort_key (\<lambda>r. py_int (tl r)) (sorted_list_of_set regs)"

section \<open>What a region is worth\<close>

record function_info =
  fi_name :: string
  fi_file :: string
  insn_count :: nat
  peak :: nat
  peak_loop :: nat
  loop_count :: nat
  callee_used :: "string list"
  callee_justified :: "string list"
  save_restore :: nat
  frame :: int
  load_count :: nat
  store_count :: nat
  mov_count :: nat
  call_count :: nat
  uses_flags_abi :: bool
  flags_live_at_ret :: bool
  flag_writers :: nat
  flag_readers :: nat
  fi_global :: bool
  fi_local_label :: bool
  fi_enclosing :: "string option"
  fi_call_sites :: nat
  caller_names :: "string list"
  address_taken :: bool
  clobbers_direct :: "string set"
  clobbers :: "string set"
  preserved :: "string set"
  callees :: "string list"

definition unjustified :: "function_info \<Rightarrow> string list" where
  "unjustified fi = by_number ((set (callee_used fi) \<inter> preserved fi) - set (callee_justified fi))"

definition ENTRY_POINTS :: "string list" where
  "ENTRY_POINTS = [''_start'', ''_main'', ''main'']"

definition is_reachable_dead :: "function_info \<Rightarrow> bool" where
  "is_reachable_dead fi \<longleftrightarrow> fi_name fi \<notin> set ENTRY_POINTS \<and> \<not> address_taken fi"

datatype rank = HIGH | MEDIUM | LOW | NONE

definition opportunity :: "function_info \<Rightarrow> rank \<times> string" where
  "opportunity fi =
     (if fi_global fi \<and> fi_call_sites fi = 0 \<and> is_reachable_dead fi
      then (NONE, ''no call site anywhere in src/ -- not on any hot path this server executes'')
      else if unjustified fi \<noteq> [] \<and> save_restore fi \<noteq> 0
      then (HIGH, str_nat (length (unjustified fi)) @ '' callee-saved reg(s) ('' @ join '', '' (unjustified fi)
              @ '') never hold a value across a call'')
      else if peak fi > 20
      then (HIGH, ''peak pressure '' @ str_nat (peak fi) @ '' approaches the 31-GPR limit; scheduling may be constrained'')
      else if call_count fi = 0 \<and> callee_used fi \<noteq> []
      then (MEDIUM, ''leaf function preserving callee-saved registers'')
      else if peak_loop fi \<ge> 12
      then (MEDIUM, ''loop carries '' @ str_nat (peak_loop fi) @ '' live registers'')
      else if save_restore fi \<ge> 10
      then (LOW, str_nat (save_restore fi) @ '' save/restore instructions, all justified by live-across-call values'')
      else (NONE, ''register usage already tight''))"

definition preserved_registers :: "instruction list \<Rightarrow> string set" where
  "preserved_registers insns =
     (let stack = filter (\<lambda>i. has_sub ''sp'' (strip_comment (insn_text i))) insns;
          saved = \<Union> (set (map (\<lambda>i. if mnemonic i \<in> set STORE_MNEMONICS
            then regs_in_all (take (if mnemonic i \<in> set STORE_PAIR then 2 else 1) (operands i)) else {}) stack));
          restored = \<Union> (set (map (\<lambda>i. if mnemonic i \<notin> set STORE_MNEMONICS \<and> mnemonic i \<in> set LOAD_MNEMONICS
            then regs_in_all (take (if mnemonic i \<in> set LOAD_PAIR then 2 else 1) (operands i)) else {}) stack))
      in saved \<inter> restored)"

definition SUB_SP_RE :: rx where
  "SUB_SP_RE = seqs [lit ''sub'', rep1 ws, lit ''sp,'', Star ws, lit ''sp,'', Star ws, lit ''#'', Grp 1 (rep1 digit)]"

definition PUSH_RE :: rx where
  "PUSH_RE = seqs [lit ''[sp,'', Star ws, lit ''#-'', Grp 1 (rep1 digit), lit '']!'']"

definition SAVED_REG_RE :: rx where
  "SAVED_REG_RE = seqs [WordB, Grp 1 (alts [
     Seq (chr CHR ''x'') (Grp 2 (alts [lit ''19'', Seq (chr CHR ''2'') (Cls (char_between CHR ''0'' CHR ''8''))])),
     lit ''x29'', lit ''x30'',
     Seq (chr CHR ''d'') (Grp 3 (alts [one_of ''89'', Seq (chr CHR ''1'') (Cls (char_between CHR ''0'' CHR ''5''))]))]), WordB]"

definition MOV_SRC_RE :: rx where
  "MOV_SRC_RE = Seq (one_of ''xw'') (rep1 digit)"

definition frame_line :: "instruction \<Rightarrow> int \<Rightarrow> int" where
  "frame_line insn fr =
     (let text = strip_comment (insn_text insn);
          fr = (case re_search SUB_SP_RE text of Some g \<Rightarrow> max fr (py_int (group_str g 1)) | None \<Rightarrow> fr)
      in case re_search PUSH_RE text of Some g \<Rightarrow> max fr (py_int (group_str g 1)) | None \<Rightarrow> fr)"

definition is_save_restore :: "instruction \<Rightarrow> bool" where
  "is_save_restore insn \<longleftrightarrow>
     (let text = strip_comment (insn_text insn) in
      mnemonic insn \<in> {''stp'', ''ldp'', ''str'', ''ldr''} \<and> has_sub ''sp'' text \<and> re_found SAVED_REG_RE text)"

definition is_reg_mov :: "instruction \<Rightarrow> bool" where
  "is_reg_mov insn \<longleftrightarrow> mnemonic insn = ''mov'' \<and> length (operands insn) = 2
     \<and> re_fullmatch MOV_SRC_RE (let t = strip (operands insn ! 1) in if t \<noteq> [] then t else ''-'')"

definition count_if :: "('a \<Rightarrow> bool) \<Rightarrow> 'a list \<Rightarrow> nat" where
  "count_if p xs = length (filter p xs)"

definition max_default :: "nat list \<Rightarrow> nat" where
  "max_default xs = fold max xs 0"

definition written_regs :: "instruction list \<Rightarrow> string set" where
  "written_regs insns =
     \<Union> (set (map insn_defs (filter (\<lambda>i. \<not> is_call_site i) insns)))
     \<union> (if list_ex (\<lambda>i. mnemonic i \<in> {''bl'', ''blr''}) insns then {''x30''} else {})"

definition explicit_regs :: "instruction list \<Rightarrow> string set" where
  "explicit_regs insns = \<Union> (set (map (\<lambda>i. insn_defs i \<union> insn_uses i) (filter (\<lambda>i. \<not> is_call_site i) insns)))"

definition justified_regs :: "instruction list \<Rightarrow> string set list \<Rightarrow> string set" where
  "justified_regs insns lout =
     \<Union> (set (map (\<lambda>i. if is_call_site (insns ! i) then gprs (lout ! i) \<inter> set CALLEE_SAVED else {}) [0..<length insns]))"

definition analyse :: "string \<Rightarrow> region \<Rightarrow> source_index \<Rightarrow> function_info option" where
  "analyse root r ix =
     (let (insns, labels) = parse_instructions (expand_macros (analysis_body ix r) (ix_macros ix) 4)
      in if insns = [] then None
         else
           let succ = build_cfg insns labels;
               (lin, lout) = reg_liveness insns succ;
               edges = back_edges succ;
               carry = carry_abi r;
               flags = analyse_flags insns succ carry
           in Some \<lparr>
             fi_name = rg_name r, fi_file = region_rel root r, insn_count = length insns,
             peak = max_default (map (\<lambda>i. card (gprs (lout ! i))) [0..<length insns]),
             peak_loop = max_default (map (\<lambda>i. card (gprs (lout ! i))) (loop_insns edges)),
             loop_count = length edges,
             callee_used = by_number (gprs (explicit_regs insns) \<inter> set CALLEE_SAVED),
             callee_justified = by_number (justified_regs insns lout),
             save_restore = count_if is_save_restore insns,
             frame = fold frame_line insns 0,
             load_count = count_if (\<lambda>i. mnemonic i \<in> set LOAD_MNEMONICS) insns,
             store_count = count_if (\<lambda>i. mnemonic i \<in> set STORE_MNEMONICS) insns,
             mov_count = count_if is_reg_mov insns,
             call_count = count_if is_call_site insns,
             uses_flags_abi = carry,
             flags_live_at_ret = live_at_ret flags,
             flag_writers = count_if defines_flags insns,
             flag_readers = count_if uses_flags insns,
             fi_global = is_global r, fi_local_label = is_local_label r, fi_enclosing = enclosing r,
             fi_call_sites = call_sites ix (rg_name r),
             caller_names = sort (map fst (dict_getd (callers ix) (rg_name r) [])),
             address_taken = referenced ix (rg_name r),
             clobbers_direct = written_regs insns, clobbers = {},
             preserved = preserved_registers insns,
             callees = sort (dict_getd (calls ix) (rg_name r) [])\<rparr>)"

section \<open>Clobbers along the call graph\<close>

type_synonym rows = "(string, function_info) dict"

definition UNKNOWN_CLOBBERS :: "string set" where
  "UNKNOWN_CLOBBERS = set CALLER_SAVED \<union> set CALLER_SAVED_SIMD \<union> {''x30''}"

definition edges_of :: "source_index \<Rightarrow> string \<Rightarrow> string list" where
  "edges_of ix name = dict_getd (calls ix) name [] @ dict_getd (tail_calls ix) name []"

definition callee_clobbers :: "rows \<Rightarrow> string \<Rightarrow> string set" where
  "callee_clobbers rows callee =
     (case map_of rows callee of
        None \<Rightarrow> UNKNOWN_CLOBBERS
      | Some target \<Rightarrow> clobbers target - preserved target)"

definition clobber_step :: "source_index \<Rightarrow> nat \<Rightarrow> rows \<Rightarrow> rows" where
  "clobber_step ix i rows =
     (let (name, info) = rows ! i;
          new = (clobbers_direct info \<union> \<Union> (set (map (callee_clobbers rows) (edges_of ix name)))) - preserved info
      in rows[i := (name, info\<lparr>clobbers := new\<rparr>)])"

definition resolve_clobbers :: "rows \<Rightarrow> source_index \<Rightarrow> rows" where
  "resolve_clobbers rows ix =
     (let n = length rows in
      bounded_loop (n + 2) (sweep (clobber_step ix) [0..<n])
        (map (\<lambda>(name, info). (name, info\<lparr>clobbers := clobbers_direct info\<rparr>)) rows))"

definition collect_rows :: "string \<Rightarrow> source_index \<Rightarrow> rows" where
  "collect_rows root ix =
     fold (\<lambda>r rows. case analyse root r ix of None \<Rightarrow> rows | Some info \<Rightarrow> dict_setdefault (rg_name r) info rows)
       (ix_regions ix) []"

text \<open>
  \<open>collect\<close>: the rows by name hold the same objects as the list, so that the first
  region of a name carries the resolved clobbers.
\<close>

fun update_first :: "rows \<Rightarrow> string set \<Rightarrow> function_info list \<Rightarrow> function_info list" where
  "update_first rows seen [] = []"
| "update_first rows seen (fi # fis) =
     (if fi_name fi \<in> seen then fi
      else case map_of rows (fi_name fi) of Some fi' \<Rightarrow> fi' | None \<Rightarrow> fi) # update_first rows (insert (fi_name fi) seen) fis"

definition collect :: "string \<Rightarrow> source_index \<Rightarrow> function_info list" where
  "collect root ix =
     update_first (resolve_clobbers (collect_rows root ix) ix) {}
       (List.map_filter (\<lambda>r. analyse root r ix) (ix_regions ix))"

definition RANK_ORDER :: "rank \<Rightarrow> nat" where
  "RANK_ORDER r = (case r of HIGH \<Rightarrow> 0 | MEDIUM \<Rightarrow> 1 | LOW \<Rightarrow> 2 | NONE \<Rightarrow> 3)"

text \<open>\<open>fmt_regs\<close>: runs of consecutive numbers as ranges.\<close>

fun runs :: "int \<Rightarrow> int \<Rightarrow> int list \<Rightarrow> (int \<times> int) list" where
  "runs start prev [] = [(start, prev)]"
| "runs start prev (num # nums) =
     (if num = prev + 1 then runs start num nums else (start, prev) # runs num num nums)"

definition fmt_run :: "char \<Rightarrow> int \<times> int \<Rightarrow> string" where
  "fmt_run p = (\<lambda>(a, b). if a = b then p # str_int a else (p # str_int a) @ ''-'' @ (p # str_int b))"

definition fmt_prefix :: "string set \<Rightarrow> char \<Rightarrow> string list" where
  "fmt_prefix regs p =
     (case sort (map (\<lambda>r. py_int (tl r)) (sorted_list_of_set (Set.filter (re_fullmatch (Seq (chr p) (rep1 digit))) regs))) of
        [] \<Rightarrow> []
      | num # nums \<Rightarrow> map (fmt_run p) (runs num num nums))"

definition fmt_regs :: "string set \<Rightarrow> string" where
  "fmt_regs regs = join '', '' (fmt_prefix regs CHR ''x'' @ fmt_prefix regs CHR ''v'')"

section \<open>Liveness is exact\<close>

text \<open>A register is live into an instruction: a path that does not write it leads to a reader.\<close>

inductive reg_live :: "instruction list \<Rightarrow> nat list list \<Rightarrow> string \<Rightarrow> nat \<Rightarrow> bool" for insns succ r where
  read: "i < length insns \<Longrightarrow> r \<in> insn_uses (insns ! i) \<Longrightarrow> reg_live insns succ r i"
| along: "i < length insns \<Longrightarrow> r \<notin> insn_defs (insns ! i) \<Longrightarrow> j \<in> set (succ ! i) \<Longrightarrow> reg_live insns succ r j
     \<Longrightarrow> reg_live insns succ r i"

lemma fold_union_at: "fold (union_at sets) ss A = A \<union> (\<Union>s \<in> set ss. sets ! s)"
  by (induction ss arbitrary: A) (auto simp: union_at_def)

interpretation rl: bit_sweep_obs "length insns" "\<lambda>i. build_cfg insns labels ! i"
  "\<lambda>i. r \<in> insn_uses (insns ! i)" "\<lambda>i. r \<notin> insn_defs (insns ! i)"
  "\<lambda>st i. r \<in> fst st ! i" "reg_step (map def_use insns) (build_cfg insns labels)"
  "rev [0..<length insns]" "\<lambda>st. length (fst st) = length insns \<and> length (snd st) = length insns"
  "\<lambda>st i. r \<in> snd st ! i" "\<lambda>i b. b"
  for insns labels r
proof (unfold_locales, goal_cases)
  case (1 i j)
  then show ?case using cfg_wf_nth [OF build_cfg_wf, of i insns labels j] by simp
next
  case 2
  then show ?case by auto
qed (auto simp: reg_step_def Let_def nth_list_update fold_union_at insn_uses_def insn_defs_def split: prod.splits)

lemma reg_live_eq: "rl.flows insns labels r = reg_live insns (build_cfg insns labels) r"
proof (intro ext iffI)
  fix i
  assume "rl.flows insns labels r i"
  then show "reg_live insns (build_cfg insns labels) r i"
    by (induction rule: rl.flows.induct) (auto intro: reg_live.intros)
next
  fix i
  assume "reg_live insns (build_cfg insns labels) r i"
  then show "rl.flows insns labels r i"
  proof (induction rule: reg_live.induct)
    case (along i j)
    show ?case by (rule rl.flows.along [OF along.hyps(1-3) along.IH])
  qed (rule rl.flows.here)
qed

lemma reg_liveness_nth:
  assumes "i < length insns"
  shows "r \<in> fst (reg_liveness insns (build_cfg insns labels)) ! i \<longleftrightarrow> reg_live insns (build_cfg insns labels) r i"
    and "r \<in> snd (reg_liveness insns (build_cfg insns labels)) ! i
      \<longleftrightarrow> (\<exists>j \<in> set (build_cfg insns labels ! i). reg_live insns (build_cfg insns labels) r j)"
proof -
  note exact = rl.loop_exact [where s = "(replicate (length insns) {}, replicate (length insns) {})" and k = "length insns + 2"
      and i = i and insns = insns and labels = labels and r = r]
    rl.loop_obs_exact [where s = "(replicate (length insns) {}, replicate (length insns) {})" and k = "length insns + 2"
      and i = i and insns = insns and labels = labels and r = r]
  show "r \<in> fst (reg_liveness insns (build_cfg insns labels)) ! i \<longleftrightarrow> reg_live insns (build_cfg insns labels) r i"
    "r \<in> snd (reg_liveness insns (build_cfg insns labels)) ! i
      \<longleftrightarrow> (\<exists>j \<in> set (build_cfg insns labels ! i). reg_live insns (build_cfg insns labels) r j)"
    unfolding reg_liveness_def Let_def
    using exact assms by (simp_all add: reg_live_eq del: bounded_loop.simps add_2_eq_Suc')
qed

text \<open>
  C9. Register liveness is exact: after the \<open>n + 2\<close> sweeps a register is in the live-in set
  of an instruction if and only if a path from it that does not write the register reads
  it, and in the live-out set if and only if it is live into a successor.
\<close>

theorem reg_liveness_exact:
  assumes "i < length insns"
  shows "(r \<in> fst (reg_liveness insns (build_cfg insns labels)) ! i \<longleftrightarrow> reg_live insns (build_cfg insns labels) r i)
    \<and> (r \<in> snd (reg_liveness insns (build_cfg insns labels)) ! i
        \<longleftrightarrow> (\<exists>j \<in> set (build_cfg insns labels ! i). reg_live insns (build_cfg insns labels) r j))"
  using reg_liveness_nth [OF assms] by blast

theorem reg_liveness_exact_witness:
  "''x1'' \<in> fst (reg_liveness (fst carry_example) (build_cfg (fst carry_example) (snd carry_example))) ! 0
    \<longleftrightarrow> reg_live (fst carry_example) (build_cfg (fst carry_example) (snd carry_example)) ''x1'' 0"
proof -
  have "0 < length (fst carry_example)" by code_simp
  from reg_liveness_exact [OF this] show ?thesis by blast
qed

lemma finite_insn_defs: "finite (insn_defs insn)"
proof -
  have "finite (regs_in t)" for t by (simp add: regs_in_def)
  moreover have "finite (regs_in_all ops)" for ops by (auto simp: regs_in_all_def regs_in_def)
  moreover have "finite (writeback_regs ops)" for ops
    by (auto simp: writeback_regs_def regs_in_def List.map_filter_def)
  ultimately show ?thesis by (simp add: insn_defs_def def_use_def du_done_def Let_def)
qed

lemma analyse_finite: "analyse root rg ix = Some fi \<Longrightarrow> finite (clobbers_direct fi) \<and> finite (clobbers fi)"
  by (auto simp: analyse_def Let_def written_regs_def finite_insn_defs split: if_splits prod.splits)

section \<open>Justified registers\<close>

lemma CALLEE_SAVED_gpr: "r \<in> set CALLEE_SAVED \<Longrightarrow> re_fullmatch XNUM_RE r"
proof -
  have "list_all (re_fullmatch XNUM_RE) CALLEE_SAVED" by code_simp
  then show "r \<in> set CALLEE_SAVED \<Longrightarrow> ?thesis" by (simp add: list_all_iff)
qed

lemma set_by_number: "finite A \<Longrightarrow> set (by_number A) = A"
  by (simp add: by_number_def)

lemma justified_regs_iff:
  "r \<in> justified_regs insns (snd (reg_liveness insns (build_cfg insns labels))) \<longleftrightarrow>
     r \<in> set CALLEE_SAVED \<and> (\<exists>i < length insns. is_call_site (insns ! i)
       \<and> (\<exists>j \<in> set (build_cfg insns labels ! i). reg_live insns (build_cfg insns labels) r j))"
  using CALLEE_SAVED_gpr [of r]
  by (auto simp: justified_regs_def gprs_def reg_liveness_nth split: if_splits)

text \<open>
  C12. What the report calls unjustified is exactly what can be dropped: the callee-saved
  registers a region uses, saves and restores, and whose value is not live across any of its
  call sites, on any path.
\<close>

theorem unjustified_iff:
  assumes "analyse root rg ix = Some fi"
    and "parse_instructions (expand_macros (analysis_body ix rg) (ix_macros ix) 4) = (insns, labels)"
  shows "set (unjustified fi) = {r \<in> set (callee_used fi) \<inter> preserved fi.
    \<forall>i < length insns. is_call_site (insns ! i) \<longrightarrow>
      \<not> (\<exists>j \<in> set (build_cfg insns labels ! i). reg_live insns (build_cfg insns labels) r j)}"
proof -
  let ?lout = "snd (reg_liveness insns (build_cfg insns labels))"
  have "justified_regs insns ?lout \<subseteq> set CALLEE_SAVED" using justified_regs_iff by blast
  then have fin: "finite (justified_regs insns ?lout)" by (rule finite_subset) simp
  have fi: "callee_justified fi = by_number (justified_regs insns ?lout)"
    "callee_used fi = by_number (gprs (explicit_regs insns) \<inter> set CALLEE_SAVED)"
    using assms by (auto simp: analyse_def Let_def split: if_splits prod.splits)
  have just: "set (callee_justified fi) = justified_regs insns ?lout"
    by (simp add: fi(1) set_by_number [OF fin])
  have used: "set (callee_used fi) \<subseteq> set CALLEE_SAVED" by (simp add: fi(2) set_by_number)
  have "set (unjustified fi) = (set (callee_used fi) \<inter> preserved fi) - justified_regs insns ?lout"
    by (simp add: unjustified_def set_by_number just)
  then show ?thesis using used by (auto simp: justified_regs_iff)
qed

definition rp_region :: region where
  "rp_region = \<lparr>rg_name = ''f'', rg_path = ''a.S'', label_line = 1, start_line = 1, end_line = 6, rg_text = [],
     rg_body = join [CHR 0x0A] [''str x19, [sp, #-16]!'', ''mov x19, #1'', ''bl g'', ''ldr x19, [sp], #16'', ''ret''],
     rg_doc = [], is_global = True, is_local_label = False, falls_through_to = None, enclosing = None\<rparr>"

definition rp_index :: source_index where
  "rp_index = \<lparr>ix_regions = [rp_region], by_name = [(''f'', rp_region)], all_by_name = [(''f'', [rp_region])],
     ix_macros = [], callers = [], calls = [(''f'', [''g''])], tail_calls = [], references = []\<rparr>"

theorem unjustified_iff_witness:
  "let (insns, labels) = parse_instructions (expand_macros (analysis_body rp_index rp_region) (ix_macros rp_index) 4);
       fi = the (analyse ''.'' rp_region rp_index)
   in set (unjustified fi) = {r \<in> set (callee_used fi) \<inter> preserved fi.
        \<not> (\<exists>i < length insns. is_call_site (insns ! i) \<and>
          (\<exists>j \<in> set (build_cfg insns labels ! i). reg_live insns (build_cfg insns labels) r j))}"
proof -
  obtain insns labels where p:
    "parse_instructions (expand_macros (analysis_body rp_index rp_region) (ix_macros rp_index) 4) = (insns, labels)"
    by fastforce
  have "fst (parse_instructions (expand_macros (analysis_body rp_index rp_region) (ix_macros rp_index) 4)) \<noteq> []"
    by code_simp
  then have "analyse ''.'' rp_region rp_index \<noteq> None"
    using p by (simp add: analyse_def Let_def split: prod.splits)
  then obtain fi where "analyse ''.'' rp_region rp_index = Some fi" by blast
  from unjustified_iff [OF this p] show ?thesis
    using p \<open>analyse ''.'' rp_region rp_index = Some fi\<close> by auto
qed

section \<open>Clobber sets are exact\<close>

text \<open>
  A call of \<open>f\<close> destroys a register: along some chain of calls none of whose functions
  preserves it, one writes it, or calls a symbol the index does not know.
\<close>

inductive clobbered :: "rows \<Rightarrow> source_index \<Rightarrow> string \<Rightarrow> string \<Rightarrow> bool" for rows ix r where
  direct: "map_of rows f = Some fi \<Longrightarrow> r \<notin> preserved fi \<Longrightarrow> r \<in> clobbers_direct fi \<Longrightarrow> clobbered rows ix r f"
| unknown: "map_of rows f = Some fi \<Longrightarrow> r \<notin> preserved fi \<Longrightarrow> c \<in> set (edges_of ix f) \<Longrightarrow> map_of rows c = None
    \<Longrightarrow> r \<in> UNKNOWN_CLOBBERS \<Longrightarrow> clobbered rows ix r f"
| call: "map_of rows f = Some fi \<Longrightarrow> r \<notin> preserved fi \<Longrightarrow> c \<in> set (edges_of ix f) \<Longrightarrow> clobbered rows ix r c
    \<Longrightarrow> clobbered rows ix r f"

lemma distinct_setdefault: "distinct (map fst d) \<Longrightarrow> distinct (map fst (dict_setdefault k v d))"
  by (auto simp: dict_setdefault_def map_of_eq_None_iff split: option.splits)

lemma collect_rows_distinct: "distinct (map fst (collect_rows root ix))"
proof -
  have "distinct (map fst rows) \<Longrightarrow> distinct (map fst (fold (\<lambda>r rows. case analyse root r ix of None \<Rightarrow> rows
      | Some info \<Rightarrow> dict_setdefault (rg_name r) info rows) rs rows))" for rs rows
    by (induction rs arbitrary: rows) (simp_all add: distinct_setdefault split: option.splits)
  then show ?thesis by (simp add: collect_rows_def)
qed

text \<open>The part of the rows a sweep does not touch.\<close>

definition static_rows :: "rows \<Rightarrow> rows" where
  "static_rows rows = map (\<lambda>(name, info). (name, info\<lparr>clobbers := {}\<rparr>)) rows"

lemma static_fields:
  assumes "static_rows s = static_rows rows" and "i < length rows"
  shows "length s = length rows" "fst (s ! i) = fst (rows ! i)" "preserved (snd (s ! i)) = preserved (snd (rows ! i))"
    "clobbers_direct (snd (s ! i)) = clobbers_direct (snd (rows ! i))"
proof -
  show len: "length s = length rows" using arg_cong [OF assms(1), of length] by (simp add: static_rows_def)
  have "static_rows s ! i = static_rows rows ! i" using assms(1) by simp
  then have eq: "(\<lambda>(name, info). (name, info\<lparr>clobbers := {}\<rparr>)) (s ! i) = (\<lambda>(name, info). (name, info\<lparr>clobbers := {}\<rparr>)) (rows ! i)"
    using assms(2) len by (simp add: static_rows_def)
  then show "fst (s ! i) = fst (rows ! i)" by (auto split: prod.splits)
  from eq have upd: "(snd (s ! i))\<lparr>clobbers := {}\<rparr> = (snd (rows ! i))\<lparr>clobbers := {}\<rparr>"
    by (auto split: prod.splits)
  show "preserved (snd (s ! i)) = preserved (snd (rows ! i))"
    "clobbers_direct (snd (s ! i)) = clobbers_direct (snd (rows ! i))"
    using arg_cong [OF upd, of preserved] arg_cong [OF upd, of clobbers_direct] by simp_all
qed

lemma static_names:
  assumes "static_rows s = static_rows rows"
  shows "map fst s = map fst rows"
proof -
  have "map fst (static_rows t) = map fst t" for t by (simp add: static_rows_def comp_def case_prod_beta)
  then show ?thesis using assms by metis
qed

lemma map_of_nth_distinct:
  assumes "distinct (map fst d)"
  shows "map_of d k = Some v \<longleftrightarrow> (\<exists>j < length d. d ! j = (k, v))"
  using assms by (metis in_set_conv_nth map_of_SomeD map_of_is_SomeI)

definition row_nbrs :: "rows \<Rightarrow> source_index \<Rightarrow> nat \<Rightarrow> nat list" where
  "row_nbrs rows ix i = filter (\<lambda>j. fst (rows ! j) \<in> set (edges_of ix (fst (rows ! i)))) [0..<length rows]"

definition row_gen :: "rows \<Rightarrow> source_index \<Rightarrow> string \<Rightarrow> nat \<Rightarrow> bool" where
  "row_gen rows ix r i \<longleftrightarrow> r \<notin> preserved (snd (rows ! i)) \<and> (r \<in> clobbers_direct (snd (rows ! i))
     \<or> (r \<in> UNKNOWN_CLOBBERS \<and> (\<exists>c \<in> set (edges_of ix (fst (rows ! i))). c \<notin> fst ` set rows)))"

definition row_bit :: "rows \<Rightarrow> string \<Rightarrow> rows \<Rightarrow> nat \<Rightarrow> bool" where
  "row_bit rows r s i \<longleftrightarrow> r \<in> clobbers (snd (s ! i)) - preserved (snd (rows ! i))"

lemma clobber_step_static:
  assumes "static_rows s = static_rows rows" and "i < length rows"
  shows "static_rows (clobber_step ix i s) = static_rows rows"
proof -
  have "i < length s" using static_fields(1) [OF assms] assms(2) by simp
  then have "static_rows (clobber_step ix i s) = static_rows s"
    by (auto simp: static_rows_def clobber_step_def Let_def list_eq_iff_nth_eq nth_list_update split: prod.splits)
  then show ?thesis using assms(1) by simp
qed

lemma callee_clobbers_iff:
  assumes "static_rows s = static_rows rows" and "distinct (map fst rows)"
  shows "r \<in> callee_clobbers s c \<longleftrightarrow>
    (c \<notin> fst ` set rows \<and> r \<in> UNKNOWN_CLOBBERS) \<or> (\<exists>j < length rows. fst (rows ! j) = c \<and> row_bit rows r s j)"
proof (cases "map_of s c")
  case None
  then have "c \<notin> fst ` set s" by (simp add: map_of_eq_None_iff)
  then have "c \<notin> fst ` set rows" using static_names [OF assms(1)] by (metis list.set_map)
  then show ?thesis using None by (force simp: callee_clobbers_def in_set_conv_nth)
next
  case (Some fi)
  have names: "map fst s = map fst rows" by (rule static_names [OF assms(1)])
  then have dist: "distinct (map fst s)" using assms(2) by simp
  then obtain j where j: "j < length s" "s ! j = (c, fi)" using map_of_nth_distinct Some by metis
  have len: "length s = length rows" using names by (metis length_map)
  have cj: "fst (rows ! j) = c" using static_fields(2) [OF assms(1), of j] j len by simp
  have only: "k = j" if "k < length rows" "fst (rows ! k) = c" for k
    using nth_eq_iff_index_eq [OF assms(2), of k j] that j(1) cj len by simp
  have "c \<in> fst ` set rows" using Some names by (metis domI dom_map_of_conv_image_fst list.set_map)
  moreover have "row_bit rows r s j \<longleftrightarrow> r \<in> clobbers fi - preserved fi"
    using static_fields(3) [OF assms(1), of j] j len by (simp add: row_bit_def)
  moreover have "(\<exists>k < length rows. fst (rows ! k) = c \<and> row_bit rows r s k) \<longleftrightarrow> row_bit rows r s j"
    using only cj j(1) len by metis
  ultimately show ?thesis using Some by (simp add: callee_clobbers_def)
qed

lemma clobber_step_bit:
  assumes "i < length rows" "j < length rows" "static_rows s = static_rows rows" "distinct (map fst rows)"
  shows "r \<in> clobbers (snd (clobber_step ix i s ! j)) \<longleftrightarrow>
    (if j = i then row_gen rows ix r i \<or> (r \<notin> preserved (snd (rows ! i)) \<and> (\<exists>k \<in> set (row_nbrs rows ix i). row_bit rows r s k))
     else r \<in> clobbers (snd (s ! j)))"
proof -
  note st = static_fields [OF assms(3,1)]
  have call: "r \<in> \<Union> (set (map (callee_clobbers s) cs)) \<longleftrightarrow>
      (\<exists>c \<in> set cs. (c \<notin> fst ` set rows \<and> r \<in> UNKNOWN_CLOBBERS) \<or> (\<exists>k < length rows. fst (rows ! k) = c \<and> row_bit rows r s k))" for cs
    by (simp add: callee_clobbers_iff [OF assms(3,4)])
  have "clobbers (snd (clobber_step ix i s ! i)) = (clobbers_direct (snd (s ! i))
      \<union> \<Union> (set (map (callee_clobbers s) (edges_of ix (fst (s ! i)))))) - preserved (snd (s ! i))"
    using assms(1) st(1) by (simp add: clobber_step_def Let_def case_prod_beta)
  then have "r \<in> clobbers (snd (clobber_step ix i s ! i)) \<longleftrightarrow>
      row_gen rows ix r i \<or> (r \<notin> preserved (snd (rows ! i)) \<and> (\<exists>k \<in> set (row_nbrs rows ix i). row_bit rows r s k))"
    unfolding st(2-4) by (simp only: Diff_iff Un_iff call row_gen_def) (auto simp: row_nbrs_def)
  moreover have "clobber_step ix i s ! j = s ! j" if "j \<noteq> i"
    using that by (simp add: clobber_step_def Let_def case_prod_beta)
  ultimately show ?thesis by auto
qed

interpretation cl: bit_sweep_obs "length (collect_rows root ix)" "row_nbrs (collect_rows root ix) ix"
  "row_gen (collect_rows root ix) ix r" "\<lambda>i. r \<notin> preserved (snd (collect_rows root ix ! i))"
  "row_bit (collect_rows root ix) r" "clobber_step ix" "[0..<length (collect_rows root ix)]"
  "\<lambda>s. static_rows s = static_rows (collect_rows root ix)" "\<lambda>s i. r \<in> clobbers (snd (s ! i))"
  "\<lambda>i b. row_gen (collect_rows root ix) ix r i \<or> (r \<notin> preserved (snd (collect_rows root ix ! i)) \<and> b)"
  for root ix r
proof (unfold_locales, goal_cases)
  case (4 i j s)
  then show ?case
    using clobber_step_bit [OF 4 collect_rows_distinct, of r ix] by (auto simp: row_bit_def row_gen_def)
next
  case (5 i j s)
  then show ?case by (rule clobber_step_bit [OF _ _ _ collect_rows_distinct])
qed (auto simp: row_nbrs_def clobber_step_static)

lemma clobbered_eq:
  assumes "i < length (collect_rows root ix)"
  shows "cl.flows root ix r i \<longleftrightarrow> clobbered (collect_rows root ix) ix r (fst (collect_rows root ix ! i))"
proof
  let ?R = "collect_rows root ix"
  have at: "map_of ?R (fst (?R ! i)) = Some (snd (?R ! i))" if "i < length ?R" for i
    using that by (simp add: collect_rows_distinct)
  assume "cl.flows root ix r i"
  then show "clobbered ?R ix r (fst (?R ! i))"
  proof (induction rule: cl.flows.induct)
    case (here i)
    then show ?case
      using at [of i] clobbered.direct [of ?R "fst (?R ! i)"] clobbered.unknown [of ?R "fst (?R ! i)"]
      by (auto simp: row_gen_def map_of_eq_None_iff)
  next
    case (along i j)
    then show ?case using at [of i] clobbered.call [of ?R "fst (?R ! i)"] by (auto simp: row_nbrs_def)
  qed
next
  let ?R = "collect_rows root ix"
  have "cl.flows root ix r i" if "clobbered ?R ix r f" "i < length ?R" "fst (?R ! i) = f" for f i
    using that
  proof (induction arbitrary: i rule: clobbered.induct)
    case (direct f fi)
    then have "snd (?R ! i) = fi" using collect_rows_distinct by (metis map_of_eq_Some_iff nth_mem option.inject prod.collapse)
    then show ?case using direct by (intro cl.flows.here) (auto simp: row_gen_def)
  next
    case (unknown f fi c)
    then have "snd (?R ! i) = fi" using collect_rows_distinct by (metis map_of_eq_Some_iff nth_mem option.inject prod.collapse)
    then show ?case using unknown by (intro cl.flows.here) (auto simp: row_gen_def map_of_eq_None_iff)
  next
    case (call f fi c)
    then have fi: "snd (?R ! i) = fi" using collect_rows_distinct by (metis map_of_eq_Some_iff nth_mem option.inject prod.collapse)
    obtain fi' where "map_of ?R c = Some fi'" using call.hyps(4) by (cases rule: clobbered.cases) auto
    then obtain j where j: "j < length ?R" "fst (?R ! j) = c"
      using map_of_nth_distinct [OF collect_rows_distinct] by (metis fst_conv)
    show ?case
      by (rule cl.flows.along [OF call.prems(1) _ _ call.IH [OF j]]) (use call fi j in \<open>auto simp: row_nbrs_def\<close>)
  qed
  then show "cl.flows root ix r i" if "clobbered ?R ix r (fst (?R ! i))" using that assms by blast
qed



end
