(* ===== verification/Clobber_Headers.thy ===== *)
theory Clobber_Headers
  imports Reg_Pressure
begin

text \<open>
  The check of the documented clobber sets (\<open>scripts/validate_clobbers.py\<close>): parsing of
  a header field, resolution of references to other headers, and the comparison with the
  computed sets of \<open>Reg_Pressure\<close>. The en dash the range expression also accepts is
  outside ASCII. The printed report is not modelled.
\<close>

section \<open>Parsing a header\<close>

text \<open>The matches of \<open>finditer\<close> with their start and end positions.\<close>

fun finditer_pos_fuel :: "nat \<Rightarrow> rx \<Rightarrow> rx_pos \<Rightarrow> (nat \<times> nat \<times> rx_caps) list" where
  "finditer_pos_fuel 0 r p = []"
| "finditer_pos_fuel (Suc n) r p = (case p of (c, t) \<Rightarrow>
     (case re_search_from (Grp 0 r) c t of
        None \<Rightarrow> []
      | Some (g, (c', t')) \<Rightarrow>
          (length c' - length (group_str g 0), length c', g) # finditer_pos_fuel n r (c', t')))"

definition re_finditer_pos :: "rx \<Rightarrow> string \<Rightarrow> (nat \<times> nat \<times> rx_caps) list" where
  "re_finditer_pos r s = finditer_pos_fuel (Suc (length s)) r ([], s)"

definition reg_letter :: rx where "reg_letter = one_of ''xwvdqsbh''"

definition RANGE_RE :: rx where
  "RANGE_RE = seqs [WordB, Grp 1 reg_letter, Grp 2 (rep1 digit), Star ws, alts [lit ''-'', lit ''..''], Star ws,
     Opt reg_letter, Grp 3 (rep1 digit), WordB]"

definition SINGLE_RE :: rx where
  "SINGLE_RE = seqs [WordB, Grp 1 reg_letter, Grp 2 (rep1 digit), WordB]"

definition PAREN_RE :: rx where
  "PAREN_RE = seqs [chr CHR ''('', Grp 1 (Star (Cls (\<lambda>c. c \<noteq> CHR '')''))), chr CHR '')'']"

definition quote_opt :: rx where "quote_opt = Opt (one_of [CHR 0x60, CHR 0x27])"

definition alpha_us :: "char \<Rightarrow> bool" where
  "alpha_us c \<longleftrightarrow> char_between CHR ''A'' CHR ''Z'' c \<or> char_between CHR ''a'' CHR ''z'' c \<or> c = CHR ''_''"

definition REFERENCE_RE :: rx where
  "REFERENCE_RE = seqs [lit ''everything'', rep1 ws, quote_opt,
     Grp 1 (Seq (Cls alpha_us) (Star (Cls (\<lambda>c. alpha_us c \<or> py_digit c)))), quote_opt, rep1 ws, lit ''clobbers'']"

definition PRESERVE_WORDS :: "string list" where
  "PRESERVE_WORDS = [''saved'', ''restored'', ''preserved'', ''preserve'']"

definition XV_RE :: rx where "XV_RE = Seq (one_of ''xv'') (rep1 digit)"

definition range_regs :: "rx_caps \<Rightarrow> string set" where
  "range_regs g =
     (let lo = py_int (group_str g 2); hi = py_int (group_str g 3)
      in if hi \<ge> lo then set (map (\<lambda>i. norm (group_str g 1 @ str_int i)) [lo..hi]) else {})"

definition parse_regs :: "string \<Rightarrow> string set" where
  "parse_regs text =
     (let ranges = re_finditer_pos RANGE_RE text;
          singles = filter (\<lambda>(s, e, g). \<not> list_ex (\<lambda>(a, b, _). a \<le> s \<and> s < b) ranges) (re_finditer_pos SINGLE_RE text);
          out = \<Union> (set (map (\<lambda>(s, e, g). range_regs g) ranges)) \<union> set (map (\<lambda>(s, e, g). norm (group_str g 0)) singles)
      in Set.filter (re_fullmatch XV_RE) out)"

record documented =
  doc_clobbers :: "string set"
  doc_preserved :: "string set"
  doc_flags :: bool
  doc_references :: "string list"
  doc_outputs :: "string set"
  doc_parsed :: bool
  doc_raw :: string

text \<open>
  \<open>re.split(r",(?![^(]*\))", before)[-1]\<close>: what follows the last comma that is not inside
  parentheses, a comma being inside when a closing parenthesis comes before any opening one.
\<close>

definition inside_paren :: "string \<Rightarrow> bool" where
  "inside_paren rest = (case dropWhile (\<lambda>c. c \<noteq> CHR ''('' \<and> c \<noteq> CHR '')'') rest of
     [] \<Rightarrow> False | c # _ \<Rightarrow> c = CHR '')'')"

fun last_item :: "string \<Rightarrow> string \<Rightarrow> string" where
  "last_item cur [] = cur"
| "last_item cur (c # cs) = (if c = CHR '','' \<and> \<not> inside_paren cs then last_item [] cs else last_item (cur @ [c]) cs)"

definition paren_preserved :: "string \<Rightarrow> nat \<times> nat \<times> rx_caps \<Rightarrow> string set" where
  "paren_preserved text = (\<lambda>(s, e, g).
     let inner = group_str g 1 in
     if \<not> list_ex (\<lambda>w. has_sub w (lower inner)) PRESERVE_WORDS then {}
     else let inner_regs = parse_regs inner
          in if inner_regs \<noteq> {} then inner_regs else parse_regs (last_item [] (take s text)))"

definition NONE_RE :: rx where "NONE_RE = seqs [WordB, ilit ''none'', WordB]"

definition parse_header :: "string \<Rightarrow> documented" where
  "parse_header raw =
     (let doc = \<lparr>doc_clobbers = {}, doc_preserved = {}, doc_flags = False, doc_references = [], doc_outputs = {},
                 doc_parsed = True, doc_raw = raw\<rparr>;
          text = strip raw
      in if text = [] \<or> lower text \<in> {''(none)'', ''none''} then doc
         else
           let refs = remdups (map (\<lambda>g. group_str g 1) (re_finditer REFERENCE_RE text));
               pres = \<Union> (set (map (paren_preserved text) (re_finditer_pos PAREN_RE text)));
               clob = parse_regs text - pres
           in doc\<lparr>doc_clobbers := clob, doc_preserved := pres, doc_flags := has_sub ''nzcv'' (lower text),
                  doc_references := refs,
                  doc_parsed := (if clob = {} \<and> pres = {} then refs = [] \<and> re_found NONE_RE text else True)\<rparr>)"

section \<open>References between headers\<close>

definition reference_step :: "(string, documented) dict \<Rightarrow> string \<Rightarrow> documented \<Rightarrow> documented" where
  "reference_step docs name doc =
     (case map_of docs name of
        None \<Rightarrow> doc
      | Some other \<Rightarrow>
          if \<not> doc_parsed other then doc
          else doc\<lparr>doc_clobbers := doc_clobbers doc \<union> (doc_clobbers other - doc_preserved doc), doc_parsed := True\<rparr>)"

text \<open>
  One header of a pass. A name that refers to the header itself sees it as it is updated
  so far.
\<close>

definition resolve_step :: "nat \<Rightarrow> (string, documented) dict \<Rightarrow> (string, documented) dict" where
  "resolve_step i docs =
     fold (\<lambda>name docs. docs[i := (fst (docs ! i), reference_step docs name (snd (docs ! i)))])
       (doc_references (snd (docs ! i))) docs"

definition resolve_references :: "(string, documented) dict \<Rightarrow> (string, documented) dict" where
  "resolve_references docs =
     (let n = length docs in
      map (\<lambda>(name, doc). (name, if doc_references doc \<noteq> [] \<and> doc_clobbers doc = {} then doc\<lparr>doc_parsed := False\<rparr> else doc))
        (bounded_loop (n + 2) (sweep resolve_step [0..<n]) docs))"

section \<open>The comparison\<close>

datatype verdict = AGREE | BOTH | UNDERSTATES | OVERSTATES | UNPARSED
datatype basis = Direct | Transitive

record result =
  res_name :: string
  res_file :: string
  res_verdict :: verdict
  res_documented :: "string set"
  res_computed :: "string set"
  res_missing :: "string set"
  res_spurious :: "string set"
  res_basis :: basis
  flags_documented :: bool
  flags_computed :: bool
  res_raw :: string

definition clean_regs :: "string set \<Rightarrow> string set" where
  "clean_regs regs = Set.filter (re_fullmatch XV_RE) regs"

definition missing_regs :: "documented \<Rightarrow> string set \<Rightarrow> string set" where
  "missing_regs doc computed = computed - doc_clobbers doc - doc_outputs doc"

definition spurious_regs :: "documented \<Rightarrow> string set \<Rightarrow> string set" where
  "spurious_regs doc computed = doc_clobbers doc - computed"

definition score :: "documented \<Rightarrow> string set \<Rightarrow> nat" where
  "score doc computed = card (missing_regs doc computed) + card (spurious_regs doc computed)"

definition compare_header :: "string \<Rightarrow> region \<Rightarrow> documented \<Rightarrow> function_info \<Rightarrow> result" where
  "compare_header root r doc info =
     (let direct = clean_regs (clobbers_direct info - preserved info);
          transitive = clean_regs (clobbers info);
          basis = (if \<not> doc_parsed doc then Direct else if score doc transitive < score doc direct then Transitive else Direct);
          computed = (if \<not> doc_parsed doc then transitive else case basis of Direct \<Rightarrow> direct | Transitive \<Rightarrow> transitive);
          missing = (if \<not> doc_parsed doc then {} else missing_regs doc computed);
          spurious = (if \<not> doc_parsed doc then {} else spurious_regs doc computed);
          verdict = (if \<not> doc_parsed doc then UNPARSED
                     else if missing = {} \<and> spurious = {} then AGREE
                     else if missing \<noteq> {} \<and> spurious \<noteq> {} then BOTH
                     else if missing \<noteq> {} then UNDERSTATES else OVERSTATES)
      in \<lparr>res_name = rg_name r, res_file = region_rel root r, res_verdict = verdict,
          res_documented = doc_clobbers doc, res_computed = computed, res_missing = missing, res_spurious = spurious,
          res_basis = basis, flags_documented = doc_flags doc, flags_computed = flag_writers info > 0,
          res_raw = doc_raw doc\<rparr>)"

definition header_docs :: "source_index \<Rightarrow> (string, documented) dict" where
  "header_docs ix =
     fold (\<lambda>r docs. case documented_clobbers r of
         None \<Rightarrow> docs
       | Some raw \<Rightarrow>
           let returns = (case doc_field (rg_doc r) ''Output/Returns'' of Some t \<Rightarrow> t | None \<Rightarrow> [])
           in dict_setdefault (rg_name r) ((parse_header raw)\<lparr>doc_outputs := parse_regs returns\<rparr>) docs)
       (ix_regions ix) []"

definition validate :: "string \<Rightarrow> source_index \<Rightarrow> result list" where
  "validate root ix =
     (let rows = collect root ix;
          by = fold (\<lambda>fi. dict_put (fi_name fi) fi) rows [];
          docs = resolve_references (header_docs ix)
      in List.map_filter (\<lambda>r. case (map_of docs (rg_name r), map_of by (rg_name r)) of
             (Some doc, Some info) \<Rightarrow> Some (compare_header root r doc info)
           | _ \<Rightarrow> None) (ix_regions ix))"

section \<open>Correctness\<close>

lemma finite_Set_filter: "finite A \<Longrightarrow> finite (Set.filter P A)"
  by simp

lemma finite_parse_regs: "finite (parse_regs text)"
  unfolding parse_regs_def Let_def
  by (rule finite_Set_filter) (auto simp: range_regs_def Let_def)

text \<open>The computed set a header is held against, for its basis.\<close>

definition basis_set :: "function_info \<Rightarrow> basis \<Rightarrow> string set" where
  "basis_set info b = (case b of Direct \<Rightarrow> clean_regs (clobbers_direct info - preserved info)
     | Transitive \<Rightarrow> clean_regs (clobbers info))"



end
