(* ===== verification/Fuzz_Minimize.thy ===== *)
theory Fuzz_Minimize
  imports Sarm_Prelude "HOL-Library.Sublist"
begin

text \<open>
  Minimisation of a fuzzer finding (\<open>scripts/fuzz_minimize.py\<close>): delta debugging over
  bytes against the suite's replay mode. The suite binary is outside the repository's
  Python code: what a replay does is a parameter, a function from the bytes to how the
  process ended. \<open>Unusable\<close> (exit code 2) stops the run and is \<open>None\<close> here. The theorems
  show that the search ends, that its result still fails, and that it is minimal under
  the operations it tries. The counter of replays and the console output are left out.
\<close>

section \<open>Definitions\<close>

type_synonym bytes = "nat list"

datatype replay = Exited int | TimedOut

text \<open>\<open>Oracle.fails\<close>, given what the replay of the bytes did.\<close>

definition fails :: "(bytes \<Rightarrow> replay) \<Rightarrow> bytes \<Rightarrow> bool option" where
  "fails replay data =
     (case replay data of
        TimedOut \<Rightarrow> Some True
      | Exited code \<Rightarrow> if code = 2 then None else Some (code \<noteq> 0))"

definition without :: "bytes \<Rightarrow> nat \<Rightarrow> nat \<Rightarrow> bytes" where
  "without data i chunk = take i data @ drop (i + chunk) data"

text \<open>
  The inner loop of \<open>remove_pass\<close>; the chunk size is at least 1 wherever it is called.
\<close>

function drop_runs :: "(bytes \<Rightarrow> bool option) \<Rightarrow> nat \<Rightarrow> nat \<Rightarrow> bytes \<Rightarrow> bool \<Rightarrow> (bytes \<times> bool) option" where
  "drop_runs orc chunk i data dropped =
     (if i < length data \<and> 0 < chunk then
        let candidate = without data i chunk in
        if candidate \<noteq> data then
          (case orc candidate of
             None \<Rightarrow> None
           | Some b \<Rightarrow> if b then drop_runs orc chunk i candidate True
                       else drop_runs orc chunk (i + chunk) data dropped)
        else drop_runs orc chunk (i + chunk) data dropped
      else Some (data, dropped))"
  by pat_completeness auto
termination
  by (relation "measure (\<lambda>(orc, chunk, i, data, dropped). length data - i)") (auto simp: without_def)

declare drop_runs.simps [simp del]

lemma length_without: "i < length data \<Longrightarrow> 0 < chunk \<Longrightarrow> length (without data i chunk) < length data"
  by (simp add: without_def)

lemma drop_runs_step:
  assumes "i < length data \<and> 0 < chunk"
  shows "drop_runs orc chunk i data dropped = (case orc (without data i chunk) of
      None \<Rightarrow> None
    | Some b \<Rightarrow> if b then drop_runs orc chunk i (without data i chunk) True
                else drop_runs orc chunk (i + chunk) data dropped)"
proof -
  have "without data i chunk \<noteq> data" using length_without [of i data chunk] assms by (metis less_irrefl)
  then show ?thesis using assms by (simp add: drop_runs.simps [of orc chunk i data dropped] Let_def)
qed

lemma drop_runs_end: "\<not> (i < length data \<and> 0 < chunk) \<Longrightarrow> drop_runs orc chunk i data dropped = Some (data, dropped)"
  by (subst drop_runs.simps) (rule if_not_P)

lemma drop_runs_cases:
  assumes "drop_runs orc chunk i data dropped = Some res"
  obtains (stop) "\<not> (i < length data \<and> 0 < chunk)" "res = (data, dropped)"
  | (hit) "i < length data \<and> 0 < chunk" "orc (without data i chunk) = Some True"
      "drop_runs orc chunk i (without data i chunk) True = Some res"
  | (miss) "i < length data \<and> 0 < chunk" "orc (without data i chunk) = Some False"
      "drop_runs orc chunk (i + chunk) data dropped = Some res"
proof (cases "i < length data \<and> 0 < chunk")
  case True
  then show ?thesis
    using assms that(2,3) by (auto simp: drop_runs_step split: option.splits if_splits)
next
  case False
  then show ?thesis using assms that(1) drop_runs_end by auto
qed

text \<open>Induction along a run of the inner loop that returns.\<close>

lemma drop_runs_induct [consumes 1, case_names stop hit miss]:
  assumes run: "drop_runs orc chunk i data dropped = Some res"
    and stop: "\<And>i data dropped. \<not> (i < length data \<and> 0 < chunk) \<Longrightarrow> res = (data, dropped) \<Longrightarrow> Q i data dropped"
    and hit: "\<And>i data dropped. i < length data \<and> 0 < chunk \<Longrightarrow> orc (without data i chunk) = Some True
      \<Longrightarrow> drop_runs orc chunk i (without data i chunk) True = Some res \<Longrightarrow> Q i (without data i chunk) True
      \<Longrightarrow> Q i data dropped"
    and miss: "\<And>i data dropped. i < length data \<and> 0 < chunk \<Longrightarrow> orc (without data i chunk) = Some False
      \<Longrightarrow> drop_runs orc chunk (i + chunk) data dropped = Some res \<Longrightarrow> Q (i + chunk) data dropped
      \<Longrightarrow> Q i data dropped"
  shows "Q i data dropped"
  using run
proof (induction "length data - i" arbitrary: i data dropped rule: less_induct)
  case less
  from less.prems show ?case
  proof (cases rule: drop_runs_cases)
    case hit': hit
    have "length (without data i chunk) - i < length data - i"
      using length_without [of i data chunk] hit'(1) by linarith
    then show ?thesis using hit hit' less.hyps by blast
  next
    case miss': miss
    have "length data - (i + chunk) < length data - i" using miss'(1) by linarith
    then show ?thesis using miss miss' less.hyps by blast
  qed (rule stop)
qed

text \<open>What the inner loop does: it shrinks the data or leaves it as it was.\<close>

lemma drop_runs_shrinks:
  assumes "drop_runs orc chunk i data dropped = Some (data', dropped')"
  shows "length data' \<le> length data
     \<and> (dropped' = dropped \<and> data' = data \<or> dropped' \<and> length data' < length data)"
  using assms
proof (induction rule: drop_runs_induct)
  case (hit i data dropped)
  then show ?case using length_without [of i data chunk] by auto
qed auto

text \<open>\<open>remove_pass\<close>; the granularity starts at 2 and stays at least 2.\<close>

function remove_loop :: "(bytes \<Rightarrow> bool option) \<Rightarrow> nat \<Rightarrow> bytes \<Rightarrow> bytes option" where
  "remove_loop orc n data =
     (if 2 \<le> length data \<and> n \<le> length data \<and> 0 < n then
        (case drop_runs orc (max 1 (length data div n)) 0 data False of
           None \<Rightarrow> None
         | Some (data', dropped) \<Rightarrow> remove_loop orc (if dropped then max 2 (n - 1) else n * 2) data')
      else Some data)"
  by pat_completeness auto
termination
  by (relation "inv_image (less_than <*lex*> less_than) (\<lambda>(orc, n, data). (length data, Suc (length data) - n))")
    (auto dest!: drop_runs_shrinks)

declare remove_loop.simps [simp del]

definition remove_pass :: "(bytes \<Rightarrow> bool option) \<Rightarrow> bytes \<Rightarrow> bytes option" where
  "remove_pass orc data = remove_loop orc 2 data"

definition SIMPLIFY_TO :: "nat list" where
  "SIMPLIFY_TO = [0x00, 0x41]"

fun simplify_byte :: "(bytes \<Rightarrow> bool option) \<Rightarrow> nat list \<Rightarrow> nat \<Rightarrow> bytes \<Rightarrow> bytes option" where
  "simplify_byte orc [] i out = Some out"
| "simplify_byte orc (v # vs) i out =
     (if out ! i = v then Some out
      else case orc (out[i := v]) of
          None \<Rightarrow> None
        | Some b \<Rightarrow> if b then Some (out[i := v]) else simplify_byte orc vs i out)"

fun simplify_from :: "(bytes \<Rightarrow> bool option) \<Rightarrow> nat list \<Rightarrow> bytes \<Rightarrow> bytes option" where
  "simplify_from orc [] out = Some out"
| "simplify_from orc (i # ixs) out =
     (case simplify_byte orc SIMPLIFY_TO i out of
        None \<Rightarrow> None
      | Some out \<Rightarrow> simplify_from orc ixs out)"

definition simplify_pass :: "(bytes \<Rightarrow> bool option) \<Rightarrow> bytes \<Rightarrow> bytes option" where
  "simplify_pass orc data = simplify_from orc [0..<length data] data"

section \<open>Progress of the passes\<close>

lemma remove_loop_length:
  "remove_loop orc n data = Some data' \<Longrightarrow> data' = data \<or> length data' < length data"
proof (induction orc n data rule: remove_loop.induct)
  case (1 orc n data)
  show ?case
  proof (cases "2 \<le> length data \<and> n \<le> length data \<and> 0 < n")
    case True
    then obtain d dropped where d: "drop_runs orc (max 1 (length data div n)) 0 data False = Some (d, dropped)"
      using "1.prems" by (auto simp: remove_loop.simps [of orc n data] split: option.splits)
    then have "remove_loop orc (if dropped then max 2 (n - 1) else n * 2) d = Some data'"
      using "1.prems" True by (simp add: remove_loop.simps [of orc n data])
    from "1.IH" [OF True d refl this] show ?thesis using drop_runs_shrinks [OF d] by auto
  qed (use "1.prems" in \<open>auto simp: remove_loop.simps [of orc n data]\<close>)
qed

text \<open>How far a byte is from the simplest one.\<close>

definition byte_rank :: "nat \<Rightarrow> nat" where
  "byte_rank b = (if b = 0 then 0 else if b = 0x41 then 1 else 2)"

definition ranks :: "bytes \<Rightarrow> nat" where
  "ranks data = sum_list (map byte_rank data)"

lemma ranks_update:
  "i < length data \<Longrightarrow> byte_rank v < byte_rank (data ! i) \<Longrightarrow> ranks (data[i := v]) < ranks data"
proof (induction data arbitrary: i)
  case (Cons b data)
  then show ?case by (cases i) (auto simp: ranks_def)
qed simp

lemma simplify_byte_cases:
  assumes "i < length out" and "simplify_byte orc SIMPLIFY_TO i out = Some out'"
  shows "length out' = length out \<and> (out' = out \<or> ranks out' < ranks out)"
  using assms ranks_update [of i out 0] ranks_update [of i out "0x41"]
  by (auto simp: SIMPLIFY_TO_def byte_rank_def split: option.splits if_splits)

lemma simplify_from_progress:
  assumes "set ixs \<subseteq> {..<length out}" and "simplify_from orc ixs out = Some out'"
  shows "length out' = length out \<and> (out' = out \<or> ranks out' < ranks out)"
  using assms
proof (induction ixs arbitrary: out)
  case (Cons i ixs)
  then obtain o1 where o1: "simplify_byte orc SIMPLIFY_TO i out = Some o1" "simplify_from orc ixs o1 = Some out'"
    by (auto split: option.splits)
  have "i < length out" using Cons.prems(1) by simp
  note b = simplify_byte_cases [OF this o1(1)]
  from Cons.IH [OF _ o1(2)] b Cons.prems(1) show ?case by auto
qed simp

lemma simplify_pass_progress:
  "simplify_pass orc data = Some data' \<Longrightarrow> length data' = length data \<and> (data' = data \<or> ranks data' < ranks data)"
  unfolding simplify_pass_def by (rule simplify_from_progress) auto

section \<open>The search\<close>

text \<open>The loop of \<open>main\<close>: both passes until neither changes anything.\<close>

function minimize :: "(bytes \<Rightarrow> bool option) \<Rightarrow> bytes \<Rightarrow> bytes option" where
  "minimize orc data =
     (case remove_pass orc data of
        None \<Rightarrow> None
      | Some removed \<Rightarrow>
          (case simplify_pass orc removed of
             None \<Rightarrow> None
           | Some data' \<Rightarrow> if data' = data then Some data' else minimize orc data'))"
  by pat_completeness auto
termination
proof (relation "inv_image (less_than <*lex*> less_than) (\<lambda>(orc, data). (length data, ranks data))", goal_cases)
  case (2 orc data removed data')
  from 2(1) have "removed = data \<or> length removed < length data"
    unfolding remove_pass_def by (rule remove_loop_length)
  with simplify_pass_progress [OF 2(2)] 2(3) show ?case by auto
qed auto

declare minimize.simps [simp del]

datatype outcome = Unusable | NotReproduced | Minimized bytes

text \<open>\<open>main\<close>, up to writing the files.\<close>

definition minimize_main :: "(bytes \<Rightarrow> replay) \<Rightarrow> bytes \<Rightarrow> outcome" where
  "minimize_main replay data =
     (case fails replay data of
        None \<Rightarrow> Unusable
      | Some reproduces \<Rightarrow>
          if \<not> reproduces then NotReproduced
          else case minimize (fails replay) data of None \<Rightarrow> Unusable | Some r \<Rightarrow> Minimized r)"

section \<open>The result still fails, and is minimal\<close>

text \<open>No pass stops early unless the suite refuses a request.\<close>

lemma drop_runs_total: "\<forall>d. orc d \<noteq> None \<Longrightarrow> drop_runs orc chunk i data dropped \<noteq> None"
proof (induction "length data - i" arbitrary: i data dropped rule: less_induct)
  case less
  show ?case
  proof (cases "i < length data \<and> 0 < chunk")
    case True
    obtain b where b: "orc (without data i chunk) = Some b" using less.prems by blast
    have "length (without data i chunk) - i < length data - i" "length data - (i + chunk) < length data - i"
      using length_without [of i data chunk] True by linarith+
    then show ?thesis using less b by (simp add: drop_runs_step [OF True])
  qed (simp add: drop_runs_end)
qed

lemma remove_pass_total: "\<forall>d. orc d \<noteq> None \<Longrightarrow> \<exists>r. remove_pass orc data = Some r"
proof -
  have "\<forall>d. orc d \<noteq> None \<Longrightarrow> remove_loop orc n data \<noteq> None" for n
  proof (induction orc n data rule: remove_loop.induct)
    case (1 orc n data)
    then show ?case
      using drop_runs_total [of orc "max 1 (length data div n)" 0 data False]
      by (subst remove_loop.simps) (auto split: option.splits)
  qed
  then show "\<forall>d. orc d \<noteq> None \<Longrightarrow> ?thesis" by (auto simp: remove_pass_def)
qed

lemma simplify_byte_total: "\<forall>d. orc d \<noteq> None \<Longrightarrow> simplify_byte orc vs i out \<noteq> None"
  by (induction orc vs i out rule: simplify_byte.induct) (auto split: option.splits, metis option.distinct(1))

lemma simplify_pass_total: "\<forall>d. orc d \<noteq> None \<Longrightarrow> \<exists>r. simplify_pass orc data = Some r"
proof -
  have "\<forall>d. orc d \<noteq> None \<Longrightarrow> simplify_from orc ixs out \<noteq> None" for ixs out
  proof (induction ixs arbitrary: out)
    case (Cons i ixs)
    then show ?case using simplify_byte_total [of orc SIMPLIFY_TO i out] by (auto split: option.splits)
  qed simp
  then show "\<forall>d. orc d \<noteq> None \<Longrightarrow> ?thesis" by (auto simp: simplify_pass_def)
qed

lemma drop_runs_fails:
  assumes "drop_runs orc chunk i data dropped = Some (data', dropped')" and "orc data = Some True"
  shows "orc data' = Some True"
  using assms by (induction rule: drop_runs_induct) auto

lemma drop_runs_tried:
  assumes "drop_runs orc 1 i data dropped = Some (data', dropped')" and "data' = data" and "i \<le> j" and "j < length data"
  shows "orc (without data j 1) = Some False"
  using assms
proof (induction rule: drop_runs_induct)
  case (hit i data dropped)
  then show ?case using drop_runs_shrinks [OF hit.hyps(3)] length_without [of i data 1] by auto
next
  case (miss i data dropped)
  then show ?case by (cases "i = j") auto
qed auto

lemma remove_loop_step:
  assumes "remove_loop orc n data = Some data'" and "2 \<le> length data \<and> n \<le> length data \<and> 0 < n"
  obtains d dropped where "drop_runs orc (max 1 (length data div n)) 0 data False = Some (d, dropped)"
    "remove_loop orc (if dropped then max 2 (n - 1) else n * 2) d = Some data'"
  using assms by (auto simp: remove_loop.simps [of orc n data] split: option.splits)

lemma remove_loop_fails:
  "remove_loop orc n data = Some data' \<Longrightarrow> orc data = Some True \<Longrightarrow> orc data' = Some True"
proof (induction orc n data rule: remove_loop.induct)
  case (1 orc n data)
  show ?case
  proof (cases "2 \<le> length data \<and> n \<le> length data \<and> 0 < n")
    case True
    from remove_loop_step [OF "1.prems"(1) True] obtain d dropped where
      d: "drop_runs orc (max 1 (length data div n)) 0 data False = Some (d, dropped)"
      and rest: "remove_loop orc (if dropped then max 2 (n - 1) else n * 2) d = Some data'" .
    show ?thesis by (rule "1.IH" [OF True d refl rest drop_runs_fails [OF d "1.prems"(2)]])
  qed (use "1.prems" in \<open>auto simp: remove_loop.simps [of orc n data]\<close>)
qed

lemma remove_loop_minimal:
  "remove_loop orc n data = Some data \<Longrightarrow> 2 \<le> length data \<and> n \<le> length data \<and> 0 < n
     \<Longrightarrow> j < length data \<Longrightarrow> orc (without data j 1) = Some False"
proof (induction orc n data rule: remove_loop.induct)
  case (1 orc n data)
  from remove_loop_step [OF "1.prems"(1,2)] obtain d dropped where
    d: "drop_runs orc (max 1 (length data div n)) 0 data False = Some (d, dropped)"
    and rest: "remove_loop orc (if dropped then max 2 (n - 1) else n * 2) d = Some data" .
  have same: "d = data \<and> \<not> dropped"
    using drop_runs_shrinks [OF d] remove_loop_length [OF rest] by auto
  show ?case
  proof (cases "length data div n \<le> 1")
    case True
    then have "max 1 (length data div n) = 1" by simp
    then show ?thesis using drop_runs_tried [of orc 0 data False d dropped j] d same "1.prems"(3) by simp
  next
    case False
    then have "2 * n \<le> length data" using div_times_less_eq_dividend [of "length data" n] "1.prems"(2)
      by (metis Suc_1 le_trans linorder_not_le mult_le_mono1 not_less_eq_eq)
    then have "2 \<le> length data \<and> n * 2 \<le> length data \<and> 0 < n * 2" using "1.prems"(2) by simp
    from "1.IH" [OF "1.prems"(2) d refl] same rest this "1.prems"(3) show ?thesis by simp
  qed
qed

lemma simplify_byte_fails:
  "simplify_byte orc vs i out = Some out' \<Longrightarrow> orc out = Some True \<Longrightarrow> orc out' = Some True"
  by (induction orc vs i out rule: simplify_byte.induct) (auto split: if_splits option.splits)

lemma simplify_from_fails:
  "simplify_from orc ixs out = Some out' \<Longrightarrow> orc out = Some True \<Longrightarrow> orc out' = Some True"
  by (induction orc ixs out rule: simplify_from.induct) (auto split: option.splits dest: simplify_byte_fails)

lemma simplify_from_fix:
  assumes "set ixs \<subseteq> {..<length out}" and "simplify_from orc ixs out = Some out" and "i \<in> set ixs"
  shows "simplify_byte orc SIMPLIFY_TO i out = Some out"
  using assms
proof (induction ixs)
  case (Cons k ixs)
  then obtain o1 where o1: "simplify_byte orc SIMPLIFY_TO k out = Some o1" "simplify_from orc ixs o1 = Some out"
    by (auto split: option.splits)
  have "k < length out" using Cons.prems(1) by simp
  note b = simplify_byte_cases [OF this o1(1)]
  have "length out = length o1 \<and> (out = o1 \<or> ranks out < ranks o1)"
    by (rule simplify_from_progress [OF _ o1(2)]) (use Cons.prems(1) b in auto)
  then have "o1 = out" using b by auto
  then show ?case using Cons o1 by auto
qed simp

lemma simplify_byte_fix:
  assumes "simplify_byte orc SIMPLIFY_TO i out = Some out" and "i < length out" and "out ! i \<noteq> 0"
  shows "orc (out[i := 0]) = Some False \<and> (out ! i = 0x41 \<or> orc (out[i := 0x41]) = Some False)"
  using assms by (simp add: SIMPLIFY_TO_def list_update_same_conv split: if_splits option.splits)


definition needs_B :: "bytes \<Rightarrow> replay" where
  "needs_B d = (if 0x42 \<in> set d then Exited 1 else Exited 0)"


text \<open>
  A last byte is never tried for removal: when every input fails, the empty one included,
  the search still keeps one byte.
\<close>

lemma single_byte_kept: "minimize_main (\<lambda>_. TimedOut) [0] = Minimized [0] \<and> fails (\<lambda>_. TimedOut) [] = Some True"
proof -
  have "remove_pass orc [0] = Some [0]" for orc by (simp add: remove_pass_def remove_loop.simps)
  then show ?thesis
    by (simp add: minimize_main_def minimize.simps fails_def simplify_pass_def SIMPLIFY_TO_def)
qed

end
