(* ===== verification/Disasm.thy ===== *)
theory Disasm
  imports Py_Regex
begin

text \<open>
  The disassembly wrapper (scripts/disassembler.py): selecting one function out of
  \<open>objdump -d\<close> output and normalising its lines to the instruction text. Running objdump and
  writing the artifact files is left out; its output is an argument.
\<close>

definition hex :: rx where
  "hex = Cls (\<lambda>c. py_digit c \<or> char_between CHR ''a'' CHR ''f'' c)"

fun rep_upto :: "nat \<Rightarrow> rx \<Rightarrow> rx" where
  "rep_upto 0 r = Eps"
| "rep_upto (Suc n) r = Opt (Seq r (rep_upto n r))"

definition SYMBOL_HEADER :: rx where
  "SYMBOL_HEADER = seqs [Bos, rep1 hex, lit '' <'', Grp 1 (rep1 (Cls (\<lambda>c. c \<noteq> CHR ''>''))), lit ''>:'', Eos]"

definition INSN_LINE :: rx where
  "INSN_LINE = seqs [Bos, Star ws, rep1 hex, lit '':'', rep1 ws,
     Star (seqs [hex, hex, rep_upto 6 hex, rep1 ws]), Star ws, Grp 1 (Star any_chr), Eos]"

text \<open>
  \<open>extract_function\<close>: the scan keeps the last header of the function seen before the
  first header of another symbol.
\<close>

definition symbol_of :: "string \<Rightarrow> string option" where
  "symbol_of line = map_option (\<lambda>g. group_str g 1) (re_match SYMBOL_HEADER (strip line))"

definition names_function :: "string \<Rightarrow> string \<Rightarrow> bool" where
  "names_function function name \<longleftrightarrow> name = function \<or> name = ''_'' @ function"

fun extract_scan :: "string \<Rightarrow> nat \<Rightarrow> nat option \<Rightarrow> string list \<Rightarrow> nat option \<times> nat option" where
  "extract_scan function i start [] = (start, None)"
| "extract_scan function i start (line # lines) =
     (case symbol_of line of
        None \<Rightarrow> extract_scan function (Suc i) start lines
      | Some name \<Rightarrow>
          if names_function function name then extract_scan function (Suc i) (Some i) lines
          else if start \<noteq> None then (start, Some i)
          else extract_scan function (Suc i) start lines)"

definition dis_function :: "string \<Rightarrow> string \<Rightarrow> string option" where
  "dis_function dis function =
     (let lines = split_lines dis in
      case extract_scan function 0 None lines of
        (None, _) \<Rightarrow> None
      | (Some s, None) \<Rightarrow> Some (join [CHR 0x0A] (drop s lines))
      | (Some s, Some e) \<Rightarrow> Some (join [CHR 0x0A] (take (e - s) (drop s lines))))"

definition normalize_line :: "string \<Rightarrow> string list" where
  "normalize_line line =
     (case re_match INSN_LINE line of
        Some g \<Rightarrow> [strip (group_str g 1)]
      | None \<Rightarrow> if symbol_of line \<noteq> None then [strip line] else [])"

definition normalize :: "string \<Rightarrow> string" where
  "normalize dis = join [CHR 0x0A] (concat (map normalize_line (split_lines dis)))"

section \<open>What is extracted\<close>

text \<open>A slice that starts at a header of the function and holds no header of another symbol.\<close>

definition function_slice :: "string \<Rightarrow> string list \<Rightarrow> bool" where
  "function_slice fn ls \<longleftrightarrow>
     (\<exists>name. ls \<noteq> [] \<and> symbol_of (hd ls) = Some name \<and> names_function fn name)
     \<and> (\<forall>l \<in> set (tl ls). symbol_of l = None)"

definition slice_ok :: "string \<Rightarrow> string list \<Rightarrow> nat \<Rightarrow> nat option \<Rightarrow> bool" where
  "slice_ok fn ls s e \<longleftrightarrow> s < length ls
     \<and> (case e of None \<Rightarrow> True
         | Some k \<Rightarrow> s < k \<and> k < length ls
             \<and> (\<exists>name. symbol_of (ls ! k) = Some name \<and> \<not> names_function fn name))
     \<and> function_slice fn (take ((case e of Some k \<Rightarrow> k | None \<Rightarrow> length ls) - s) (drop s ls))"

lemma extract_scan_slice:
  assumes "extract_scan fn i start lines = (Some s, e)"
    and "i = length pre"
    and "case start of None \<Rightarrow> True
         | Some k \<Rightarrow> k < i \<and> function_slice fn (drop k pre)"
  shows "slice_ok fn (pre @ lines) s e"
  using assms
proof (induction fn i start lines arbitrary: pre rule: extract_scan.induct)
  case (1 fn i start)
  then show ?case by (auto simp: slice_ok_def split: option.splits)
next
  case (2 fn i start line lines)
  have slice_snoc: "function_slice fn (drop k pre @ [line])"
    if "function_slice fn (drop k pre)" "symbol_of line = None" for k
    using that by (cases "drop k pre") (auto simp: function_slice_def)
  show ?case
  proof (cases "symbol_of line")
    case None
    have "extract_scan fn (Suc i) start lines = (Some s, e)" using 2(4) None by simp
    moreover have "case start of None \<Rightarrow> True
        | Some k \<Rightarrow> k < Suc i \<and> function_slice fn (drop k (pre @ [line]))"
      using 2(5,6) None slice_snoc by (auto split: option.splits)
    ultimately show ?thesis
      using 2(1) [OF None, of "pre @ [line]"] 2(5) by simp
  next
    case (Some name)
    consider (own) "names_function fn name"
      | (stop) "\<not> names_function fn name" "start \<noteq> None"
      | (other) "\<not> names_function fn name" "start = None" by blast
    then show ?thesis
    proof cases
      case own
      then have "extract_scan fn (Suc i) (Some i) lines = (Some s, e)" using 2(4) Some by simp
      moreover have "function_slice fn (drop i (pre @ [line]))"
        using own Some 2(5) by (simp add: function_slice_def)
      ultimately show ?thesis
        using 2(2) [OF Some own, of "pre @ [line]"] 2(5) by simp
    next
      case stop
      then have "start = Some s" "e = Some i" using 2(4) Some by auto
      then show ?thesis using 2(4,5,6) Some stop by (auto simp: slice_ok_def nth_append)
    next
      case other
      then have "extract_scan fn (Suc i) None lines = (Some s, e)" using 2(4) Some by simp
      then show ?thesis
        using 2(3) [OF Some other(1), of "pre @ [line]"] 2(5) other by simp
    qed
  qed
qed

lemma extract_scan_None:
  "fst (extract_scan fn i start lines) = None
     \<longleftrightarrow> start = None \<and> \<not> list_ex (\<lambda>l. \<exists>name. symbol_of l = Some name \<and> names_function fn name) lines"
  by (induction fn i start lines rule: extract_scan.induct) (auto split: option.splits)

definition other_symbol_next :: "string \<Rightarrow> string list \<Rightarrow> bool" where
  "other_symbol_next fn ls \<longleftrightarrow>
     (case ls of [] \<Rightarrow> True | l # _ \<Rightarrow> \<exists>name. symbol_of l = Some name \<and> \<not> names_function fn name)"

text \<open>
  \<open>extract_function\<close> fails exactly when no header of the output names the function, with
  or without the leading underscore. Otherwise it returns a contiguous block of lines that
  opens with such a header, holds no other header, and ends at the header of another symbol
  or at the end of the output.
\<close>

theorem dis_function_correct:
  "case dis_function dis fn of
     None \<Rightarrow> \<not> list_ex (\<lambda>l. \<exists>name. symbol_of l = Some name \<and> names_function fn name) (split_lines dis)
   | Some t \<Rightarrow> \<exists>pre ls post. split_lines dis = pre @ ls @ post \<and> t = join [CHR 0x0A] ls
       \<and> function_slice fn ls \<and> other_symbol_next fn post"
proof -
  define lines where "lines = split_lines dis"
  obtain st e where scan: "extract_scan fn 0 None lines = (st, e)" by fastforce
  show ?thesis
  proof (cases st)
    case None
    then have "dis_function dis fn = None"
      using scan by (simp add: dis_function_def Let_def flip: lines_def)
    then show ?thesis using extract_scan_None [of fn 0 None lines] scan None by (simp flip: lines_def)
  next
    case (Some s)
    define k where "k = (case e of Some k \<Rightarrow> k | None \<Rightarrow> length lines)"
    have ok: "slice_ok fn lines s e"
      using extract_scan_slice [of fn 0 None lines s e "[]"] scan Some by simp
    have "dis_function dis fn = Some (join [CHR 0x0A] (take (k - s) (drop s lines)))"
      using scan Some by (auto simp: dis_function_def Let_def k_def simp flip: lines_def split: option.splits)
    moreover have "lines = take s lines @ take (k - s) (drop s lines) @ drop (k - s) (drop s lines)"
      by (simp only: append_take_drop_id)
    moreover have "function_slice fn (take (k - s) (drop s lines))"
      using ok by (simp add: slice_ok_def k_def)
    moreover have "other_symbol_next fn (drop (k - s) (drop s lines))"
    proof (cases e)
      case None
      then show ?thesis by (simp add: k_def other_symbol_next_def)
    next
      case (Some j)
      then have "drop (k - s) (drop s lines) = lines ! j # drop (Suc j) lines"
        using ok by (simp add: slice_ok_def k_def Cons_nth_drop_Suc)
      then show ?thesis using ok Some by (simp add: slice_ok_def other_symbol_next_def)
    qed
    ultimately show ?thesis by (auto simp flip: lines_def)
  qed
qed

text \<open>
  The byte group of the instruction pattern also takes a mnemonic that is a hexadecimal
  number: \<open>normalize\<close> removes \<open>add\<close> and \<open>adc\<close>, so that two different instructions have the same
  normal form and do not show in a diff of normalised disassemblies.
\<close>

lemma normalize_drops_add:
  "normalize (''   4:'' @ [CHR 0x09] @ ''8b010000 '' @ [CHR 0x09] @ ''add'' @ [CHR 0x09] @ ''x0, x0, x1'') = ''x0, x0, x1''
   \<and> normalize (''   4:'' @ [CHR 0x09] @ ''9a010000 '' @ [CHR 0x09] @ ''adc'' @ [CHR 0x09] @ ''x0, x0, x1'') = ''x0, x0, x1''
   \<and> normalize (''   4:'' @ [CHR 0x09] @ ''cb010000 '' @ [CHR 0x09] @ ''sub'' @ [CHR 0x09] @ ''x0, x0, x1'')
      = ''sub'' @ [CHR 0x09] @ ''x0, x0, x1''"
  by code_simp

end
