(* ===== verification/Py_Float.thy ===== *)
theory Py_Float
  imports Py_Text Complex_Main "HOL-Library.Log_Nat"
begin

text \<open>
  The floating-point arithmetic and the formatting the optimizer scripts use.

  A finite Python \<open>float\<close> is the rational number it denotes. Every operation rounds its
  exact result with \<open>fl\<close>: to 53 significant bits, ties to even, as IEEE 754 double precision
  does. The exponent is not bounded (no overflow to infinity, no subnormal numbers), there
  is no NaN and no signed zero. The lemmas give the sign of a rounded value and its
  relative error.
\<close>

section \<open>Rounding to double precision\<close>

definition pow2 :: "int \<Rightarrow> rat" where
  "pow2 e = (if 0 \<le> e then 2 ^ nat e else 1 / 2 ^ nat (- e))"

definition round_even :: "rat \<Rightarrow> int" where
  "round_even x =
     (let f = \<lfloor>x\<rfloor>; d = x - of_int f
      in if d < 1 / 2 then f else if 1 / 2 < d then f + 1 else if even f then f else f + 1)"

definition exponent_of :: "rat \<Rightarrow> int" where
  "exponent_of x =
     (let (p, q) = quotient_of \<bar>x\<bar>; e = bitlen p - bitlen q
      in if pow2 e \<le> \<bar>x\<bar> then e else e - 1)"

definition fl :: "rat \<Rightarrow> rat" where
  "fl x = (if x = 0 then 0
     else let e = exponent_of x in of_int (round_even (x * pow2 (52 - e))) * pow2 (e - 52))"

lemma pow2_powi: "pow2 e = 2 powi e"
  by (simp add: pow2_def power_int_def field_simps)

lemma pow2_pos [simp]: "0 < pow2 e"
  by (simp add: pow2_def)

lemma pow2_add: "pow2 (a + b) = pow2 a * pow2 b"
  by (simp add: pow2_powi power_int_add)

lemma round_even_error: "\<bar>of_int (round_even x) - x\<bar> \<le> 1 / 2"
proof -
  define f where "f = \<lfloor>x\<rfloor>"
  have "of_int f \<le> x" "x < of_int f + 1" unfolding f_def by linarith+
  moreover have "round_even x = (if x - of_int f < 1 / 2 then f else if 1 / 2 < x - of_int f then f + 1
      else if even f then f else f + 1)"
    by (simp add: round_even_def Let_def f_def)
  ultimately show ?thesis by (simp split: if_splits)
qed

lemma pow2_bitlen:
  assumes "0 < p"
  shows "pow2 (bitlen p - 1) \<le> of_int p \<and> of_int p < pow2 (bitlen p)"
proof -
  obtain n where p: "p = int n" "0 < n" using assms by (metis pos_int_cases)
  have b: "2 ^ nat (bitlen p - 1) \<le> p \<and> p < 2 ^ nat (bitlen p)"
    using bitlen_bounds [OF assms] .
  have "1 \<le> bitlen p" using assms bitlen_le_iff_power [of p 0] by force
  then have "pow2 (bitlen p - 1) = of_int (2 ^ nat (bitlen p - 1))"
    "pow2 (bitlen p) = of_int (2 ^ nat (bitlen p))"
    by (simp_all add: pow2_def)
  with b show ?thesis by (simp only: of_int_le_iff of_int_less_iff)
qed

lemma exponent_of_le:
  assumes "x \<noteq> 0"
  shows "pow2 (exponent_of x) \<le> \<bar>x\<bar>"
proof -
  obtain p q where pq: "quotient_of \<bar>x\<bar> = (p, q)" by fastforce
  have q: "0 < q" using quotient_of_denom_pos [OF pq] .
  have x: "\<bar>x\<bar> = of_int p / of_int q" using quotient_of_div [OF pq] .
  have p: "0 < p" using x q assms
    by (metis abs_ge_zero of_int_0_le_iff of_int_pos order_less_le zero_le_divide_iff not_less
        divide_eq_0_iff of_int_0 of_int_less_0_iff abs_eq_0)
  have "pow2 (bitlen p - 1) * of_int q \<le> of_int p * pow2 (bitlen q)"
    using pow2_bitlen [OF p] pow2_bitlen [OF q] q p
    by (intro mult_mono) auto
  moreover have "pow2 (bitlen p - 1) = pow2 (bitlen p - bitlen q - 1) * pow2 (bitlen q)"
    by (simp flip: pow2_add)
  ultimately have "pow2 (bitlen p - bitlen q - 1) * of_int q \<le> of_int p"
    by (simp add: mult.assoc mult.commute [of "pow2 (bitlen q)"])
  then have "pow2 (bitlen p - bitlen q - 1) \<le> \<bar>x\<bar>"
    using q by (simp add: x field_simps)
  then show ?thesis by (simp add: exponent_of_def pq Let_def)
qed

lemma scaled_ge:
  assumes "x \<noteq> 0"
  shows "2 ^ 52 \<le> \<bar>x * pow2 (52 - exponent_of x)\<bar>"
proof -
  have "pow2 52 = pow2 (exponent_of x) * pow2 (52 - exponent_of x)" by (simp flip: pow2_add)
  also have "\<dots> \<le> \<bar>x\<bar> * pow2 (52 - exponent_of x)"
    using exponent_of_le [OF assms] by (intro mult_right_mono) (auto intro: less_imp_le)
  also have "\<dots> = \<bar>x * pow2 (52 - exponent_of x)\<bar>"
    by (simp add: abs_mult abs_of_pos)
  finally show ?thesis by (simp add: pow2_def)
qed

lemma fl_error: "\<bar>fl x - x\<bar> \<le> \<bar>x\<bar> / 2 ^ 53"
proof (cases "x = 0")
  case True
  then show ?thesis by (simp add: fl_def)
next
  case False
  define u where "u = pow2 (exponent_of x - 52)"
  define y where "y = x * pow2 (52 - exponent_of x)"
  have u: "0 < u" by (simp add: u_def)
  have "pow2 (52 - exponent_of x) * u = 1" unfolding u_def by (simp flip: pow2_add) (simp add: pow2_def)
  then have xy: "x = y * u" by (simp add: y_def mult.assoc)
  have fx: "fl x = of_int (round_even y) * u" using False by (simp add: fl_def Let_def y_def u_def)
  have "fl x - x = (of_int (round_even y) - y) * u" unfolding fx by (simp add: xy left_diff_distrib)
  then have "\<bar>fl x - x\<bar> = \<bar>of_int (round_even y) - y\<bar> * u" using u by (simp add: abs_mult)
  also have "\<dots> \<le> 1 / 2 * u" using round_even_error u by (intro mult_right_mono) auto
  also have "\<dots> \<le> (\<bar>y\<bar> / 2 ^ 53) * u"
    using scaled_ge [OF False] u by (intro mult_right_mono) (auto simp: y_def)
  also have "\<dots> = \<bar>x\<bar> / 2 ^ 53" using u by (simp add: xy abs_mult)
  finally show ?thesis .
qed

text \<open>Rounding keeps the sign, and only zero rounds to zero.\<close>

lemma fl_0 [simp]: "fl 0 = 0"
  by (simp add: fl_def)

lemma fl_pos [simp]: "0 < fl x \<longleftrightarrow> 0 < x" and fl_neg [simp]: "fl x < 0 \<longleftrightarrow> x < 0"
proof -
  have e: "\<bar>fl x - x\<bar> \<le> \<bar>x\<bar> / 2 ^ 53" by (rule fl_error)
  have "\<bar>x\<bar> / 2 ^ 53 < \<bar>x\<bar>" if "x \<noteq> 0" using that by (simp add: field_simps)
  with e show "0 < fl x \<longleftrightarrow> 0 < x" "fl x < 0 \<longleftrightarrow> x < 0"
    by (cases "x = 0"; fastforce simp: abs_if split: if_splits)+
qed

section \<open>Text\<close>

text \<open>\<open>f"{x:.nf}"\<close> and \<open>f"{x:+.nf}"\<close>: the exact value, rounded half to even at n places.\<close>

definition pad_zeros :: "nat \<Rightarrow> string \<Rightarrow> string" where
  "pad_zeros n s = replicate (n - length s) CHR ''0'' @ s"

definition fixed_abs :: "nat \<Rightarrow> rat \<Rightarrow> string" where
  "fixed_abs n x =
     (let k = nat (round_even (\<bar>x\<bar> * 10 ^ n))
      in digits_of (k div 10 ^ n) @ (if n = 0 then [] else ''.'' @ pad_zeros n (digits_of (k mod 10 ^ n))))"

definition fixed :: "nat \<Rightarrow> rat \<Rightarrow> string" where
  "fixed n x = (if x < 0 then ''-'' else []) @ fixed_abs n x"

definition fixed_signed :: "nat \<Rightarrow> rat \<Rightarrow> string" where
  "fixed_signed n x = (if x < 0 then ''-'' else ''+'') @ fixed_abs n x"

text \<open>\<open>float(s)\<close> for digits with an optional fraction.\<close>

definition py_float :: "string \<Rightarrow> rat" where
  "py_float s =
     (let (whole, dot, frac) = partition_chr CHR ''.'' s
      in fl (of_int (val_digits (whole @ frac)) / 10 ^ length frac))"

text \<open>\<open>repr(s)\<close> of a text of ASCII characters.\<close>

definition hex_digit :: "nat \<Rightarrow> char" where
  "hex_digit n = (if n < 10 then char_of (48 + n) else char_of (87 + n))"

definition repr_chr :: "char \<Rightarrow> char \<Rightarrow> string" where
  "repr_chr q c =
     (if c = q \<or> c = CHR 0x5C then [CHR 0x5C, c]
      else if c = CHR 0x0A then [CHR 0x5C, CHR ''n'']
      else if c = CHR 0x0D then [CHR 0x5C, CHR ''r'']
      else if c = CHR 0x09 then [CHR 0x5C, CHR ''t'']
      else if of_char c < (32 :: nat) \<or> (127 :: nat) \<le> of_char c
      then [CHR 0x5C, CHR ''x'', hex_digit (of_char c div 16), hex_digit (of_char c mod 16)]
      else [c])"

definition py_repr :: "string \<Rightarrow> string" where
  "py_repr s =
     (let q = (if CHR 0x27 \<in> set s \<and> CHR 0x22 \<notin> set s then CHR 0x22 else CHR 0x27)
      in [q] @ concat (map (repr_chr q) s) @ [q])"

end
