(* ===== verification/Strategy.thy ===== *)
theory Strategy
  imports Reg_Pressure Disasm Py_Float
begin

text \<open>
  The optimization strategies (scripts/strategy.py): the metrics a candidate is judged by,
  the static hard constraints, the workload-connection check and the accept decision.
  The class hierarchy is the datatype \<open>strategy_class\<close>, and each method a definition that
  branches on it; the profile documents are an argument (\<open>None\<close> for a missing file).
\<close>

section \<open>Metrics and decisions\<close>

record metrics =
  runtime_ns :: "rat option"
  instruction_count :: "int option"
  load_insns :: "int option"
  store_insns :: "int option"
  save_restore_count :: "int option"
  peak_register_pressure :: "int option"
  stack_bytes :: "int option"
  binary_size :: "int option"
  extra :: "(string, rat) dict"
  heap_ok :: bool
  constant_time_ok :: bool

definition metric_field :: "metrics \<Rightarrow> string \<Rightarrow> rat option" where
  "metric_field mt name =
     (let ints = [(''instruction_count'', instruction_count mt), (''load_count'', load_insns mt),
          (''store_count'', store_insns mt), (''save_restore_count'', save_restore_count mt),
          (''peak_register_pressure'', peak_register_pressure mt), (''stack_bytes'', stack_bytes mt),
          (''binary_size'', binary_size mt)]
      in if name = ''runtime_ns'' then runtime_ns mt
         else case map_of ints name of
             Some v \<Rightarrow> map_option (\<lambda>i. fl (of_int i)) v
           | None \<Rightarrow> None)"

definition get_metric :: "metrics \<Rightarrow> string \<Rightarrow> rat option" where
  "get_metric mt name =
     (case metric_field mt name of
        Some v \<Rightarrow> Some v
      | None \<Rightarrow> map_of (extra mt) name)"

record accept_decision =
  keep :: bool
  rule :: string
  metric :: "string option"
  reason :: string

definition render_decision :: "accept_decision \<Rightarrow> string" where
  "render_decision d = ''['' @ rule d @ ''] '' @ reason d"

section \<open>Static counts\<close>

definition LOAD_RE :: rx where
  "LOAD_RE = seqs [Bos, Grp 1 (alts (map lit [''ldr'', ''ldp'', ''ldur'', ''ldnp'', ''ld1'', ''ld2'', ''ld3'', ''ld4'',
     ''ldar'', ''ldxr'', ''ldaxr'', ''ldpsw'', ''ldrsw'', ''ldrsb'', ''ldrsh''])), Star wordc, WordB]"

definition STORE_RE :: rx where
  "STORE_RE = seqs [Bos, Grp 1 (alts (map lit [''str'', ''stp'', ''stur'', ''stnp'', ''st1'', ''st2'', ''st3'', ''st4'',
     ''stlr'', ''stxr'', ''stlxr''])), Star wordc, WordB]"

definition is_insn_line :: "string \<Rightarrow> bool" where
  "is_insn_line l \<longleftrightarrow> l \<noteq> [] \<and> \<not> endswith (rstrip_of py_space l) '':''"

definition dis_lines :: "string \<Rightarrow> string list" where
  "dis_lines dis = split_lines (normalize dis)"

definition instruction_counts :: "string option \<Rightarrow> int option \<times> int option \<times> int option" where
  "instruction_counts disassembly =
     (case disassembly of
        None \<Rightarrow> (None, None, None)
      | Some dis \<Rightarrow>
          if dis = [] then (None, None, None)
          else
            let insns = filter is_insn_line (dis_lines dis);
                loads = length (filter (\<lambda>l. re_matches LOAD_RE (strip l)) insns);
                stores = length (filter (\<lambda>l. re_matches STORE_RE (strip l)) insns)
            in (Some (int (length insns)), Some (int loads), Some (int stores)))"

definition register_metrics :: "string \<Rightarrow> source_index \<Rightarrow> string \<Rightarrow> int option \<times> int option \<times> int option" where
  "register_metrics rootdir ix function =
     (case find (\<lambda>info. fi_name info = function) (collect rootdir ix) of
        Some info \<Rightarrow> (Some (int (peak info)), Some (int (save_restore info)), Some (frame info))
      | None \<Rightarrow> (None, None, None))"

definition find_region :: "source_index \<Rightarrow> string \<Rightarrow> region option" where
  "find_region ix function = map_of (by_name ix) function"

section \<open>Hard-constraint heuristics\<close>

definition BRANCH_RE :: rx where
  "BRANCH_RE = seqs [Bos, Grp 1 (alts [Seq (lit ''b.'') (rep1 wordc), lit ''cbz'', lit ''cbnz'', lit ''tbz'', lit ''tbnz'']), WordB]"

definition branch_signature :: "string option \<Rightarrow> string list option" where
  "branch_signature disassembly =
     (case disassembly of
        None \<Rightarrow> None
      | Some dis \<Rightarrow>
          if dis = [] then None
          else Some (map (\<lambda>l. hd (split_ws l))
            (filter (\<lambda>l. l \<noteq> [] \<and> re_matches BRANCH_RE (strip l)) (dis_lines dis))))"

definition constant_time_violation :: "string option \<Rightarrow> string option \<Rightarrow> string option" where
  "constant_time_violation baseline_dis candidate_dis =
     (case (branch_signature baseline_dis, branch_signature candidate_dis) of
        (Some base, Some cand) \<Rightarrow>
          if length base < length cand
          then Some (''candidate has '' @ str_nat (length cand) @ '' conditional branch(es) vs the current best''
            @ [CHR 0x27] @ ''s '' @ str_nat (length base)
            @ '' -- cannot prove secret-independent control flow is preserved'')
          else None
      | _ \<Rightarrow> None)"

definition HEAP_CALL_RE :: rx where
  "HEAP_CALL_RE = seqs [WordB, lit ''bl'', Opt (lit ''e''), rep1 ws, Opt (lit ''_''),
     Grp 1 (alts (map lit [''malloc'', ''calloc'', ''realloc'', ''mmap''])), WordB]"

definition heap_calls :: "string \<Rightarrow> string set" where
  "heap_calls src = set (map (\<lambda>g. group_str g 1) (re_finditer HEAP_CALL_RE src))"

definition heap_violation :: "string \<Rightarrow> string \<Rightarrow> string option" where
  "heap_violation baseline_src candidate_src =
     (let new_calls = heap_calls candidate_src - heap_calls baseline_src
      in if new_calls \<noteq> {}
         then Some (''candidate calls '' @ join '', '' (sorted_list_of_set new_calls) @ '', which the baseline never did'')
         else None)"

section \<open>Connection to the measured workload\<close>

definition PCT_RE :: rx where
  "PCT_RE = seqs [Grp 1 (Seq (rep1 digit) (Opt (Seq (lit ''.'') (rep1 digit)))), Star ws, lit ''%'']"

definition strip_bars :: "string \<Rightarrow> string" where
  "strip_bars s = rstrip_of (\<lambda>c. c = CHR ''|'') (lstrip_of (\<lambda>c. c = CHR ''|'') s)"

definition share_of_line :: "string \<Rightarrow> string \<Rightarrow> rat option" where
  "share_of_line keyword line =
     (if \<not> startswith line ''|'' \<or> \<not> has_sub (lower keyword) (lower line) then None
      else
        let cells = map strip (split_chr CHR ''|'' (strip_bars (strip line)))
        in if length cells \<noteq> 3 then None
           else map_option (\<lambda>g. py_float (group_str g 1)) (re_search PCT_RE (cells ! 2)))"

fun first_some :: "'a option list \<Rightarrow> 'a option" where
  "first_some [] = None"
| "first_some (None # xs) = first_some xs"
| "first_some (Some x # xs) = Some x"

definition doc_share :: "string \<Rightarrow> string option \<Rightarrow> rat option" where
  "doc_share keyword doc =
     (case doc of None \<Rightarrow> None | Some text \<Rightarrow> first_some (map (share_of_line keyword) (split_lines text)))"

definition workload_share :: "string \<Rightarrow> string option list \<Rightarrow> rat option" where
  "workload_share keyword docs = first_some (map (doc_share keyword) docs)"

section \<open>The strategies\<close>

datatype strategy_class =
    SpeedStrategy
  | RegisterPressureStrategy
  | GHASHStrategy
  | P256ReductionStrategy
  | GenericMetricStrategy string

record strategy =
  cls :: strategy_class
  st_function :: string
  workload_keyword :: "string option"
  min_workload_share_pct :: "rat option"

datatype strategy_error = StrategyTargetError string | ValueError string

definition strategy_name :: "strategy_class \<Rightarrow> string" where
  "strategy_name c = (case c of
     SpeedStrategy \<Rightarrow> ''speed''
   | RegisterPressureStrategy \<Rightarrow> ''register-pressure''
   | GHASHStrategy \<Rightarrow> ''crypto-ghash''
   | P256ReductionStrategy \<Rightarrow> ''crypto-p256-reduce''
   | GenericMetricStrategy mode \<Rightarrow> mode)"

definition is_crypto :: "strategy_class \<Rightarrow> bool" where
  "is_crypto c \<longleftrightarrow> c = GHASHStrategy \<or> c = P256ReductionStrategy"

definition constant_time :: "strategy \<Rightarrow> bool" where
  "constant_time s = is_crypto (cls s)"

text \<open>\<open>Strategy.__init__\<close>: the instance, or the error it raises.\<close>

definition init_strategy :: "strategy_class \<Rightarrow> string \<Rightarrow> string option list \<Rightarrow> string option \<Rightarrow> rat option
    \<Rightarrow> strategy_error + strategy" where
  "init_strategy c function docs keyword min_share =
     (let st = \<lparr>cls = c, st_function = function, workload_keyword = keyword, min_workload_share_pct = min_share\<rparr>
      in case keyword of
        None \<Rightarrow> Inr st
      | Some kw \<Rightarrow>
          let required = (case min_share of Some r \<Rightarrow> r | None \<Rightarrow> 0);
              fail = (\<lambda>have. Inl (StrategyTargetError (strategy_name c @ '': '' @ py_repr function
                @ '' is not connected to measured workload -- docs/PROFILE*.MD shows '' @ have @ '' '' @ py_repr kw
                @ '' (need >= '' @ fixed 1 required
                @ ''%). Re-profile first (scripts/profile_workload.py), or pick a strategy/target the profile actually supports.'')))
          in case workload_share kw docs of
               None \<Rightarrow> fail ''no row for''
             | Some share \<Rightarrow> if share < required then fail (''only '' @ fixed 1 share @ ''% for'') else Inr st)"

definition ghash_strategy :: "string \<Rightarrow> string option list \<Rightarrow> strategy_error + strategy" where
  "ghash_strategy function docs =
     (if function \<noteq> ''.Lgcm_ghash_run''
      then Inl (StrategyTargetError (strategy_name GHASHStrategy
        @ '': target is .Lgcm_ghash_run (src/crypto/gcm/data.S), not the standalone `ghash` symbol or '' @ py_repr function))
      else init_strategy GHASHStrategy function docs (Some ''AES-GCM'') (Some 1))"

definition p256_strategy :: "string \<Rightarrow> string option list \<Rightarrow> strategy_error + strategy" where
  "p256_strategy function docs =
     (if function \<noteq> ''p256_reduce''
      then Inl (StrategyTargetError (strategy_name P256ReductionStrategy
        @ '': target is p256_reduce (src/crypto/p256/sqr_mul.S), not {function!r}''))
      else init_strategy P256ReductionStrategy function docs (Some ''P-256 reduction'') (Some 1))"

definition METRICS :: "(string \<times> string) list" where
  "METRICS = [(''instruction'', ''instruction_count''), (''load-store'', ''load_count''), (''combined'', ''combined_score'')]"

definition generic_strategy :: "string \<Rightarrow> string \<Rightarrow> string option list \<Rightarrow> string \<Rightarrow> rat \<Rightarrow> strategy_error + strategy" where
  "generic_strategy mode function docs keyword min_share =
     (if mode \<notin> set (map fst METRICS) then Inl (ValueError (''unknown generic strategy mode '' @ py_repr mode))
      else init_strategy (GenericMetricStrategy mode) function docs (Some keyword) (Some min_share))"

definition workload_benchmark_cmd :: "strategy \<Rightarrow> string list option" where
  "workload_benchmark_cmd s =
     (let cmd = (\<lambda>name. Some [''make -s -C scripts/benchmarks bench_'' @ name, ''&&'',
            ''./scripts/benchmarks/_bench_bin/bench_'' @ name])
      in case cls s of
           GHASHStrategy \<Rightarrow> cmd ''aes_gcm_encrypt''
         | P256ReductionStrategy \<Rightarrow> cmd ''p256_ecdsa_sign_with_k''
         | _ \<Rightarrow> None)"

definition required_metrics :: "strategy \<Rightarrow> string list" where
  "required_metrics s =
     (case cls s of
        SpeedStrategy \<Rightarrow> [''runtime_ns'']
      | RegisterPressureStrategy \<Rightarrow> [''runtime_ns'', ''save_restore_count'', ''instruction_count'', ''peak_register_pressure'']
      | GenericMetricStrategy mode \<Rightarrow>
          if mode = ''load-store'' then [''runtime_ns'', ''load_count'', ''store_count'']
          else if mode = ''combined'' then [''runtime_ns'', ''instruction_count'', ''peak_register_pressure'']
          else [''runtime_ns'', ''instruction_count'']
      | _ \<Rightarrow> [''runtime_ns'', ''workload_runtime_ns''])"

definition primary_metric_name :: "strategy \<Rightarrow> string" where
  "primary_metric_name s =
     (case cls s of
        SpeedStrategy \<Rightarrow> ''runtime_ns''
      | RegisterPressureStrategy \<Rightarrow> ''runtime_ns''
      | GenericMetricStrategy mode \<Rightarrow> the (map_of METRICS mode)
      | _ \<Rightarrow> ''workload_runtime_ns'')"

definition combined_score :: "metrics \<Rightarrow> rat option" where
  "combined_score mt =
     (case runtime_ns mt of
        None \<Rightarrow> None
      | Some score \<Rightarrow>
          let score = (case instruction_count mt of
                Some ic \<Rightarrow> fl (score + fl (fl (of_int ic) * fl (1 / 100))) | None \<Rightarrow> score);
              score = (case peak_register_pressure mt of
                Some pr \<Rightarrow> fl (score + fl (fl (of_int pr) * fl (1 / 1000))) | None \<Rightarrow> score)
          in Some score)"

definition primary_metric :: "strategy \<Rightarrow> metrics \<Rightarrow> rat option" where
  "primary_metric s mt =
     (case cls s of
        GenericMetricStrategy mode \<Rightarrow>
          if mode = ''load-store''
          then (case (load_insns mt, store_insns mt) of
                  (Some l, Some t) \<Rightarrow> Some (fl (of_int (l + t))) | _ \<Rightarrow> None)
          else if mode = ''combined'' then combined_score mt
          else get_metric mt (primary_metric_name s)
      | _ \<Rightarrow> get_metric mt (primary_metric_name s))"

definition reject :: "string \<Rightarrow> string option \<Rightarrow> string \<Rightarrow> accept_decision" where
  "reject rl mt rs = \<lparr>keep = False, rule = rl, metric = mt, reason = rs\<rparr>"

definition stack_grew :: "metrics \<Rightarrow> metrics \<Rightarrow> (int \<times> int) option" where
  "stack_grew old new =
     (case (stack_bytes old, stack_bytes new) of
        (Some b, Some a) \<Rightarrow> if b < a then Some (b, a) else None
      | _ \<Rightarrow> None)"

definition hard_constraints :: "strategy \<Rightarrow> metrics \<Rightarrow> metrics \<Rightarrow> accept_decision option" where
  "hard_constraints s old new =
     (case stack_grew old new of
        Some (b, a) \<Rightarrow> Some (reject ''stack-increase'' (Some ''stack_bytes'')
          (''stack frame grew '' @ str_int b @ '' -> '' @ str_int a @ '' bytes''))
      | None \<Rightarrow>
          if \<not> heap_ok new
          then Some (reject ''heap-increase'' None ''candidate introduces a heap allocation the baseline did not have'')
          else if constant_time s \<and> \<not> constant_time_ok new
          then Some (reject ''constant-time'' None ''candidate may not preserve constant-time control flow'')
          else None)"

definition improvement_pct :: "rat \<Rightarrow> rat \<Rightarrow> rat" where
  "improvement_pct b a = fl (fl (fl (b - a) / b) * 100)"

definition accept :: "strategy \<Rightarrow> metrics \<Rightarrow> metrics \<Rightarrow> rat \<Rightarrow> rat \<Rightarrow> accept_decision" where
  "accept s old new min_improvement noise_floor =
     (case hard_constraints s old new of
        Some violation \<Rightarrow> violation
      | None \<Rightarrow>
          let mn = primary_metric_name s in
          case (primary_metric s old, primary_metric s new) of
            (Some b, Some a) \<Rightarrow>
              if b = 0 then reject ''missing-metric'' (Some mn) (mn @ '' baseline is zero -- cannot score'')
              else
                let improvement = improvement_pct b a; required = max min_improvement noise_floor
                in if required < improvement
                   then \<lparr>keep = True, rule = ''workload-improvement'', metric = Some mn,
                     reason = mn @ '' improved '' @ fixed_signed 3 improvement @ ''% (> required '' @ fixed 3 required @ ''%)''\<rparr>
                   else reject ''no-improvement'' (Some mn)
                     (mn @ '' changed '' @ fixed_signed 3 improvement @ ''% (required > '' @ fixed 3 required @ ''%)'')
          | _ \<Rightarrow> reject ''missing-metric'' (Some mn)
              (mn @ '' unavailable -- cannot score against '' @ strategy_name (cls s)))"

definition STRATEGY_CHOICES :: "string list" where
  "STRATEGY_CHOICES = [''speed'', ''algorithm'', ''instruction'', ''register-pressure'', ''load-store'', ''crypto'', ''combined'']"

definition unknown_strategy :: "string \<Rightarrow> string" where
  "unknown_strategy name = ''unknown strategy '' @ py_repr name @ ''; choices: (''
     @ join '', '' (map py_repr STRATEGY_CHOICES) @ '')''"

definition build_strategy :: "string \<Rightarrow> string \<Rightarrow> string option list \<Rightarrow> string option \<Rightarrow> rat option
    \<Rightarrow> strategy_error + strategy" where
  "build_strategy name function docs keyword min_share =
     (if name = ''speed'' then init_strategy SpeedStrategy function docs None None
      else if name = ''algorithm'' \<or> name = ''crypto'' then
        (if function = ''.Lgcm_ghash_run'' then ghash_strategy function docs
         else if function = ''p256_reduce'' then p256_strategy function docs
         else Inl (StrategyTargetError (''--strategy '' @ name @ '' has no strategy registered for '' @ py_repr function
           @ ''; registered targets: .Lgcm_ghash_run, p256_reduce. Add a CryptoStrategy subclass in scripts/strategy.py to add one.'')))
      else if name = ''register-pressure'' then
        (case (keyword, min_share) of
           (Some kw, Some ms) \<Rightarrow> init_strategy RegisterPressureStrategy function docs (Some kw) (Some ms)
         | _ \<Rightarrow> Inl (StrategyTargetError (''--strategy register-pressure requires --workload-keyword and --min-workload-share -- a register optimization must be connected to a docs/PROFILE*.MD row, never justified by register count alone (docs/SCRIPTS.md'' @ [CHR 0x27] @ ''s '' @ [CHR 0x22] @ ''Important rule'' @ [CHR 0x22] @ '')'')))
      else if name = ''instruction'' \<or> name = ''load-store'' \<or> name = ''combined'' then
        (case (keyword, min_share) of
           (Some kw, Some ms) \<Rightarrow> generic_strategy name function docs kw ms
         | _ \<Rightarrow> Inl (StrategyTargetError (''--strategy '' @ name @ '' requires --workload-keyword and --min-workload-share -- a static-metric target must be connected to a docs/PROFILE*.MD row, never justified by its static shape alone (docs/SCRIPTS.md'' @ [CHR 0x27] @ ''s '' @ [CHR 0x22] @ ''Important rule'' @ [CHR 0x22] @ '')'')))
      else Inl (ValueError (unknown_strategy name)))"

section \<open>What an accepted candidate has\<close>

lemma improvement_pos:
  assumes "0 < improvement_pct b a"
  shows "if 0 < b then a < b else b < a"
proof -
  have "0 < fl (b - a) / b" using assms by (simp add: improvement_pct_def zero_less_mult_iff)
  then show ?thesis by (auto simp: zero_less_divide_iff)
qed

lemma accept_keep_iff:
  "keep (accept s old new mi nf) \<longleftrightarrow>
     hard_constraints s old new = None
     \<and> (\<exists>b a. primary_metric s old = Some b \<and> primary_metric s new = Some a \<and> b \<noteq> 0
          \<and> max mi nf < improvement_pct b a)"
proof -
  have "\<not> keep v" if "hard_constraints s old new = Some v" for v
    using that by (auto simp: hard_constraints_def reject_def split: option.splits prod.splits if_splits)
  then show ?thesis
    by (auto simp: accept_def reject_def Let_def split: option.splits)
qed

lemma hard_constraints_None:
  "hard_constraints s old new = None \<longleftrightarrow>
     stack_grew old new = None \<and> heap_ok new \<and> (constant_time s \<longrightarrow> constant_time_ok new)"
  by (auto simp: hard_constraints_def split: option.splits)

text \<open>
  C14. A kept candidate passed every hard constraint (the stack frame did not grow, no new
  allocator call, no new conditional branch for a constant-time target), and its primary
  metric is available, improved by more than both thresholds and, the thresholds not being
  negative, is strictly smaller than the positive metric of the best so far: rounding in
  the percentage never turns a slower candidate into an improvement.
\<close>

theorem accept_sound:
  assumes "keep (accept s old new mi nf)" and "0 \<le> max mi nf"
  shows "stack_grew old new = None \<and> heap_ok new \<and> (constant_time s \<longrightarrow> constant_time_ok new)
    \<and> (\<exists>b a. primary_metric s old = Some b \<and> primary_metric s new = Some a
         \<and> max mi nf < improvement_pct b a \<and> (if 0 < b then a < b else b < a))"
proof -
  obtain b a where "primary_metric s old = Some b" "primary_metric s new = Some a"
      and i: "max mi nf < improvement_pct b a"
    using assms(1) by (auto simp: accept_keep_iff)
  moreover have "if 0 < b then a < b else b < a"
    using i assms(2) by (intro improvement_pos) linarith
  ultimately show ?thesis
    using assms(1) by (auto simp: accept_keep_iff hard_constraints_None)
qed

definition no_metrics :: metrics where
  "no_metrics = \<lparr>runtime_ns = None, instruction_count = None, load_insns = None, store_insns = None,
     save_restore_count = None, peak_register_pressure = None, stack_bytes = None, binary_size = None,
     extra = [], heap_ok = True, constant_time_ok = True\<rparr>"

definition speed :: strategy where
  "speed = \<lparr>cls = SpeedStrategy, st_function = ''memcpy'', workload_keyword = None, min_workload_share_pct = None\<rparr>"

lemma speed_example:
  "keep (accept speed (no_metrics\<lparr>runtime_ns := Some 100\<rparr>) (no_metrics\<lparr>runtime_ns := Some 90\<rparr>) 0 5)"
proof -
  have "5 < improvement_pct 100 90" by code_simp
  then show ?thesis
    by (simp add: accept_keep_iff hard_constraints_None speed_def no_metrics_def stack_grew_def constant_time_def
        is_crypto_def primary_metric_def primary_metric_name_def get_metric_def metric_field_def)
qed

theorem accept_sound_witness:
  "stack_grew (no_metrics\<lparr>runtime_ns := Some 100\<rparr>) (no_metrics\<lparr>runtime_ns := Some 90\<rparr>) = None
    \<and> (\<exists>b a. primary_metric speed (no_metrics\<lparr>runtime_ns := Some 100\<rparr>) = Some b
         \<and> primary_metric speed (no_metrics\<lparr>runtime_ns := Some 90\<rparr>) = Some a
         \<and> (if 0 < b then a < b else b < a))"
  using accept_sound [OF speed_example] by fastforce

definition combined :: strategy where
  "combined = \<lparr>cls = GenericMetricStrategy ''combined'', st_function = ''memcpy'',
     workload_keyword = Some ''copy'', min_workload_share_pct = Some 1\<rparr>"

text \<open>
  The combined score is announced as one under which \<open>a candidate must still be at least
  as fast\<close>; the code only compares the score, and keeps a candidate whose runtime grew
  from 100 to 101 nanoseconds because its instruction count fell.
\<close>

lemma combined_accepts_slower:
  "keep (accept combined (no_metrics\<lparr>runtime_ns := Some 100, instruction_count := Some 1000\<rparr>)
     (no_metrics\<lparr>runtime_ns := Some 101, instruction_count := Some 100\<rparr>) 0 1)"
proof -
  have "case (combined_score (no_metrics\<lparr>runtime_ns := Some 100, instruction_count := Some 1000\<rparr>),
      combined_score (no_metrics\<lparr>runtime_ns := Some 101, instruction_count := Some 100\<rparr>)) of
    (Some b, Some a) \<Rightarrow> 1 < improvement_pct b a \<and> b \<noteq> 0 | _ \<Rightarrow> False"
    by code_simp
  then show ?thesis
    by (auto simp: accept_keep_iff hard_constraints_None combined_def no_metrics_def stack_grew_def constant_time_def
        is_crypto_def primary_metric_def split: option.splits)
qed

section \<open>Every strategy but speed is connected to a measured workload\<close>

definition connected :: "string option list \<Rightarrow> strategy \<Rightarrow> bool" where
  "connected docs s \<longleftrightarrow> (\<exists>kw req share. workload_keyword s = Some kw \<and> min_workload_share_pct s = Some req
     \<and> workload_share kw docs = Some share \<and> req \<le> share)"

lemma init_strategy_connected:
  assumes "init_strategy c fn docs (Some kw) (Some req) = Inr s"
  shows "connected docs s \<and> cls s = c \<and> st_function s = fn"
  using assms by (auto simp: init_strategy_def connected_def Let_def split: option.splits if_splits)

lemma first_some_in: "first_some xs = Some x \<Longrightarrow> Some x \<in> set xs"
  by (induction xs rule: first_some.induct) auto

lemma workload_share_row:
  assumes "workload_share kw docs = Some share"
  shows "\<exists>text line. Some text \<in> set docs \<and> line \<in> set (split_lines text) \<and> share_of_line kw line = Some share"
proof -
  obtain t where "Some t \<in> set docs"
      and "first_some (map (share_of_line kw) (split_lines t)) = Some share"
    using first_some_in [OF assms [unfolded workload_share_def]]
    by (auto simp: doc_share_def split: option.splits)
  then show ?thesis using first_some_in [of "map (share_of_line kw) (split_lines t)"] by fastforce
qed

text \<open>
  C15. A strategy that is built under a name other than \<open>speed\<close> is for the function it was
  asked for and rests on a row of a profile document: a three-cell table line that contains
  the keyword and gives a share of at least the required one. Without such a row, without a
  keyword or a share where the command line has to give them, or for an unknown name,
  \<open>build_strategy\<close> raises instead.
\<close>

theorem build_strategy_connected:
  assumes "build_strategy name fn docs keyword min_share = Inr s" and "name \<noteq> ''speed''"
  shows "name \<in> set STRATEGY_CHOICES \<and> st_function s = fn
    \<and> (\<exists>kw req share text line. workload_keyword s = Some kw \<and> min_workload_share_pct s = Some req
         \<and> Some text \<in> set docs \<and> line \<in> set (split_lines text)
         \<and> share_of_line kw line = Some share \<and> req \<le> share)"
proof -
  have "connected docs s \<and> st_function s = fn"
    using assms
    by (auto simp: build_strategy_def ghash_strategy_def p256_strategy_def generic_strategy_def
        dest: init_strategy_connected split: if_splits option.splits)
  moreover have "name \<in> set STRATEGY_CHOICES"
    using assms by (auto simp: build_strategy_def STRATEGY_CHOICES_def split: if_splits)
  ultimately show ?thesis
    by (fastforce simp: connected_def dest: workload_share_row)
qed

definition profile_doc :: string where
  "profile_doc = ''| P-256 reduction | 12.5 ms | 21.4% |''"

theorem build_strategy_connected_witness:
  "\<exists>s. build_strategy ''crypto'' ''p256_reduce'' [Some profile_doc] None None = Inr s
    \<and> st_function s = ''p256_reduce''
    \<and> (\<exists>kw req share text line. workload_keyword s = Some kw \<and> min_workload_share_pct s = Some req
         \<and> Some text \<in> set [Some profile_doc] \<and> line \<in> set (split_lines text)
         \<and> share_of_line kw line = Some share \<and> req \<le> share)"
proof -
  have "build_strategy ''crypto'' ''p256_reduce'' [Some profile_doc] None None
    = Inr \<lparr>cls = P256ReductionStrategy, st_function = ''p256_reduce'',
        workload_keyword = Some ''P-256 reduction'', min_workload_share_pct = Some 1\<rparr>"
    by code_simp
  then show ?thesis using build_strategy_connected by fastforce
qed

end
