(* ===== verification/Mut_Schedule.thy ===== *)
theory Mut_Schedule
  imports Abi_Effect "HOL-Library.Multiset" "HOL-Library.Product_Lexorder"
begin

text \<open>
  The shared helpers of the mutations (scripts/mutations/__init__.py) and the scheduling
  mutations (scripts/mutations/scheduling.py): dropping no-ops and the list scheduler.
  The heap of the scheduler is a sorted list: \<open>heappush\<close> inserts, \<open>heappop\<close> takes the head.
\<close>

section \<open>Shared helpers\<close>

definition label_chr :: rx where
  "label_chr = Cls (\<lambda>c. char_between CHR ''A'' CHR ''Z'' c \<or> char_between CHR ''a'' CHR ''z'' c
     \<or> char_between CHR ''0'' CHR ''9'' c \<or> c \<in> set ''_.$'')"

definition LABEL_ONLY_RE :: rx where
  "LABEL_ONLY_RE = seqs [Bos, rep1 label_chr, lit '':'', Star ws, Eos]"

fun split_at :: "('a \<Rightarrow> bool) \<Rightarrow> 'a list \<Rightarrow> ('a list \<times> 'a \<times> 'a list) option" where
  "split_at p [] = None"
| "split_at p (x # xs) =
     (if p x then Some ([], x, xs)
      else case split_at p xs of None \<Rightarrow> None | Some (a, y, b) \<Rightarrow> Some (x # a, y, b))"

definition split_function :: "string \<Rightarrow> (string list \<times> string \<times> string list) option" where
  "split_function function_text =
     split_at (\<lambda>line. re_matches LABEL_ONLY_RE (strip line)) (split_lines function_text)"

definition strip_insn :: "string \<Rightarrow> string" where
  "strip_insn line = strip (cut_at ''/*'' (cut_at ''//'' line))"

definition unsplit :: "string list \<Rightarrow> string \<Rightarrow> string list \<Rightarrow> string" where
  "unsplit preamble label body = join [CHR 0x0A] (preamble @ [label] @ body) @ [CHR 0x0A]"

section \<open>Removing no-ops\<close>

definition gpr :: rx where
  "gpr = alts [Seq (chr CHR ''x'') (rep1 digit), Seq (chr CHR ''w'') (rep1 digit)]"

text \<open>
  The two patterns end in a back reference to group 1. Group 2 stands for the text it has
  to match; the pattern matches when some parse gives both groups the same text.
\<close>

definition MOV_NOOP :: rx where
  "MOV_NOOP = seqs [Bos, lit ''mov'', rep1 ws, Grp 1 gpr, lit '','', Star ws, Grp 2 (rep1 wordc), Eos]"

definition ALU_NOOP :: rx where
  "ALU_NOOP = seqs [Bos, alts [lit ''add'', lit ''sub''], rep1 ws, Grp 1 gpr, lit '','', Star ws,
     Grp 2 (rep1 wordc), lit '','', Star ws, lit ''#0'', Eos]"

definition re_match_back :: "rx \<Rightarrow> string \<Rightarrow> bool" where
  "re_match_back r s \<longleftrightarrow> list_ex (\<lambda>(p, g). group_str g 1 = group_str g 2) (rx_match r (([], s), []))"

definition is_noop :: "string \<Rightarrow> bool" where
  "is_noop line \<longleftrightarrow> (let s = strip_insn line in re_match_back MOV_NOOP s \<or> re_match_back ALU_NOOP s)"

definition remove_redundant_mov :: "string \<Rightarrow> string option" where
  "remove_redundant_mov function_text =
     (case split_function function_text of
        None \<Rightarrow> None
      | Some (preamble, label, body) \<Rightarrow>
          if list_ex is_noop body then Some (unsplit preamble label (filter (\<lambda>l. \<not> is_noop l) body)) else None)"

section \<open>The list scheduler\<close>

definition FLAG_MNEMONICS :: "string list" where
  "FLAG_MNEMONICS = [''cmp'', ''cmn'', ''tst'', ''fcmp'', ''fcmpe'', ''fccmp'', ''fccmpe'']"

definition BASE_RE :: rx where
  "BASE_RE = seqs [lit ''['', Grp 1 (alts [Seq (chr CHR ''x'') (rep1 digit), Seq (chr CHR ''w'') (rep1 digit), lit ''sp'']), lit '']'']"

definition is_branch :: "string \<Rightarrow> bool" where
  "is_branch mn \<longleftrightarrow> mn \<in> {''b'', ''br'', ''ret''} \<or> mn \<in> set COND_BRANCH"

definition priority_class :: "string \<Rightarrow> nat" where
  "priority_class mn =
     (if mn \<in> set LOAD_MNEMONICS then 0
      else if is_branch mn then 5
      else if mn \<in> set STORE_MNEMONICS then 2
      else if mn \<in> set FLAG_MNEMONICS \<or> (endswith mn ''s'' \<and> mn \<notin> set STORE_MNEMONICS) then 4
      else 1)"

fun memory_base_of :: "string list \<Rightarrow> string option" where
  "memory_base_of [] = None"
| "memory_base_of (operand # ops) =
     (case re_search BASE_RE operand of Some g \<Rightarrow> Some (group_str g 1) | None \<Rightarrow> memory_base_of ops)"

definition memory_base :: "instruction \<Rightarrow> string option" where
  "memory_base insn = memory_base_of (operands insn)"

definition sched_defs :: "instruction \<Rightarrow> string list" where
  "sched_defs insn = map normalise_reg (loads (effect insn) @ dirtied (effect insn))"

definition sched_uses :: "instruction \<Rightarrow> string list" where
  "sched_uses insn = filter (\<lambda>r. r \<notin> set (sched_defs insn)) (map normalise_reg (insn_regs insn))"

definition meets :: "string list \<Rightarrow> string list \<Rightarrow> bool" where
  "meets xs ys = list_ex (\<lambda>x. x \<in> set ys) xs"

definition is_store :: "instruction \<Rightarrow> bool" where "is_store i \<longleftrightarrow> mnemonic i \<in> set STORE_MNEMONICS"
definition is_load :: "instruction \<Rightarrow> bool" where "is_load i \<longleftrightarrow> mnemonic i \<in> set LOAD_MNEMONICS"

text \<open>The dependency the code computes between an instruction and a later one.\<close>

definition depends :: "instruction \<Rightarrow> instruction \<Rightarrow> bool" where
  "depends a b \<longleftrightarrow>
     meets (sched_uses b) (sched_defs a) \<or> meets (sched_defs a) (sched_defs b)
     \<or> (memory_base a \<noteq> None \<and> memory_base a = memory_base b
        \<and> (is_store a \<or> is_store b) \<and> (is_load a \<or> is_load b))"

definition depends_at :: "instruction list \<Rightarrow> nat \<Rightarrow> nat \<Rightarrow> bool" where
  "depends_at insns i j \<longleftrightarrow> depends (insns ! i) (insns ! j)"

definition needs :: "instruction list \<Rightarrow> nat \<Rightarrow> nat \<Rightarrow> bool" where
  "needs insns j i = depends_at insns i j"

definition succs_of :: "instruction list \<Rightarrow> nat \<Rightarrow> nat list" where
  "succs_of insns i = filter (depends_at insns i) [Suc i..<length insns]"

definition preds_of :: "instruction list \<Rightarrow> nat \<Rightarrow> nat list" where
  "preds_of insns j = filter (needs insns j) [0..<j]"

definition is_ready :: "instruction list \<Rightarrow> nat \<Rightarrow> bool" where
  "is_ready insns i \<longleftrightarrow> preds_of insns i = []"

type_synonym ready = "(nat \<times> nat) list"

definition heap_push :: "instruction list \<Rightarrow> nat \<Rightarrow> ready \<Rightarrow> ready" where
  "heap_push insns i heap = insort (priority_class (mnemonic (insns ! i)), i) heap"

definition release :: "instruction list \<Rightarrow> nat \<Rightarrow> nat \<Rightarrow> nat list list \<times> ready \<Rightarrow> nat list list \<times> ready" where
  "release insns i j st =
     (case st of (preds, heap) \<Rightarrow>
        let p = removeAll i (preds ! j)
        in (preds[j := p], if p = [] then heap_push insns j heap else heap))"

text \<open>
  The scheduling loop. Its fuel is the number of instructions; it is enough, since every
  instruction is popped once (\<open>schedule_order_correct\<close>).
\<close>

fun sched_loop :: "nat \<Rightarrow> instruction list \<Rightarrow> nat list list \<Rightarrow> ready \<Rightarrow> nat list \<Rightarrow> nat list \<times> ready" where
  "sched_loop 0 insns preds heap result = (result, heap)"
| "sched_loop (Suc k) insns preds [] result = (result, [])"
| "sched_loop (Suc k) insns preds ((c, i) # heap) result =
     (case fold (release insns i) (succs_of insns i) (preds, heap) of
        (preds', heap') \<Rightarrow> sched_loop k insns preds' heap' (result @ [i]))"

definition initial_preds :: "instruction list \<Rightarrow> nat list list" where
  "initial_preds insns = map (preds_of insns) [0..<length insns]"

definition initial_heap :: "instruction list \<Rightarrow> ready" where
  "initial_heap insns = fold (heap_push insns) (filter (is_ready insns) [0..<length insns]) []"

definition schedule_order :: "instruction list \<Rightarrow> nat list" where
  "schedule_order insns = fst (sched_loop (length insns) insns (initial_preds insns) (initial_heap insns) [])"

definition schedule_block :: "(nat \<times> instruction) list \<Rightarrow> string list option" where
  "schedule_block block =
     (let insns = map snd block; n = length insns in
      if n < 2 then None
      else let result = schedule_order insns
           in if result = [0..<n] then None else Some (map (\<lambda>i. insn_text (insns ! i)) result))"

section \<open>Rescheduling a function\<close>

definition LABEL_START_RE :: rx where
  "LABEL_START_RE = seqs [Bos, rep1 label_chr, lit '':'']"

definition ends_block :: "string \<Rightarrow> bool" where
  "ends_block stripped \<longleftrightarrow> stripped = [] \<or> startswith stripped ''.'' \<or> startswith stripped ''#''
     \<or> re_matches LABEL_START_RE stripped"

definition block_insn :: "nat \<Rightarrow> string \<Rightarrow> string \<Rightarrow> instruction" where
  "block_insn idx line stripped =
     (let tokens = split_first stripped in
      \<lparr>insn_line = idx + 1, insn_text = line, mnemonic = hd tokens,
       operands = (case tl tokens of [] \<Rightarrow> [] | rest # _ \<Rightarrow> map strip (split_chr CHR '','' rest))\<rparr>)"

text \<open>\<open>flush\<close>: the body with the lines of the block replaced, when the order changed.\<close>

definition flush_sched :: "string list \<Rightarrow> (nat \<times> instruction) list \<Rightarrow> string list option" where
  "flush_sched body block =
     (if length block \<ge> 2
      then map_option (\<lambda>new_lines. fold (\<lambda>((bidx, _), text) out. out[bidx := text]) (zip block new_lines) body)
             (schedule_block block)
      else None)"

fun resched_scan :: "string list \<Rightarrow> nat \<Rightarrow> (nat \<times> instruction) list \<Rightarrow> string list \<Rightarrow> string list option" where
  "resched_scan body idx block [] = None"
| "resched_scan body idx block (line # lines) =
     (let stripped = strip_insn line in
      if ends_block stripped then
        (case flush_sched body block of
           Some out \<Rightarrow> Some out
         | None \<Rightarrow> resched_scan body (Suc idx) [] lines)
      else
        let insn = block_insn idx line stripped; block' = block @ [(idx, insn)]
        in if is_branch (mnemonic insn) then
             (case flush_sched body block' of
                Some out \<Rightarrow> Some out
              | None \<Rightarrow> resched_scan body (Suc idx) [] lines)
           else resched_scan body (Suc idx) block' lines)"

definition reschedule :: "string \<Rightarrow> string option" where
  "reschedule function_text =
     (case split_function function_text of
        None \<Rightarrow> None
      | Some (preamble, label, body) \<Rightarrow> map_option (unsplit preamble label) (resched_scan body 0 [] body))"

section \<open>The schedule respects the computed dependencies\<close>

definition edge :: "instruction list \<Rightarrow> nat \<Rightarrow> nat \<Rightarrow> bool" where
  "edge insns i j \<longleftrightarrow> i < j \<and> j < length insns \<and> depends (insns ! i) (insns ! j)"

lemma set_succs_of [simp]: "set (succs_of insns i) = {j. edge insns i j}"
  by (auto simp: succs_of_def depends_at_def edge_def)

lemma set_preds_of [simp]: "j < length insns \<Longrightarrow> set (preds_of insns j) = {i. edge insns i j}"
  by (auto simp: preds_of_def needs_def depends_at_def edge_def)

lemma distinct_succs_of [simp]: "distinct (succs_of insns i)"
  by (simp add: succs_of_def)

lemma mset_heap_push [simp]: "mset (map snd (heap_push insns i heap)) = add_mset i (mset (map snd heap))"
  by (simp add: heap_push_def)

lemma fold_release:
  assumes "fold (release insns i) js (preds, heap) = (preds', heap')"
    and "distinct js" and "set js \<subseteq> {..<length preds}"
  shows "length preds' = length preds
    \<and> (\<forall>j < length preds. preds' ! j = (if j \<in> set js then removeAll i (preds ! j) else preds ! j))
    \<and> mset (map snd heap') = mset (map snd heap) + mset (filter (\<lambda>j. removeAll i (preds ! j) = []) js)"
  using assms
proof (induction js arbitrary: preds heap)
  case Nil
  then show ?case by simp
next
  case (Cons j js)
  define p where "p = removeAll i (preds ! j)"
  define heap1 where "heap1 = (if p = [] then heap_push insns j heap else heap)"
  have "release insns i j (preds, heap) = (preds[j := p], heap1)"
    by (simp add: release_def Let_def p_def heap1_def)
  then have "fold (release insns i) js (preds[j := p], heap1) = (preds', heap')"
    using Cons.prems(1) by simp
  note IH = Cons.IH [OF this]
  have j: "j < length preds" "j \<notin> set js" and "distinct js" "set js \<subseteq> {..<length preds}"
    using Cons.prems(2,3) by auto
  with IH have IH': "length preds' = length preds"
      "\<And>k. k < length preds \<Longrightarrow> preds' ! k
        = (if k \<in> set js then removeAll i (preds[j := p] ! k) else preds[j := p] ! k)"
      "mset (map snd heap') = mset (map snd heap1)
        + mset (filter (\<lambda>k. removeAll i (preds[j := p] ! k) = []) js)"
    by auto
  have "filter (\<lambda>k. removeAll i (preds[j := p] ! k) = []) js = filter (\<lambda>k. removeAll i (preds ! k) = []) js"
    using j(2) by (intro filter_cong refl) (metis nth_list_update_neq)
  then have "mset (map snd heap') = mset (map snd heap)
      + mset (filter (\<lambda>k. removeAll i (preds ! k) = []) (j # js))"
    using IH'(3) by (simp add: heap1_def p_def del: mset_map)
  moreover have "preds' ! k = (if k \<in> set (j # js) then removeAll i (preds ! k) else preds ! k)"
    if "k < length preds" for k
    using IH'(2) [OF that] j that by (cases "k = j") (auto simp: p_def)
  ultimately show ?case using IH'(1) by blast
qed

definition sched_inv :: "instruction list \<Rightarrow> nat list list \<Rightarrow> ready \<Rightarrow> nat list \<Rightarrow> bool" where
  "sched_inv insns preds heap res \<longleftrightarrow>
     length preds = length insns
     \<and> distinct (res @ map snd heap) \<and> set (res @ map snd heap) \<subseteq> {..<length insns}
     \<and> (\<forall>j < length insns. set (preds ! j) = {i. edge insns i j} - set res)
     \<and> (\<forall>j < length insns. preds ! j = [] \<longleftrightarrow> j \<in> set (res @ map snd heap))
     \<and> (\<forall>a j b. res = a @ j # b \<longrightarrow> {i. edge insns i j} \<subseteq> set a)"

lemma sched_inv_start: "sched_inv insns (initial_preds insns) (initial_heap insns) []"
proof -
  have "mset (map snd (fold (heap_push insns) js h)) = mset js + mset (map snd h)" for js h
    by (induction js arbitrary: h) (simp_all del: mset_map)
  then have h: "mset (map snd (initial_heap insns)) = mset (filter (is_ready insns) [0..<length insns])"
    by (simp add: initial_heap_def del: mset_map)
  have "set (map snd (initial_heap insns)) = {i. i < length insns \<and> preds_of insns i = []}"
    using mset_eq_setD [OF h] by (auto simp: is_ready_def)
  moreover have "distinct (map snd (initial_heap insns))"
    using mset_eq_imp_distinct_iff [OF h] by simp
  ultimately show ?thesis
    by (auto simp: sched_inv_def initial_preds_def)
qed

lemma sched_inv_step:
  assumes inv: "sched_inv insns preds ((c, i) # heap) res"
    and step: "fold (release insns i) (succs_of insns i) (preds, heap) = (preds', heap')"
  shows "sched_inv insns preds' heap' (res @ [i])"
proof -
  let ?n = "length insns"
  have i: "i < ?n" "i \<notin> set res" using inv by (auto simp: sched_inv_def)
  have pre: "set (preds ! j) = {k. edge insns k j} - set res" if "j < ?n" for j
    using inv that by (simp add: sched_inv_def)
  have len: "length preds = ?n" using inv by (simp add: sched_inv_def)
  have iff: "preds ! j = [] \<longleftrightarrow> j \<in> set (res @ map snd ((c, i) # heap))" if "j < ?n" for j
    using inv that unfolding sched_inv_def by blast
  have "set (succs_of insns i) \<subseteq> {..<length preds}" using len by (auto simp: edge_def)
  note fr = fold_release [OF step distinct_succs_of this, unfolded len]
  have preds': "preds' ! j = (if edge insns i j then removeAll i (preds ! j) else preds ! j)" if "j < ?n" for j
    using fr that by simp
  have set': "set (preds' ! j) = {k. edge insns k j} - set (res @ [i])" if "j < ?n" for j
    using preds' [OF that] pre [OF that] by (auto split: if_splits)
  define new where "new = filter (\<lambda>j. removeAll i (preds ! j) = []) (succs_of insns i)"
  have heap': "mset (map snd heap') = mset (map snd heap @ new)"
    using fr by (simp add: new_def)
  have fresh: "j \<notin> set (res @ map snd ((c, i) # heap))" if "edge insns i j" for j
    using iff [of j] pre [of j] i that by (force simp: edge_def)
  have newset: "set new = {j. edge insns i j \<and> preds' ! j = []}"
    using preds' by (auto simp: new_def edge_def)
  have all: "mset ((res @ [i]) @ map snd heap') = mset (res @ i # map snd heap @ new)"
    using heap' by simp
  have dist: "distinct ((res @ [i]) @ map snd heap')"
    unfolding mset_eq_imp_distinct_iff [OF all]
    using inv fresh newset by (auto simp: sched_inv_def new_def)
  have sets: "set ((res @ [i]) @ map snd heap') = set (res @ map snd ((c, i) # heap)) \<union> set new"
    using mset_eq_setD [OF all] by auto
  have "preds' ! j = [] \<longleftrightarrow> j \<in> set (res @ map snd ((c, i) # heap)) \<union> set new" if "j < ?n" for j
    using iff [OF that] preds' [OF that] newset fresh [of j] by (auto split: if_splits)
  moreover have "{k. edge insns k j} \<subseteq> set a" if "res @ [i] = a @ j # b" for a j b
  proof (cases b rule: rev_cases)
    case Nil
    have "{k. edge insns k i} - set res = {}" using pre [of i] iff [of i] i by auto
    then show ?thesis using that Nil by auto
  next
    case (snoc b' x)
    then have "res = a @ j # b'" using that by simp
    then show ?thesis using inv unfolding sched_inv_def by blast
  qed
  moreover have "set (res @ map snd ((c, i) # heap)) \<union> set new \<subseteq> {..<?n}"
    using inv newset by (auto simp: sched_inv_def edge_def)
  ultimately show ?thesis
    using set' dist fr unfolding sched_inv_def sets by blast
qed

lemma sched_loop_inv:
  assumes "sched_inv insns preds heap res" and "length res + k = length insns"
  shows "\<exists>preds'. sched_inv insns preds' [] (fst (sched_loop k insns preds heap res))"
  using assms
proof (induction k insns preds heap res rule: sched_loop.induct)
  case (1 insns preds heap result)
  have d: "distinct (result @ map snd heap)" "set (result @ map snd heap) \<subseteq> {..<length insns}"
    using 1(1) by (simp_all add: sched_inv_def)
  then have "length (result @ map snd heap) \<le> length insns"
    by (metis card_lessThan card_mono distinct_card finite_lessThan)
  then have "heap = []" using 1(2) by simp
  then show ?case using 1(1) by auto
next
  case (2 k insns preds result)
  then show ?case by auto
next
  case (3 k insns preds c i heap result)
  obtain preds' heap' where step: "fold (release insns i) (succs_of insns i) (preds, heap) = (preds', heap')"
    by fastforce
  then show ?case
    using 3(1) [OF step [symmetric]] sched_inv_step [OF 3(2) step] 3(3) by simp
qed

lemma sched_inv_complete:
  assumes "sched_inv insns preds [] res"
  shows "set res = {..<length insns}"
proof (rule ccontr)
  assume "set res \<noteq> {..<length insns}"
  moreover have "set res \<subseteq> {..<length insns}" using assms by (simp add: sched_inv_def)
  ultimately have ex: "\<exists>j. j < length insns \<and> j \<notin> set res" by auto
  define j where "j = (LEAST j. j < length insns \<and> j \<notin> set res)"
  have j: "j < length insns" "j \<notin> set res" using LeastI_ex [OF ex] by (simp_all add: j_def)
  then have "preds ! j \<noteq> []" using assms by (simp add: sched_inv_def)
  then obtain i where "edge insns i j" "i \<notin> set res"
    using assms j unfolding sched_inv_def by (metis Diff_iff list.set_intros(1) mem_Collect_eq neq_Nil_conv)
  moreover from this have "i < j" by (simp add: edge_def)
  ultimately show False
    using j not_less_Least [of i "\<lambda>j. j < length insns \<and> j \<notin> set res"] by (simp add: j_def)
qed

lemma schedule_order_inv: "\<exists>preds. sched_inv insns preds [] (schedule_order insns)"
  unfolding schedule_order_def by (rule sched_loop_inv [OF sched_inv_start]) simp

lemma schedule_order_perm: "mset (schedule_order insns) = mset [0..<length insns]"
proof -
  obtain preds where inv: "sched_inv insns preds [] (schedule_order insns)"
    using schedule_order_inv by blast
  then have "distinct (schedule_order insns)" by (simp add: sched_inv_def)
  moreover have "set (schedule_order insns) = set [0..<length insns]"
    using sched_inv_complete [OF inv] by (simp add: atLeast0LessThan)
  ultimately show ?thesis
    using set_eq_iff_mset_eq_distinct [of "schedule_order insns" "[0..<length insns]"] by simp
qed

lemma schedule_order_edge:
  assumes "edge insns i j"
  shows "\<exists>a b c. schedule_order insns = a @ i # b @ j # c"
proof -
  obtain preds where inv: "sched_inv insns preds [] (schedule_order insns)"
    using schedule_order_inv by blast
  have "j \<in> set (schedule_order insns)"
    using sched_inv_complete [OF inv] assms by (simp add: edge_def)
  then obtain p c where p: "schedule_order insns = p @ j # c" by (meson split_list)
  then have "i \<in> set p" using inv assms unfolding sched_inv_def by blast
  then obtain a b where "p = a @ i # b" by (meson split_list)
  then show ?thesis using p by auto
qed

text \<open>
  C23. The list scheduler always ends (the fuel is never exhausted with instructions left)
  and returns a permutation of the block in which, for every dependency the code computes,
  the instruction that comes first in the block still comes first.
\<close>

theorem schedule_order_correct:
  "mset (schedule_order insns) = mset [0..<length insns]
   \<and> (\<forall>i j. edge insns i j \<longrightarrow> (\<exists>a b c. schedule_order insns = a @ i # b @ j # c))"
  using schedule_order_perm schedule_order_edge by blast

definition read_insn :: "string \<Rightarrow> instruction" where
  "read_insn l = block_insn 0 l (strip_insn l)"

definition block_of :: "string list \<Rightarrow> instruction list" where
  "block_of ls = map read_insn ls"

lemma block_example:
  "edge (block_of [''add x3, x4, x5'', ''ldr x6, [x3]'']) 0 1"
  by code_simp

theorem schedule_order_correct_witness:
  "\<exists>a b c. schedule_order (block_of [''add x3, x4, x5'', ''ldr x6, [x3]'']) = a @ 0 # b @ 1 # c"
  using schedule_order_correct [of "block_of [''add x3, x4, x5'', ''ldr x6, [x3]'']"] block_example by simp

section \<open>Rescheduling permutes the lines of one block\<close>

lemma schedule_block_perm:
  assumes "schedule_block block = Some ts"
  shows "mset ts = mset (map (insn_text \<circ> snd) block)"
proof -
  let ?is = "map snd block"
  have "ts = map (\<lambda>i. insn_text (?is ! i)) (schedule_order ?is)"
    using assms by (auto simp: schedule_block_def Let_def split: if_splits)
  then have "mset ts = image_mset (\<lambda>i. insn_text (?is ! i)) (mset [0..<length ?is])"
    by (simp add: schedule_order_perm del: mset_upt)
  also have "\<dots> = mset (map (\<lambda>i. insn_text (?is ! i)) [0..<length ?is])" by simp
  also have "map (\<lambda>i. insn_text (?is ! i)) [0..<length ?is] = map insn_text ?is"
    by (intro nth_equalityI) auto
  finally show ?thesis by simp
qed

text \<open>The block collected so far: consecutive instruction lines ending before line \<open>idx\<close>.\<close>

definition block_before :: "string list \<Rightarrow> nat \<Rightarrow> (nat \<times> instruction) list \<Rightarrow> bool" where
  "block_before body idx block \<longleftrightarrow>
     length block \<le> idx \<and> idx \<le> length body
     \<and> map fst block = [idx - length block..<idx]
     \<and> map (insn_text \<circ> snd) block = take (length block) (drop (idx - length block) body)
     \<and> list_all (\<lambda>(i, insn). \<not> ends_block (strip_insn (insn_text insn))) block
     \<and> list_all (\<lambda>(i, insn). \<not> is_branch (mnemonic insn)) (butlast block)"

text \<open>A permutation of a run of instruction lines.\<close>

definition permutes_block :: "string list \<Rightarrow> string list \<Rightarrow> bool" where
  "permutes_block body out \<longleftrightarrow>
     (\<exists>a blk blk' b. body = a @ blk @ b \<and> out = a @ blk' @ b \<and> mset blk' = mset blk
        \<and> list_all (\<lambda>l. \<not> ends_block (strip_insn l)) blk)"

lemma fold_update_block:
  assumes "map fst block = [k..<k + length block]" and "length ts = length block"
    and "k + length block \<le> length body"
  shows "fold (\<lambda>((b, _), t) out. out[b := t]) (zip block ts) body
    = take k body @ ts @ drop (k + length block) body"
  using assms
proof (induction block arbitrary: k ts body)
  case Nil
  then show ?case by simp
next
  case (Cons x block)
  obtain t ts' where ts: "ts = t # ts'" using Cons.prems(2) by (cases ts) auto
  have x: "fst x = k" and rest: "map fst block = [Suc k..<Suc k + length block]"
    using Cons.prems(1) upt_conv_Cons [of k "k + length (x # block)"] by simp_all
  have "fold (\<lambda>((b, _), t) out. out[b := t]) (zip (x # block) ts) body
      = fold (\<lambda>((b, _), t) out. out[b := t]) (zip block ts') (body[k := t])"
    using x by (cases x) (simp add: ts)
  also have "\<dots> = take (Suc k) (body[k := t]) @ ts' @ drop (Suc k + length block) (body[k := t])"
    using Cons.prems(2,3) by (intro Cons.IH [OF rest]) (auto simp: ts)
  also have "take (Suc k) (body[k := t]) = take k body @ [t]"
    using Cons.prems(3) by (simp add: take_Suc_conv_app_nth)
  finally show ?case by (simp add: ts)
qed

lemma flush_permutes:
  assumes "flush_sched body block = Some out" and "block_before body idx block"
  shows "permutes_block body out"
proof -
  define k where "k = idx - length block"
  have k: "map fst block = [k..<k + length block]" "k + length block \<le> length body"
    "map (insn_text \<circ> snd) block = take (length block) (drop k body)"
    "list_all (\<lambda>(i, insn). \<not> ends_block (strip_insn (insn_text insn))) block"
    using assms(2) by (auto simp: block_before_def k_def)
  obtain ts where ts: "schedule_block block = Some ts"
    and out: "out = fold (\<lambda>((b, _), t) out. out[b := t]) (zip block ts) body"
    using assms(1) by (auto simp: flush_sched_def split: if_splits)
  have perm: "mset ts = mset (take (length block) (drop k body))"
    using schedule_block_perm [OF ts] k(3) by simp
  then have "length ts = length block"
    using mset_eq_length [OF schedule_block_perm [OF ts]] by simp
  then have "out = take k body @ ts @ drop (k + length block) body"
    using fold_update_block [OF k(1) _ k(2)] out by simp
  moreover have "body = take k body @ take (length block) (drop k body) @ drop (k + length block) body"
    by (metis append_take_drop_id drop_drop add.commute)
  moreover have "list_all (\<lambda>l. \<not> ends_block (strip_insn l)) (take (length block) (drop k body))"
    using k(4) by (auto simp: list_all_iff simp flip: k(3))
  ultimately show ?thesis using perm unfolding permutes_block_def by blast
qed

lemma resched_scan_permutes:
  assumes "resched_scan body idx block lines = Some out"
    and "block_before body idx block" and "lines = drop idx body"
    and "list_all (\<lambda>(i, insn). \<not> is_branch (mnemonic insn)) block"
  shows "permutes_block body out"
  using assms
proof (induction body idx block lines rule: resched_scan.induct)
  case (1 body idx block)
  then show ?case by simp
next
  case (2 body idx block line lines)
  define st where "st = strip_insn line"
  define insn where "insn = block_insn idx line st"
  have idx: "idx < length body" "body ! idx = line" "lines = drop (Suc idx) body"
  proof -
    show len: "idx < length body" using 2(6) by (metis drop_eq_Nil list.discI not_less)
    show "body ! idx = line" "lines = drop (Suc idx) body"
      using 2(6) Cons_nth_drop_Suc [OF len] by (metis list.inject)+
  qed
  have empty: "block_before body (Suc idx) []"
    using idx(1) by (simp add: block_before_def)
  show ?case
  proof (cases "ends_block st")
    case True
    then show ?thesis
      using 2(1) [OF st_def True] 2(4-6) flush_permutes empty idx(3)
      by (auto simp: Let_def simp flip: st_def split: option.splits)
  next
    case False
    have "insn_text insn = line" by (simp add: insn_def block_insn_def Let_def)
    then have block': "block_before body (Suc idx) (block @ [(idx, insn)])"
      using 2(5,7) False idx by (auto simp: block_before_def st_def take_Suc_conv_app_nth Suc_diff_le)
    show ?thesis
    proof (cases "is_branch (mnemonic insn)")
      case True
      then show ?thesis
        using 2(2) [OF st_def False insn_def refl True] 2(4-6) flush_permutes [OF _ block'] empty idx(3) False
        by (auto simp: Let_def simp flip: st_def insn_def split: option.splits)
    next
      case no: False
      then show ?thesis
        using 2(3) [OF st_def False insn_def refl no] 2(4-7) block' idx(3) False
        by (auto simp: Let_def simp flip: st_def insn_def)
    qed
  qed
qed

lemma split_at_Some: "split_at p xs = Some (a, y, b) \<Longrightarrow> xs = a @ y # b \<and> p y \<and> list_all (\<lambda>x. \<not> p x) a"
  by (induction p xs arbitrary: a rule: split_at.induct) (auto split: if_splits option.splits)

lemma split_function_lines:
  "split_function ft = Some (preamble, label, body) \<Longrightarrow> split_lines ft = preamble @ label # body"
  by (auto simp: split_function_def dest: split_at_Some)

lemma split_lines_unsplit:
  assumes "set (preamble @ label # out) \<subseteq> set (split_lines ft)"
  shows "split_lines (unsplit preamble label out) = preamble @ label # out"
  unfolding unsplit_def using assms split_lines_no_break
  by (subst split_lines_join_nl) (auto 4 3)


definition nl :: string where "nl = [CHR 0x0A]"

definition sched_text :: string where
  "sched_text = ''f:'' @ nl @ ''add x3, x4, x5'' @ nl @ ''ldr x6, [x7]'' @ nl @ ''.p2align 2'' @ nl"

lemma reschedule_example:
  "reschedule sched_text = Some (''f:'' @ nl @ ''ldr x6, [x7]'' @ nl @ ''add x3, x4, x5'' @ nl @ ''.p2align 2'' @ nl)"
  by code_simp


lemma schedule_two:
  assumes "\<not> depends a b" and "priority_class (mnemonic b) < priority_class (mnemonic a)"
  shows "schedule_order [a, b] = [1, 0]"
proof -
  have up: "[0..<2] = [0, 1 :: nat]" "[Suc 0..<2] = [1]" "[2..<2] = []" "[0..<Suc 0] = [0]" "[Suc (Suc 0)..<2] = []"
    by (simp_all add: upt_rec)
  have p: "preds_of [a, b] 0 = []" "preds_of [a, b] 1 = []" "succs_of [a, b] 0 = []" "succs_of [a, b] 1 = []"
    using assms(1) by (simp_all add: preds_of_def succs_of_def needs_def depends_at_def up upt_rec)
  have "initial_heap [a, b] = [(priority_class (mnemonic b), 1), (priority_class (mnemonic a), 0)]"
    using assms(2) p by (simp add: initial_heap_def heap_push_def is_ready_def upt_rec)
  then show ?thesis
    using p by (simp add: schedule_order_def initial_preds_def numeral_2_eq_2)
qed

text \<open>
  The computed dependencies are not the real ones. A load is moved ahead of the store
  that reads its destination register, ahead of a store to the very address it reads (an
  offset hides the base register), and ahead of the call whose result it uses; a
  conditional set is moved ahead of the comparison that sets its flags.
\<close>

lemma schedule_order_unsafe:
  "schedule_order (block_of [''str x1, [x0]'', ''ldr x1, [x2]'']) = [1, 0]
   \<and> schedule_order (block_of [''str x1, [x0, #8]'', ''ldr x2, [x0, #8]'']) = [1, 0]
   \<and> schedule_order (block_of [''bl next_buffer'', ''ldr x1, [x0]'']) = [1, 0]
   \<and> schedule_order (block_of [''cmp x0, #0'', ''cset w1, eq'']) = [1, 0]"
  unfolding block_of_def list.map
  by (intro conjI schedule_two; code_simp)

text \<open>
  A move of a 32-bit register onto itself clears the upper half of the register; it is
  dropped as a no-op all the same.
\<close>

lemma zero_extension_removed:
  "remove_redundant_mov (''f:'' @ nl @ ''mov w0, w0'' @ nl @ ''ret'' @ nl) = Some (''f:'' @ nl @ ''ret'' @ nl)"
  by code_simp

end
