(* ===== verification/Mut_Unroll.thy ===== *)
theory Mut_Unroll
  imports Mut_Schedule
begin

text \<open>
  The loop mutations (scripts/mutations/unroll.py, neon.py), the choice of fresh labels and
  the driver \<open>apply_mutations\<close> (scripts/mutations/__init__.py). No mutation of the list
  raises, so the handler of the driver has no counterpart here.
\<close>

section \<open>Fresh labels\<close>

definition NUM_LABEL_RE :: rx where
  "NUM_LABEL_RE = seqs [Bos, Star ws, Grp 1 (rep1 digit), lit '':'']"

definition num_label :: "string \<Rightarrow> nat option" where
  "num_label line = map_option (\<lambda>g. nat (py_int (group_str g 1))) (re_match NUM_LABEL_RE line)"

function next_free :: "nat list \<Rightarrow> nat \<Rightarrow> nat" where
  "next_free used start = (if start \<in> set used then next_free used (Suc start) else start)"
  by pat_completeness auto
termination
proof (relation "measure (\<lambda>(used, start). card {x \<in> set used. start \<le> x})", goal_cases)
  case (2 used start)
  then have "start \<in> {x \<in> set used. start \<le> x}" "start \<notin> {x \<in> set used. Suc start \<le> x}" by simp_all
  moreover have "{x \<in> set used. Suc start \<le> x} \<subseteq> {x \<in> set used. start \<le> x}" by auto
  ultimately have "{x \<in> set used. Suc start \<le> x} \<subset> {x \<in> set used. start \<le> x}" by blast
  then show ?case by (simp add: psubset_card_mono)
qed simp

declare next_free.simps [simp del]

fun take_labels :: "nat \<Rightarrow> nat list \<Rightarrow> nat \<Rightarrow> nat list" where
  "take_labels 0 used start = []"
| "take_labels (Suc k) used start =
     (let s = next_free used start in s # take_labels k (s # used) s)"

definition fresh_numeric_labels :: "string list \<Rightarrow> nat \<Rightarrow> nat list" where
  "fresh_numeric_labels body cnt =
     (let used = List.map_filter num_label body in take_labels cnt used (next_free used 1))"

section \<open>Detecting the copy loop\<close>

definition sep :: rx where "sep = Seq (lit '','') (Star ws)"
definition word1 :: "nat \<Rightarrow> rx" where "word1 n = Grp n (rep1 wordc)"
definition dotted :: "nat \<Rightarrow> rx" where "dotted n = Grp n (rep1 (Cls (\<lambda>c. py_word c \<or> c = CHR ''.'')))"

definition pair16 :: "string \<Rightarrow> rx" where
  "pair16 mn = seqs [Bos, lit mn, rep1 ws, word1 1, sep, word1 2, sep, lit ''['', word1 3, lit '']'', sep, lit ''#16'', Eos]"

definition LDP :: rx where "LDP = pair16 ''ldp''"
definition STP :: rx where "STP = pair16 ''stp''"
definition SUB16 :: rx where "SUB16 = seqs [Bos, lit ''sub'', rep1 ws, word1 1, sep, word1 2, sep, lit ''#16'', Eos]"
definition CMP16 :: rx where "CMP16 = seqs [Bos, lit ''cmp'', rep1 ws, word1 1, sep, lit ''#16'', Eos]"
definition BHS :: rx where "BHS = seqs [Bos, lit ''b.hs'', rep1 ws, word1 1, Eos]"
definition CBZ :: rx where "CBZ = seqs [Bos, lit ''cbz'', rep1 ws, word1 1, sep, dotted 2, Eos]"
definition BLO :: rx where "BLO = seqs [Bos, lit ''b.lo'', rep1 ws, dotted 1, Eos]"
definition XW_RE :: rx where "XW_RE = seqs [WordB, Grp 1 gpr, WordB]"

record copy_loop =
  entry_body_idx :: nat
  loop_body_idx :: nat
  tail_body_idx :: nat
  lp_ra :: string
  lp_rb :: string
  lp_src :: string
  lp_dst :: string
  lp_len :: string
  lp_back :: string
  loop_lines :: "string list"

type_synonym item = "nat \<times> string \<times> string"

fun loop_item :: "nat \<times> string \<Rightarrow> item option" where
  "loop_item (idx, line) = (let s = strip_insn line in if ends_block s then None else Some (idx, line, s))"

definition loop_items :: "string list \<Rightarrow> item list" where
  "loop_items body = List.map_filter loop_item (enumerate 0 body)"

text \<open>The loop at item \<open>i\<close>, with the three entry instructions before it.\<close>

definition item_text :: "item list \<Rightarrow> nat \<Rightarrow> string" where
  "item_text items k = snd (snd (items ! k))"

definition item_line :: "item list \<Rightarrow> nat \<Rightarrow> string" where
  "item_line items k = fst (snd (items ! k))"

definition loop_at :: "item list \<Rightarrow> nat \<Rightarrow> copy_loop option" where
  "loop_at items i =
     (case (re_match LDP (item_text items i), re_match STP (item_text items (i + 1)), re_match SUB16 (item_text items (i + 2)),
            re_match CMP16 (item_text items (i + 3)), re_match BHS (item_text items (i + 4))) of
        (Some l, Some s, Some u, Some c, Some h) \<Rightarrow>
          if group_str l 1 \<noteq> group_str s 1 \<or> group_str l 2 \<noteq> group_str s 2 then None
          else if group_str u 1 \<noteq> group_str u 2 \<or> group_str u 1 \<noteq> group_str c 1 then None
          else if group_str l 3 = group_str u 1 \<or> group_str s 3 = group_str u 1 then None
          else if i < 3 then None
          else (case (re_match CBZ (item_text items (i - 3)), re_match CMP16 (item_text items (i - 2)), re_match BLO (item_text items (i - 1))) of
              (Some z, Some c16, Some lo) \<Rightarrow>
                if group_str z 1 \<noteq> group_str u 1 \<or> group_str c16 1 \<noteq> group_str u 1 then None
                else Some \<lparr>entry_body_idx = fst (items ! (i - 3)), loop_body_idx = fst (items ! i),
                  tail_body_idx = fst (items ! (i + 4)) + 1, lp_ra = group_str l 1, lp_rb = group_str l 2,
                  lp_src = group_str l 3, lp_dst = group_str s 3, lp_len = group_str u 1, lp_back = group_str h 1,
                  loop_lines = map (item_line items) [i, i + 1, i + 2, i + 3, i + 4]\<rparr>
            | _ \<Rightarrow> None)
      | _ \<Rightarrow> None)"

fun first_loop :: "item list \<Rightarrow> nat list \<Rightarrow> copy_loop option" where
  "first_loop items [] = None"
| "first_loop items (i # is) =
     (case loop_at items i of Some lp \<Rightarrow> Some lp | None \<Rightarrow> first_loop items is)"

definition detect_loop :: "string \<Rightarrow> (string list \<times> string \<times> string list \<times> copy_loop) option" where
  "detect_loop function_text =
     (case split_function function_text of
        None \<Rightarrow> None
      | Some (preamble, label, body) \<Rightarrow>
          let items = loop_items body
          in map_option (\<lambda>lp. (preamble, label, body, lp)) (first_loop items [0..<length items - 4]))"

section \<open>Rewriting it\<close>

definition SPARE_PAIRS :: "(string \<times> string) list" where
  "SPARE_PAIRS = [(''x5'', ''x6''), (''x7'', ''x8''), (''x9'', ''x10''), (''x11'', ''x12''),
     (''x13'', ''x14''), (''x15'', ''x16''), (''x17'', ''x18'')]"

definition regs_named :: "string \<Rightarrow> string list" where
  "regs_named line = map (\<lambda>g. group_str g 1) (re_finditer XW_RE (strip_insn line))"

definition fresh_regs :: "string list \<Rightarrow> (string \<times> string) option" where
  "fresh_regs body =
     (let used = concat (map regs_named body)
      in find (\<lambda>(ra, rb). ra \<notin> set used \<and> rb \<notin> set used) SPARE_PAIRS)"

text \<open>\<open>re.compile(rf"^(\s*)b\.hs\s+{re.escape(loop.back)}\s*$")\<close>.\<close>

definition back_re :: "string \<Rightarrow> rx" where
  "back_re back = seqs [Bos, Grp 1 (Star ws), lit ''b.hs'', rep1 ws, lit back, Star ws, Eos]"

definition retarget :: "string \<Rightarrow> nat \<Rightarrow> string \<Rightarrow> string" where
  "retarget back oldloop line =
     (if re_matches (back_re back) line then ''    b.hs '' @ str_nat oldloop @ ''b'' else line)"

definition expand_body :: "string list \<Rightarrow> copy_loop \<Rightarrow> string \<Rightarrow> nat \<Rightarrow> nat \<Rightarrow> string list" where
  "expand_body body lp main_loop nloop oldloop =
     take (entry_body_idx lp) body
     @ take (loop_body_idx lp - entry_body_idx lp) (drop (entry_body_idx lp) body)
     @ [''    cmp '' @ lp_len lp @ '', #32'',
        ''    b.lo '' @ str_nat oldloop @ ''f'',
        str_nat nloop @ '':'',
        main_loop,
        ''    sub '' @ lp_len lp @ '', '' @ lp_len lp @ '', #32'',
        ''    cmp '' @ lp_len lp @ '', #32'',
        ''    b.hs '' @ str_nat nloop @ ''b'',
        str_nat oldloop @ '':'']
     @ map (retarget (lp_back lp) oldloop) (loop_lines lp)
     @ drop (tail_body_idx lp) body"

definition expand_loop :: "string \<Rightarrow> string \<Rightarrow> string option" where
  "expand_loop function_text main_loop =
     (case detect_loop function_text of
        None \<Rightarrow> None
      | Some (preamble, label, body, lp) \<Rightarrow>
          (case fresh_numeric_labels body 2 of
             [nloop, oldloop] \<Rightarrow> Some (unsplit preamble label (expand_body body lp main_loop nloop oldloop))
           | _ \<Rightarrow> None))"

definition pair_line :: "string \<Rightarrow> string \<Rightarrow> string \<Rightarrow> string \<Rightarrow> string" where
  "pair_line mn ra rb base = ''    '' @ mn @ '' '' @ ra @ '', '' @ rb @ '', ['' @ base @ ''], #16''"

definition unroll_2x :: "string \<Rightarrow> string option" where
  "unroll_2x function_text =
     (case detect_loop function_text of
        None \<Rightarrow> None
      | Some (preamble, label, body, lp) \<Rightarrow>
          (case fresh_regs body of
             None \<Rightarrow> None
           | Some (rc, rd) \<Rightarrow>
               expand_loop function_text (join [CHR 0x0A]
                 [pair_line ''ldp'' (lp_ra lp) (lp_rb lp) (lp_src lp), pair_line ''ldp'' rc rd (lp_src lp),
                  pair_line ''stp'' (lp_ra lp) (lp_rb lp) (lp_dst lp), pair_line ''stp'' rc rd (lp_dst lp)])))"

definition neon_32b :: "string \<Rightarrow> string option" where
  "neon_32b function_text =
     (case detect_loop function_text of
        None \<Rightarrow> None
      | Some (preamble, label, body, lp) \<Rightarrow>
          expand_loop function_text (join [CHR 0x0A]
            [''    ld1 {v0.16b, v1.16b}, ['' @ lp_src lp @ ''], #32'',
             ''    st1 {v0.16b, v1.16b}, ['' @ lp_dst lp @ ''], #32'']))"

section \<open>The driver\<close>

record mutation_candidate =
  mc_name :: string
  mc_source :: string
  mc_explanation :: string

definition MUTATIONS :: "(string \<times> string \<times> (string \<Rightarrow> string option)) list" where
  "MUTATIONS = [
     (''scheduling:remove-redundant-mov'', ''drop `mov X, X` no-ops'', remove_redundant_mov),
     (''scheduling:reschedule'', ''dependency-preserving instruction reorder'', reschedule),
     (''unroll:2x'', ''unroll the 16-byte ldp/stp loop by 2'', unroll_2x),
     (''neon:ld1-st1-32b'', ''32-byte NEON (ld1/st1) main loop'', neon_32b)]"

definition list_mutations :: "string list" where
  "list_mutations = map fst MUTATIONS"

fun apply_mutation :: "string \<Rightarrow> string \<times> string \<times> (string \<Rightarrow> string option) \<Rightarrow> mutation_candidate option" where
  "apply_mutation function_text (name, explanation, fn) =
     (case fn function_text of
       None \<Rightarrow> None
     | Some result \<Rightarrow>
         if strip result \<noteq> strip function_text
         then Some \<lparr>mc_name = name, mc_source = result, mc_explanation = explanation\<rparr> else None)"

definition apply_mutations :: "string \<Rightarrow> mutation_candidate list" where
  "apply_mutations function_text = List.map_filter (apply_mutation function_text) MUTATIONS"

section \<open>Freshness\<close>

lemma next_free_fresh: "next_free used start \<notin> set used \<and> start \<le> next_free used start"
proof (induction used start rule: next_free.induct)
  case (1 used start)
  then show ?case by (cases "start \<in> set used") (simp_all add: next_free.simps [of used start])
qed

lemma take_labels_fresh:
  "length (take_labels k used start) = k \<and> distinct (take_labels k used start)
   \<and> set (take_labels k used start) \<inter> set used = {} \<and> (\<forall>x \<in> set (take_labels k used start). start \<le> x)"
proof (induction k used start rule: take_labels.induct)
  case (1 used start)
  then show ?case by simp
next
  case (2 k used start)
  then show ?case using next_free_fresh [of used start] by (auto simp: Let_def dest: le_trans)
qed

lemma fresh_numeric_labels_correct:
  "length (fresh_numeric_labels body k) = k \<and> distinct (fresh_numeric_labels body k)
   \<and> set (fresh_numeric_labels body k) \<inter> set (List.map_filter num_label body) = {}"
  using take_labels_fresh
  by (simp add: fresh_numeric_labels_def Let_def)

lemma expand_loop_Some:
  assumes "expand_loop ft main_loop = Some t"
  obtains preamble label body lp n k where
    "detect_loop ft = Some (preamble, label, body, lp)"
    "t = unsplit preamble label (expand_body body lp main_loop n k)"
    "n \<noteq> k" "n \<notin> set (List.map_filter num_label body)" "k \<notin> set (List.map_filter num_label body)"
proof -
  obtain preamble label body lp where d: "detect_loop ft = Some (preamble, label, body, lp)"
    using assms by (auto simp: expand_loop_def split: option.splits)
  obtain n k where nk: "fresh_numeric_labels body 2 = [n, k]"
    using fresh_numeric_labels_correct [of body 2]
    by (metis (no_types) One_nat_def Suc_1 length_0_conv length_Suc_conv)
  then show ?thesis
    using that d assms fresh_numeric_labels_correct [of body 2] by (auto simp: expand_loop_def)
qed

text \<open>
  When the copy loop is unrolled, the two labels of the new loop are different and are
  not numeric labels of the body, and the two registers of the second load and store are
  not named in the body.
\<close>

theorem unroll_2x_fresh:
  assumes "unroll_2x ft = Some t"
  shows "\<exists>preamble label body lp main_loop n k rc rd.
    detect_loop ft = Some (preamble, label, body, lp)
    \<and> t = unsplit preamble label (expand_body body lp main_loop n k)
    \<and> n \<noteq> k \<and> n \<notin> set (List.map_filter num_label body) \<and> k \<notin> set (List.map_filter num_label body)
    \<and> (rc, rd) \<in> set SPARE_PAIRS \<and> has_sub (pair_line ''ldp'' rc rd (lp_src lp)) main_loop
    \<and> rc \<notin> set (concat (map regs_named body)) \<and> rd \<notin> set (concat (map regs_named body))"
proof -
  obtain preamble label body lp rc rd where d: "detect_loop ft = Some (preamble, label, body, lp)"
    and r: "fresh_regs body = Some (rc, rd)"
    and e: "expand_loop ft (join [CHR 0x0A]
          [pair_line ''ldp'' (lp_ra lp) (lp_rb lp) (lp_src lp), pair_line ''ldp'' rc rd (lp_src lp),
           pair_line ''stp'' (lp_ra lp) (lp_rb lp) (lp_dst lp), pair_line ''stp'' rc rd (lp_dst lp)]) = Some t"
    using assms by (auto simp: unroll_2x_def split: option.splits)
  have "(rc, rd) \<in> set SPARE_PAIRS \<and> rc \<notin> set (concat (map regs_named body)) \<and> rd \<notin> set (concat (map regs_named body))"
    using find_SomeD [OF r [unfolded fresh_regs_def Let_def]] by simp
  moreover have "has_sub (pair_line ''ldp'' rc rd (lp_src lp)) (join [CHR 0x0A]
          [pair_line ''ldp'' (lp_ra lp) (lp_rb lp) (lp_src lp), pair_line ''ldp'' rc rd (lp_src lp),
           pair_line ''stp'' (lp_ra lp) (lp_rb lp) (lp_dst lp), pair_line ''stp'' rc rd (lp_dst lp)])"
    (is "has_sub ?p ?main")
    using sublist_appendI [of ?p "pair_line ''ldp'' (lp_ra lp) (lp_rb lp) (lp_src lp) @ [CHR 0x0A]"]
    by (simp add: has_sub_def find_sub_None)
  moreover obtain n k where "t = unsplit preamble label (expand_body body lp ?main n k)"
    "n \<noteq> k" "n \<notin> set (List.map_filter num_label body)" "k \<notin> set (List.map_filter num_label body)"
    by (rule expand_loop_Some [OF e]) (use d in auto)
  ultimately show ?thesis using d by blast
qed

definition copy_text :: "string \<Rightarrow> string" where
  "copy_text head = head @ nl @ ''cbz x2, 1f'' @ nl @ ''cmp x2, #16'' @ nl @ ''b.lo 3f'' @ nl @ ''2:'' @ nl
     @ ''ldp x3, x4, [x1], #16'' @ nl @ ''stp x3, x4, [x0], #16'' @ nl @ ''sub x2, x2, #16'' @ nl
     @ ''cmp x2, #16'' @ nl @ ''b.hs 2b'' @ nl @ ''3:'' @ nl @ ''ret'' @ nl"

definition copy_body :: "string list" where
  "copy_body = [''cbz x2, 1f'', ''cmp x2, #16'', ''b.lo 3f'', ''2:'', ''ldp x3, x4, [x1], #16'',
     ''stp x3, x4, [x0], #16'', ''sub x2, x2, #16'', ''cmp x2, #16'', ''b.hs 2b'', ''3:'', ''ret'']"

definition copy_lp :: copy_loop where
  "copy_lp = \<lparr>entry_body_idx = 0, loop_body_idx = 4, tail_body_idx = 9, lp_ra = ''x3'', lp_rb = ''x4'',
     lp_src = ''x1'', lp_dst = ''x0'', lp_len = ''x2'', lp_back = ''2b'',
     loop_lines = [''ldp x3, x4, [x1], #16'', ''stp x3, x4, [x0], #16'', ''sub x2, x2, #16'', ''cmp x2, #16'', ''b.hs 2b'']\<rparr>"

lemma copy_split: "split_function (copy_text ''memcpy:'') = Some ([], ''memcpy:'', copy_body)"
  by code_simp

lemma copy_loop_at: "first_loop (loop_items copy_body) [0..<length (loop_items copy_body) - 4] = Some copy_lp"
  by code_simp

lemma detect_example: "detect_loop (copy_text ''memcpy:'') = Some ([], ''memcpy:'', copy_body, copy_lp)"
  by (simp add: detect_loop_def copy_split copy_loop_at Let_def)

lemma unroll_example: "unroll_2x (copy_text ''memcpy:'') \<noteq> None"
proof -
  have "fresh_regs copy_body = Some (''x5'', ''x6'')" by code_simp
  moreover have "fresh_numeric_labels copy_body 2 = [1, 4]" by code_simp
  ultimately show ?thesis by (simp add: unroll_2x_def expand_loop_def detect_example)
qed

theorem unroll_2x_fresh_witness:
  "\<exists>t preamble label body lp main_loop n k. unroll_2x (copy_text ''memcpy:'') = Some t
    \<and> t = unsplit preamble label (expand_body body lp main_loop n k) \<and> n \<noteq> k"
proof -
  obtain t where "unroll_2x (copy_text ''memcpy:'') = Some t" using unroll_example by auto
  then show ?thesis using unroll_2x_fresh by blast
qed

text \<open>
  Two gaps of the loop mutations. A function that is opened by the \<open>FUNC\<close> macro, as
  \<open>memcpy\<close> is, has no label line of its own: the label of the loop is taken for the
  function's, and the idiom is not found, although it is with a plain label. And a register
  that the body names by its 32-bit name is taken for unused, so that the unrolled loop may
  overwrite it.
\<close>

lemma loop_mutations_gaps:
  "detect_loop (copy_text ''FUNC memcpy'') = None
   \<and> detect_loop (copy_text ''memcpy:'') \<noteq> None
   \<and> fresh_regs [''ldrb w5, [x1], #1''] = Some (''x5'', ''x6'')"
proof (intro conjI)
  show "detect_loop (copy_text ''FUNC memcpy'') = None" by code_simp
  show "detect_loop (copy_text ''memcpy:'') \<noteq> None"
    by (simp add: detect_example)
  show "fresh_regs [''ldrb w5, [x1], #1''] = Some (''x5'', ''x6'')" by code_simp
qed

end
