(* ===== verification/Optimizer.thy ===== *)
theory Optimizer
  imports Strategy Abi_Check Mut_Unroll
begin

text \<open>
  The optimization loop (scripts/optimizer.py): locating and replacing the function in its
  source file, the gates a candidate has to pass, the accept decision, the revert, the run
  history and the final restore. The file on disk is the component \<open>source_text\<close> of the
  state. What the loop runs outside this code (test suite, differential harness, benchmark
  programs, assembler and objdump, language model and judge) is the record \<open>world\<close>: its
  answers are functions of the label \<open>(iteration, candidate)\<close> and of the source on disk, with
  \<open>(0, 0)\<close> the baseline. An uncaught exception is an \<open>Inl\<close> that carries the source it leaves
  on disk.
\<close>

section \<open>Configuration, world and state\<close>

type_synonym label = "nat \<times> nat"

record world =
  w_index :: "string \<Rightarrow> source_index"
  w_macros :: macros
  w_tests :: "label \<Rightarrow> string \<Rightarrow> bool"
  w_differential :: "label \<Rightarrow> string \<Rightarrow> bool"
  w_benchmark :: "label \<Rightarrow> string \<Rightarrow> rat option"
  w_workload :: "label \<Rightarrow> string \<Rightarrow> rat option"
  w_objdump :: "string \<Rightarrow> string option"
  w_object_size :: "string \<Rightarrow> int option"
  w_llm :: "nat \<Rightarrow> string \<Rightarrow> (string \<times> string) list"
  w_judge :: "label \<Rightarrow> string \<Rightarrow> (bool \<times> string) option"

record config =
  cf_function :: string
  cf_root :: string
  iterations :: nat
  noise_floor_pct :: "rat option"
  abi_check :: bool
  has_benchmark :: bool
  has_differential :: bool
  use_mutations :: bool
  min_improvement :: rat
  cf_apply :: bool
  cf_strategy :: strategy

record history_entry =
  he_label :: label
  he_origin :: string
  he_explanation :: string
  he_accepted :: bool
  he_reason :: string
  he_runtime_ns :: "rat option"
  he_improvement :: "rat option"
  he_rule :: "string option"
  he_metric :: "string option"

record archived =
  ar_subdir :: string
  ar_label :: label
  ar_source :: string
  ar_function :: string
  ar_disassembly :: "string option"

record opt_state =
  source_text :: string
  best :: rat
  best_metrics :: metrics
  evidence :: "string option"
  accepted_count :: nat
  rejected_count :: nat
  accepted_summaries :: "string list"
  history :: "history_entry list"
  archive :: "archived list"

datatype failure = RuntimeError string | TypeError | ZeroDivisionError
datatype install_error = CandidateError string | Uncaught failure

type_synonym candidate = "string \<times> string \<times> string"

section \<open>Locating and replacing the function\<close>

text \<open>Lines with their terminator, as \<open>^\<close> sees them in multi-line mode.\<close>

fun nl_lines :: "string \<Rightarrow> string list" where
  "nl_lines [] = []"
| "nl_lines (c # cs) =
     (if c = CHR 0x0A then [c] # nl_lines cs
      else case nl_lines cs of [] \<Rightarrow> [[c]] | l # ls \<Rightarrow> (c # l) # ls)"

definition blank :: rx where "blank = one_of [CHR '' '', CHR 0x09]"

definition GLOBAL_LINE :: rx where
  "GLOBAL_LINE = seqs [Star blank, lit ''.glob'', Opt (lit ''a''), lit ''l'', rep1 blank]"

definition GLOBAL_OF :: "string \<Rightarrow> rx" where
  "GLOBAL_OF function = seqs [GLOBAL_LINE, lit function, WordB]"

definition search_lines :: "rx \<Rightarrow> string \<Rightarrow> bool" where
  "search_lines r s = list_ex (re_matches r) (nl_lines s)"

definition global_text :: "string \<Rightarrow> string \<Rightarrow> string option" where
  "global_text function source =
     (case dropWhile (\<lambda>l. \<not> re_matches (GLOBAL_OF function) l) (nl_lines source) of
        [] \<Rightarrow> None
      | l # ls \<Rightarrow> Some (concat (l # takeWhile (\<lambda>l. \<not> re_matches GLOBAL_LINE l) ls)))"

definition extract_function :: "config \<Rightarrow> world \<Rightarrow> string \<Rightarrow> string \<Rightarrow> failure + string" where
  "extract_function cf w disk source =
     (case global_text (cf_function cf) source of
        Some t \<Rightarrow> Inr t
      | None \<Rightarrow>
          (case find_region (w_index w disk) (cf_function cf) of
             Some r \<Rightarrow> if has_sub (rg_text r) source then Inr (rg_text r)
                       else Inl (RuntimeError (''could not locate function '' @ cf_function cf))
           | None \<Rightarrow> Inl (RuntimeError (''could not locate function '' @ cf_function cf))))"

definition replace_first :: "string \<Rightarrow> string \<Rightarrow> string \<Rightarrow> string" where
  "replace_first old new s =
     (case find_sub old s of
        None \<Rightarrow> s
      | Some i \<Rightarrow> take i s @ new @ drop (i + length old) s)"

definition with_global :: "string \<Rightarrow> string \<Rightarrow> string" where
  "with_global function repl =
     (if \<not> startswith function ''.L'' \<and> \<not> search_lines (GLOBAL_OF function) repl
      then ''.global '' @ function @ nl @ repl else repl)"

definition install_candidate :: "config \<Rightarrow> world \<Rightarrow> string \<Rightarrow> string \<Rightarrow> string \<Rightarrow> install_error + string" where
  "install_candidate cf w disk original replacement =
     (case extract_function cf w disk original of
        Inl e \<Rightarrow> Inl (Uncaught e)
      | Inr function_text \<Rightarrow>
          if \<not> has_sub function_text original
          then Inl (CandidateError ''function text not found while installing'')
          else
            let repl = with_global (cf_function cf) (strip replacement)
            in if \<not> search_lines (lit (cf_function cf @ '':'')) repl
               then Inl (CandidateError ''replacement does not define the expected function label'')
               else Inr (replace_first function_text (repl @ nl) original))"

section \<open>Evidence and metrics\<close>

definition current_disassembly :: "config \<Rightarrow> world \<Rightarrow> string \<Rightarrow> string option" where
  "current_disassembly cf w disk =
     (case w_objdump w disk of None \<Rightarrow> None | Some d \<Rightarrow> dis_function d (cf_function cf))"

definition gather_evidence :: "config \<Rightarrow> world \<Rightarrow> string \<Rightarrow> string option" where
  "gather_evidence cf w disk = current_disassembly cf w disk"

definition run_benchmark :: "config \<Rightarrow> world \<Rightarrow> label \<Rightarrow> string \<Rightarrow> rat option" where
  "run_benchmark cf w lb disk = (if has_benchmark cf then w_benchmark w lb disk else None)"

definition run_workload_benchmark :: "config \<Rightarrow> world \<Rightarrow> label \<Rightarrow> string \<Rightarrow> rat option" where
  "run_workload_benchmark cf w lb disk =
     (if workload_benchmark_cmd (cf_strategy cf) = None then None else w_workload w lb disk)"

definition run_differential :: "config \<Rightarrow> world \<Rightarrow> label \<Rightarrow> string \<Rightarrow> bool" where
  "run_differential cf w lb disk \<longleftrightarrow> (has_differential cf \<longrightarrow> w_differential w lb disk)"

definition collect_metrics :: "config \<Rightarrow> world \<Rightarrow> string \<Rightarrow> string option \<Rightarrow> rat \<Rightarrow> rat option \<Rightarrow> bool \<Rightarrow> bool \<Rightarrow> metrics" where
  "collect_metrics cf w disk dis runtime workload hok ctok =
     (let (instr, lds, sts) = instruction_counts dis;
          (pk, sr, fr) = register_metrics (cf_root cf) (w_index w disk) (cf_function cf)
      in \<lparr>runtime_ns = Some runtime, instruction_count = instr, load_insns = lds, store_insns = sts,
          save_restore_count = sr, peak_register_pressure = pk, stack_bytes = fr,
          binary_size = w_object_size w disk,
          extra = (case workload of Some v \<Rightarrow> [(''workload_runtime_ns'', v)] | None \<Rightarrow> []),
          heap_ok = hok, constant_time_ok = ctok\<rparr>)"

section \<open>One candidate\<close>

definition label_text :: "label \<Rightarrow> string" where
  "label_text = (\<lambda>(i, k). ''iter'' @ str_nat i @ ''-cand'' @ str_nat k)"

definition save_candidate :: "label \<Rightarrow> string \<Rightarrow> string \<Rightarrow> string \<Rightarrow> string option \<Rightarrow> opt_state \<Rightarrow> opt_state" where
  "save_candidate lb src fn subdir dis st =
     st\<lparr>archive := archive st @ [\<lparr>ar_subdir = subdir, ar_label = lb, ar_source = src, ar_function = fn, ar_disassembly = dis\<rparr>]\<rparr>"

definition reject_entry :: "label \<Rightarrow> candidate \<Rightarrow> string \<Rightarrow> string option \<Rightarrow> string option \<Rightarrow> history_entry" where
  "reject_entry lb c rs rl mt =
     (case c of (origin, src, expl) \<Rightarrow>
        \<lparr>he_label = lb, he_origin = origin, he_explanation = expl, he_accepted = False, he_reason = rs,
         he_runtime_ns = None, he_improvement = None, he_rule = rl, he_metric = mt\<rparr>)"

text \<open>Archive a rejected candidate, with the source it was proposed against.\<close>

definition reject_candidate :: "label \<Rightarrow> candidate \<Rightarrow> string \<Rightarrow> string \<Rightarrow> string option \<Rightarrow> string option \<Rightarrow> opt_state \<Rightarrow> opt_state" where
  "reject_candidate lb c current rs rl mt st =
     (let st = save_candidate lb current (fst (snd c)) ''rejected'' None st
      in st\<lparr>history := history st @ [reject_entry lb c rs rl mt], rejected_count := Suc (rejected_count st)\<rparr>)"

definition revert :: "label \<Rightarrow> candidate \<Rightarrow> string \<Rightarrow> string \<Rightarrow> string option \<Rightarrow> string option \<Rightarrow> opt_state \<Rightarrow> opt_state" where
  "revert lb c backup rs rl mt st = reject_candidate lb c backup rs rl mt (st\<lparr>source_text := backup\<rparr>)"

definition abi_errors :: "config \<Rightarrow> world \<Rightarrow> string \<Rightarrow> string \<Rightarrow> abi_warning list" where
  "abi_errors cf w current src =
     (if abi_check cf then filter (\<lambda>wn. severity wn = SError) (check_function (w_macros w) src (Some current) None) else [])"

definition candidate_metrics :: "config \<Rightarrow> world \<Rightarrow> label \<Rightarrow> string \<Rightarrow> string \<Rightarrow> string option \<Rightarrow> rat \<Rightarrow> metrics" where
  "candidate_metrics cf w lb backup new ev runtime =
     (let dis = current_disassembly cf w new;
          heap_reason = heap_violation backup new;
          ct_reason = (if constant_time (cf_strategy cf) then constant_time_violation ev dis else None)
      in collect_metrics cf w new dis runtime (run_workload_benchmark cf w lb new) (heap_reason = None) (ct_reason = None))"

definition judged :: "world \<Rightarrow> label \<Rightarrow> string \<Rightarrow> accept_decision \<Rightarrow> bool \<times> string" where
  "judged w lb new d =
     (case (if keep d then w_judge w lb new else None) of
        None \<Rightarrow> (keep d, reason d)
      | Some (k, jr) \<Rightarrow> (k, if jr = [] then reason d else jr))"

definition accept_candidate :: "config \<Rightarrow> world \<Rightarrow> label \<Rightarrow> candidate \<Rightarrow> string \<Rightarrow> rat \<Rightarrow> metrics \<Rightarrow> string \<Rightarrow> accept_decision
    \<Rightarrow> opt_state \<Rightarrow> opt_state" where
  "accept_candidate cf w lb c new runtime cm rs d st =
     (case c of (origin, src, expl) \<Rightarrow>
        let improvement = improvement_pct (best st) runtime;
            st = st\<lparr>best := runtime, best_metrics := cm, accepted_count := Suc (accepted_count st),
              accepted_summaries := accepted_summaries st @ [label_text lb @ '' ['' @ origin @ '']: '' @ fixed_signed 3 improvement
                @ ''% ('' @ fixed 2 runtime @ '' ns) -- '' @ expl]\<rparr>;
            st = save_candidate lb new src ''accepted'' (current_disassembly cf w new) st
        in st\<lparr>history := history st @ [\<lparr>he_label = lb, he_origin = origin, he_explanation = expl, he_accepted = True,
             he_reason = rs, he_runtime_ns = Some runtime, he_improvement = Some improvement,
             he_rule = Some (rule d), he_metric = metric d\<rparr>]\<rparr>)"

text \<open>Benchmark, decision and judge, with the candidate on disk.\<close>

definition judge_candidate :: "config \<Rightarrow> world \<Rightarrow> rat \<Rightarrow> string \<Rightarrow> label \<Rightarrow> candidate \<Rightarrow> string \<Rightarrow> rat \<Rightarrow> opt_state
    \<Rightarrow> (failure \<times> opt_state) + opt_state" where
  "judge_candidate cf w nf backup lb c new runtime st =
     (if best st = 0 then Inl (ZeroDivisionError, st)
      else
        let cm = candidate_metrics cf w lb backup new (evidence st) runtime;
            d = accept (cf_strategy cf) (best_metrics st) cm (min_improvement cf) nf;
            (kept, rs) = judged w lb new d
        in if kept then
             let st = accept_candidate cf w lb c new runtime cm rs d st
             in (case extract_function cf w new new of
                   Inl e \<Rightarrow> Inl (e, st)
                 | Inr _ \<Rightarrow> Inr (st\<lparr>evidence := gather_evidence cf w new\<rparr>))
           else Inr (revert lb c backup rs (Some (rule d)) (metric d) st))"

definition evaluate :: "config \<Rightarrow> world \<Rightarrow> rat \<Rightarrow> string \<Rightarrow> label \<Rightarrow> candidate \<Rightarrow> opt_state \<Rightarrow> (failure \<times> opt_state) + opt_state" where
  "evaluate cf w nf current lb c st =
     (let src = fst (snd c) in
      if abi_errors cf w current src \<noteq> []
      then Inr (reject_candidate lb c current ''ABI violation'' (Some ''abi'') None st)
      else case install_candidate cf w (source_text st) current src of
        Inl (Uncaught e) \<Rightarrow> Inl (e, st)
      | Inl (CandidateError msg) \<Rightarrow> Inr (reject_candidate lb c current msg (Some ''install'') None st)
      | Inr new \<Rightarrow>
          let st = st\<lparr>source_text := new\<rparr> in
          if \<not> w_tests w lb new
          then Inr (revert lb c current ''correctness failure'' (Some ''correctness'') None st)
          else if \<not> run_differential cf w lb new
          then Inr (revert lb c current ''differential mismatch'' (Some ''differential'') None st)
          else case run_benchmark cf w lb new of
            None \<Rightarrow> Inr (revert lb c current ''benchmark failure'' (Some ''benchmark-failure'') None st)
          | Some runtime \<Rightarrow> judge_candidate cf w nf current lb c new runtime st)"

section \<open>The loop\<close>

definition candidates_for :: "config \<Rightarrow> world \<Rightarrow> nat \<Rightarrow> string \<Rightarrow> candidate list" where
  "candidates_for cf w i function_text =
     map (\<lambda>(asm, expl). (''llm'', asm, expl)) (w_llm w i function_text)
     @ (if use_mutations cf
        then map (\<lambda>m. (''mutation:'' @ mc_name m, mc_source m, mc_explanation m)) (apply_mutations function_text)
        else [])"

fun evaluate_all :: "config \<Rightarrow> world \<Rightarrow> rat \<Rightarrow> string \<Rightarrow> nat \<Rightarrow> nat \<Rightarrow> candidate list \<Rightarrow> opt_state \<Rightarrow> (failure \<times> opt_state) + opt_state" where
  "evaluate_all cf w nf current i k [] st = Inr st"
| "evaluate_all cf w nf current i k (c # cs) st =
     (case evaluate cf w nf current (i, k) c st of
        Inl e \<Rightarrow> Inl e
      | Inr st' \<Rightarrow> evaluate_all cf w nf current i (Suc k) cs st')"

fun iterate :: "config \<Rightarrow> world \<Rightarrow> rat \<Rightarrow> nat list \<Rightarrow> opt_state \<Rightarrow> (failure \<times> opt_state) + opt_state" where
  "iterate cf w nf [] st = Inr st"
| "iterate cf w nf (i # is) st =
     (let current = source_text st in
      case extract_function cf w current current of
        Inl e \<Rightarrow> Inl (e, st)
      | Inr function_text \<Rightarrow>
          (case candidates_for cf w i function_text of
             [] \<Rightarrow> Inr st
           | cs \<Rightarrow>
               (case evaluate_all cf w nf current i 1 cs st of
                  Inl e \<Rightarrow> Inl e
                | Inr st' \<Rightarrow> iterate cf w nf is st')))"

definition baseline_state :: "config \<Rightarrow> world \<Rightarrow> string \<Rightarrow> string \<Rightarrow> rat \<Rightarrow> opt_state" where
  "baseline_state cf w original baseline_text baseline =
     (let dis = gather_evidence cf w original
      in \<lparr>source_text = original, best = baseline,
          best_metrics = collect_metrics cf w original dis baseline (run_workload_benchmark cf w (0, 0) original) True True,
          evidence = dis, accepted_count = 0, rejected_count = 0, accepted_summaries = [], history = [],
          archive = [\<lparr>ar_subdir = ''baseline'', ar_label = (0, 0), ar_source = original, ar_function = baseline_text, ar_disassembly = None\<rparr>]\<rparr>)"

definition summary_text :: "config \<Rightarrow> rat \<Rightarrow> opt_state \<Rightarrow> string" where
  "summary_text cf baseline st =
     join nl ([''ARM OPTIMIZER'', ''============='', ''Function: '' @ cf_function cf, [],
        ''Baseline: '' @ fixed 2 baseline @ '' ns'', ''Best:     '' @ fixed 2 (best st) @ '' ns'',
        ''Improvement: '' @ fixed 3 (improvement_pct baseline (best st)) @ ''%'', [],
        ''Accepted optimizations: '' @ str_nat (accepted_count st),
        ''Rejected candidates: '' @ str_nat (rejected_count st), [], ''Accepted:'']
      @ (if accepted_summaries st = [] then [''  (none)''] else map (\<lambda>s. ''  - '' @ s) (accepted_summaries st))
      @ [[], ''Correctness tests: PASS (gate for every candidate)'', ''ABI checks: static, before compile'',
         ''Differential tests: '' @ (if has_differential cf then ''enabled'' else ''not configured'')])"

definition optimize :: "config \<Rightarrow> world \<Rightarrow> string \<Rightarrow> (failure \<times> string) + (opt_state \<times> string)" where
  "optimize cf w original =
     (case noise_floor_pct cf of
        None \<Rightarrow> if has_benchmark cf
          then Inl (RuntimeError (''no noise floor calibrated for this benchmark -- refusing to judge candidates against it. Run scripts/benchmarks/measure_noise_floor.py, or pass --noise-floor explicitly.''), original)
          else Inl (TypeError, original)
      | Some nf \<Rightarrow>
          (case extract_function cf w original original of
             Inl e \<Rightarrow> Inl (e, original)
           | Inr baseline_text \<Rightarrow>
               if \<not> w_tests w (0, 0) original
               then Inl (RuntimeError ''baseline does not pass the correctness tests'', original)
               else case run_benchmark cf w (0, 0) original of
                 None \<Rightarrow> Inl (RuntimeError ''could not establish a baseline benchmark; pass --benchmark'', original)
               | Some baseline \<Rightarrow>
                   (case iterate cf w nf [1..<Suc (iterations cf)] (baseline_state cf w original baseline_text baseline) of
                      Inl (e, st) \<Rightarrow> Inl (e, source_text st)
                    | Inr st \<Rightarrow>
                        if baseline = 0 then Inl (ZeroDivisionError, source_text st)
                        else
                          let summary = summary_text cf baseline st
                          in Inr (if cf_apply cf then st else st\<lparr>source_text := original\<rparr>, summary))))"

section \<open>What one candidate does to the state\<close>

definition rejected_step :: "label \<Rightarrow> candidate \<Rightarrow> string \<Rightarrow> opt_state \<Rightarrow> opt_state \<Rightarrow> bool" where
  "rejected_step lb c current st st' \<longleftrightarrow>
     (\<exists>disk rs rl mt. (disk = source_text st \<or> disk = current)
        \<and> st' = reject_candidate lb c current rs (Some rl) mt (st\<lparr>source_text := disk\<rparr>))"

definition passed_gates :: "config \<Rightarrow> world \<Rightarrow> string \<Rightarrow> label \<Rightarrow> candidate \<Rightarrow> opt_state \<Rightarrow> string \<Rightarrow> rat \<Rightarrow> bool" where
  "passed_gates cf w current lb c st new runtime \<longleftrightarrow>
     abi_errors cf w current (fst (snd c)) = []
     \<and> install_candidate cf w (source_text st) current (fst (snd c)) = Inr new
     \<and> w_tests w lb new \<and> run_differential cf w lb new \<and> run_benchmark cf w lb new = Some runtime"

definition accepted_step :: "config \<Rightarrow> world \<Rightarrow> rat \<Rightarrow> string \<Rightarrow> label \<Rightarrow> candidate \<Rightarrow> opt_state \<Rightarrow> opt_state \<Rightarrow> bool" where
  "accepted_step cf w nf current lb c st st' \<longleftrightarrow>
     (\<exists>new runtime rs. let cm = candidate_metrics cf w lb current new (evidence st) runtime;
          d = accept (cf_strategy cf) (best_metrics st) cm (min_improvement cf) nf
        in passed_gates cf w current lb c st new runtime \<and> best st \<noteq> 0 \<and> keep d
           \<and> (case w_judge w lb new of None \<Rightarrow> True | Some (k, _) \<Rightarrow> k)
           \<and> st' = (accept_candidate cf w lb c new runtime cm rs d (st\<lparr>source_text := new\<rparr>))
                     \<lparr>evidence := gather_evidence cf w new\<rparr>)"

lemma judged_kept:
  "judged w lb new d = (True, rs) \<Longrightarrow> keep d \<and> (case w_judge w lb new of None \<Rightarrow> True | Some (k, _) \<Rightarrow> k)"
  by (auto simp: judged_def split: option.splits if_splits)

lemma judge_candidate_cases:
  assumes "judge_candidate cf w nf current lb c new runtime (st\<lparr>source_text := new\<rparr>) = Inr st'"
    and "passed_gates cf w current lb c st new runtime"
  shows "rejected_step lb c current st st' \<or> accepted_step cf w nf current lb c st st'"
proof -
  define cm where "cm = candidate_metrics cf w lb current new (evidence st) runtime"
  define d where "d = accept (cf_strategy cf) (best_metrics st) cm (min_improvement cf) nf"
  obtain kept rs where j: "judged w lb new d = (kept, rs)" by fastforce
  have b: "best st \<noteq> 0" using assms(1) by (auto simp: judge_candidate_def split: if_splits)
  show ?thesis
  proof (cases kept)
    case True
    then have "st' = (accept_candidate cf w lb c new runtime cm rs d (st\<lparr>source_text := new\<rparr>))
        \<lparr>evidence := gather_evidence cf w new\<rparr>"
      using assms(1) j b
      by (auto simp: judge_candidate_def Let_def simp flip: cm_def d_def split: sum.splits)
    moreover have "keep d \<and> (case w_judge w lb new of None \<Rightarrow> True | Some (k, _) \<Rightarrow> k)"
      using judged_kept [of w lb new d rs] j True by simp
    ultimately have "accepted_step cf w nf current lb c st st'"
      using b assms(2) unfolding accepted_step_def Let_def cm_def d_def by blast
    then show ?thesis ..
  next
    case False
    then have "st' = reject_candidate lb c current rs (Some (rule d)) (metric d) (st\<lparr>source_text := current\<rparr>)"
      using assms(1) j b
      by (simp add: judge_candidate_def Let_def revert_def flip: cm_def d_def)
    then show ?thesis unfolding rejected_step_def by blast
  qed
qed

lemma evaluate_cases:
  assumes "evaluate cf w nf current lb c st = Inr st'"
  shows "rejected_step lb c current st st' \<or> accepted_step cf w nf current lb c st st'"
proof -
  have rej: "rejected_step lb c current st (reject_candidate lb c current rs (Some rl) mt st)"
    "rejected_step lb c current st (revert lb c current rs (Some rl) mt (st\<lparr>source_text := new\<rparr>))" for rs rl mt new
    unfolding rejected_step_def revert_def
    by (rule exI [of _ "source_text st"]; auto) (rule exI [of _ current]; auto)
  show ?thesis
    using assms rej judge_candidate_cases [of cf w nf current lb c _ _ st st']
    by (auto simp: evaluate_def Let_def passed_gates_def split: if_splits sum.splits install_error.splits option.splits)
qed

lemmas step_defs = rejected_step_def accepted_step_def reject_candidate_def accept_candidate_def
  save_candidate_def reject_entry_def Let_def

lemma accept_candidate_fields [simp]:
  "best (accept_candidate cf w lb c new runtime cm rs d st) = runtime"
  "best_metrics (accept_candidate cf w lb c new runtime cm rs d st) = cm"
  "source_text (accept_candidate cf w lb c new runtime cm rs d st) = source_text st"
  "accepted_count (accept_candidate cf w lb c new runtime cm rs d st) = Suc (accepted_count st)"
  "rejected_count (accept_candidate cf w lb c new runtime cm rs d st) = rejected_count st"
  "length (accepted_summaries (accept_candidate cf w lb c new runtime cm rs d st)) = Suc (length (accepted_summaries st))"
  "\<exists>e. history (accept_candidate cf w lb c new runtime cm rs d st) = history st @ [e] \<and> he_accepted e \<and> he_label e = lb
     \<and> he_runtime_ns e = Some runtime \<and> he_rule e = Some (rule d)"
  by (cases c; simp add: accept_candidate_def save_candidate_def Let_def)+

lemma reject_candidate_fields [simp]:
  "best (reject_candidate lb c current rs rl mt st) = best st"
  "best_metrics (reject_candidate lb c current rs rl mt st) = best_metrics st"
  "source_text (reject_candidate lb c current rs rl mt st) = source_text st"
  "evidence (reject_candidate lb c current rs rl mt st) = evidence st"
  "accepted_count (reject_candidate lb c current rs rl mt st) = accepted_count st"
  "rejected_count (reject_candidate lb c current rs rl mt st) = Suc (rejected_count st)"
  "accepted_summaries (reject_candidate lb c current rs rl mt st) = accepted_summaries st"
  "history (reject_candidate lb c current rs rl mt st) = history st @ [reject_entry lb c rs rl mt]"
  "\<not> he_accepted (reject_entry lb c rs rl mt)" "he_label (reject_entry lb c rs rl mt) = lb"
  "he_rule (reject_entry lb c rs rl mt) = rl"
  by (cases c; simp add: reject_candidate_def reject_entry_def save_candidate_def Let_def)+


definition judged_by_runtime :: "strategy \<Rightarrow> bool" where
  "judged_by_runtime s \<longleftrightarrow> cls s = SpeedStrategy \<or> cls s = RegisterPressureStrategy"

lemma runtime_metric:
  assumes "judged_by_runtime s" and "runtime_ns mt = Some v"
  shows "primary_metric s mt = Some v"
  using assms
  by (auto simp: judged_by_runtime_def primary_metric_def primary_metric_name_def get_metric_def metric_field_def)

section \<open>A small run\<close>

definition no_index :: source_index where
  "no_index = \<lparr>ix_regions = [], by_name = [], all_by_name = [], ix_macros = [], callers = [], calls = [],
     tail_calls = [], references = []\<rparr>"

definition demo_source :: string where
  "demo_source = ''.global f'' @ nl @ ''f:'' @ nl @ ''mov x0, x1'' @ nl @ ''ret'' @ nl"

definition demo_config :: config where
  "demo_config = \<lparr>cf_function = ''f'', cf_root = ''r'', iterations = 1, noise_floor_pct = Some 1, abi_check = False,
     has_benchmark = True, has_differential = True, use_mutations = False, min_improvement = 0, cf_apply = True,
     cf_strategy = \<lparr>cls = SpeedStrategy, st_function = ''f'', workload_keyword = None, min_workload_share_pct = None\<rparr>\<rparr>"

definition first_passes :: "label \<Rightarrow> string \<Rightarrow> bool" where
  "first_passes lb src \<longleftrightarrow> snd lb \<le> 1"

definition demo_benchmark :: "label \<Rightarrow> string \<Rightarrow> rat option" where
  "demo_benchmark lb src = Some (if snd lb = 0 then 100 else 90)"

definition two_candidates :: "nat \<Rightarrow> string \<Rightarrow> (string \<times> string) list" where
  "two_candidates i t = [(''f:'' @ nl @ ''orr x0, xzr, x1'' @ nl @ ''ret'', ''a''), (''f:'' @ nl @ ''add x0, x1, #1'' @ nl @ ''ret'', ''b'')]"

definition demo_world :: world where
  "demo_world = \<lparr>w_index = (\<lambda>_. no_index), w_macros = [], w_tests = first_passes, w_differential = (\<lambda>_ _. True),
     w_benchmark = demo_benchmark, w_workload = (\<lambda>_ _. None), w_objdump = (\<lambda>_. None), w_object_size = (\<lambda>_. None),
     w_llm = two_candidates, w_judge = (\<lambda>_ _. None)\<rparr>"

definition cand_a :: candidate where
  "cand_a = (''llm'', ''f:'' @ nl @ ''orr x0, xzr, x1'' @ nl @ ''ret'', ''a'')"

definition cand_b :: candidate where
  "cand_b = (''llm'', ''f:'' @ nl @ ''add x0, x1, #1'' @ nl @ ''ret'', ''b'')"

definition source_a :: string where
  "source_a = ''.global f'' @ nl @ ''f:'' @ nl @ ''orr x0, xzr, x1'' @ nl @ ''ret'' @ nl"

definition source_b :: string where
  "source_b = ''.global f'' @ nl @ ''f:'' @ nl @ ''add x0, x1, #1'' @ nl @ ''ret'' @ nl"

lemma demo_text: "global_text ''f'' demo_source = Some demo_source" "global_text ''f'' source_a = Some source_a"
  by code_simp+

lemma demo_extract [simp]:
  "extract_function demo_config w disk demo_source = Inr demo_source"
  "extract_function demo_config w disk source_a = Inr source_a"
  by (simp_all add: extract_function_def demo_config_def demo_text)

lemma demo_replaced:
  "search_lines (lit ''f:'') (with_global ''f'' (strip (fst (snd cand_a))))
   \<and> search_lines (lit ''f:'') (with_global ''f'' (strip (fst (snd cand_b))))
   \<and> has_sub demo_source demo_source
   \<and> replace_first demo_source (with_global ''f'' (strip (fst (snd cand_a))) @ nl) demo_source = source_a
   \<and> replace_first demo_source (with_global ''f'' (strip (fst (snd cand_b))) @ nl) demo_source = source_b"
  by code_simp

lemma demo_install [simp]:
  "install_candidate demo_config w disk demo_source (fst (snd cand_a)) = Inr source_a"
  "install_candidate demo_config w disk demo_source (fst (snd cand_b)) = Inr source_b"
  using demo_replaced by (simp_all add: install_candidate_def Let_def) (simp_all add: demo_config_def)

lemma demo_abi [simp]: "abi_errors demo_config w current src = []"
  by (simp add: abi_errors_def demo_config_def)

lemma demo_metrics:
  "collect_metrics demo_config demo_world disk None v None True True
     = \<lparr>runtime_ns = Some v, instruction_count = None, load_insns = None, store_insns = None, save_restore_count = None,
        peak_register_pressure = None, stack_bytes = None, binary_size = None, extra = [], heap_ok = True,
        constant_time_ok = True\<rparr>"
  by (simp add: collect_metrics_def instruction_counts_def register_metrics_def demo_world_def no_index_def
      collect_def collect_rows_def)

lemma demo_answers:
  "w_tests demo_world (i, k) src \<longleftrightarrow> k \<le> 1" "w_differential demo_world lb src"
  "w_benchmark demo_world (i, k) src = Some (if k = 0 then 100 else 90)"
  "w_judge demo_world lb src = None" "w_llm demo_world = two_candidates" "has_benchmark demo_config"
  by (simp_all add: demo_world_def demo_config_def first_passes_def demo_benchmark_def)

lemma demo_runtime: "judged_by_runtime (cf_strategy demo_config)"
  by (simp add: judged_by_runtime_def demo_config_def)

definition demo_start :: opt_state where
  "demo_start = baseline_state demo_config demo_world demo_source demo_source 100"

lemma demo_fields:
  "source_text demo_start = demo_source" "best demo_start = 100" "accepted_count demo_start = 0"
  by (simp_all add: demo_start_def baseline_state_def Let_def)

lemma demo_accepted:
  "\<exists>st. evaluate demo_config demo_world 1 demo_source (1, 1) cand_a demo_start = Inr st
     \<and> best st = 90 \<and> accepted_count st = 1 \<and> source_text st = source_a"
proof -
  have heap: "heap_violation demo_source source_a = None" by code_simp
  define cm where "cm = candidate_metrics demo_config demo_world (1, 1) demo_source source_a (evidence demo_start) 90"
  have [simp]: "current_disassembly demo_config demo_world d = None" "run_workload_benchmark demo_config demo_world lb d = None"
    "constant_time (cf_strategy demo_config) = False" for d lb
    by (simp_all add: current_disassembly_def run_workload_benchmark_def workload_benchmark_cmd_def constant_time_def
        is_crypto_def demo_config_def demo_world_def)
  have cm: "cm = collect_metrics demo_config demo_world source_a None 90 None True True"
    by (simp add: cm_def candidate_metrics_def heap)
  have bm: "best_metrics demo_start = collect_metrics demo_config demo_world demo_source None 100 None True True"
    by (simp add: demo_start_def baseline_state_def gather_evidence_def)
  have "1 < improvement_pct 100 90" by code_simp
  then have "keep (accept (cf_strategy demo_config) (best_metrics demo_start) cm (min_improvement demo_config) 1)"
    using runtime_metric [OF demo_runtime, of "best_metrics demo_start" 100]
      runtime_metric [OF demo_runtime, of cm 90]
    by (simp add: accept_keep_iff bm cm demo_metrics hard_constraints_None stack_grew_def) (simp add: demo_config_def)
  then show ?thesis
    unfolding cm_def
    by (simp add: evaluate_def judge_candidate_def judged_def run_differential_def run_benchmark_def Let_def
        demo_answers demo_fields del: One_nat_def)
qed


section \<open>Invariants of a run\<close>

text \<open>
  What a step keeps, a run keeps: \<open>P\<close> is a property of the state and \<open>C\<close> one of the source
  a round starts from.
\<close>

locale run_property =
  fixes cf :: config and w :: world and nf :: rat
    and P :: "opt_state \<Rightarrow> bool" and C :: "string \<Rightarrow> bool"
  assumes source: "P st \<Longrightarrow> C (source_text st)"
    and step: "P st \<Longrightarrow> C current \<Longrightarrow> evaluate cf w nf current lb c st = Inr st' \<Longrightarrow> P st'"
begin

lemma evaluate_all_keeps:
  "P st \<Longrightarrow> C current \<Longrightarrow> evaluate_all cf w nf current i k cs st = Inr st' \<Longrightarrow> P st'"
  by (induction cs arbitrary: k st) (auto split: sum.splits dest: step)

lemma iterate_keeps: "P st \<Longrightarrow> iterate cf w nf is st = Inr st' \<Longrightarrow> P st'"
proof (induction "is" arbitrary: st)
  case Nil
  then show ?case by simp
next
  case (Cons i "is")
  have all: "P st1" if "evaluate_all cf w nf (source_text st) i 1 cs st = Inr st1" for cs st1
    using evaluate_all_keeps [OF Cons.prems(1) source [OF Cons.prems(1)] that] .
  show ?case
    using Cons.prems Cons.IH all
    by (auto simp: Let_def simp del: evaluate_all.simps split: sum.splits list.splits)
qed

lemma optimize_keeps:
  assumes "optimize cf w original = Inr (st, summary)" and "noise_floor_pct cf = Some nf"
    and "\<And>t b. run_benchmark cf w (0, 0) original = Some b \<Longrightarrow> w_tests w (0, 0) original
      \<Longrightarrow> P (baseline_state cf w original t b)"
  shows "\<exists>st'. P st' \<and> st = (if cf_apply cf then st' else st'\<lparr>source_text := original\<rparr>)"
  using assms
  by (auto simp: optimize_def Let_def split: sum.splits option.splits if_splits dest: iterate_keeps)

end

lemma optimize_noise_floor:
  "optimize cf w original = Inr r \<Longrightarrow> \<exists>nf. noise_floor_pct cf = Some nf"
  by (auto simp: optimize_def split: option.splits if_splits)

text \<open>The counters and the history agree.\<close>

definition books_agree :: "opt_state \<Rightarrow> bool" where
  "books_agree st \<longleftrightarrow>
     length (history st) = accepted_count st + rejected_count st
     \<and> accepted_count st = length (filter he_accepted (history st))
     \<and> accepted_count st = length (accepted_summaries st)
     \<and> list_all (\<lambda>e. he_rule e \<noteq> None) (history st)"

lemma books_agree_step:
  assumes "books_agree st" and "evaluate cf w nf current lb c st = Inr st'"
  shows "books_agree st'"
  using evaluate_cases [OF assms(2)]
proof
  assume "rejected_step lb c current st st'"
  then show ?thesis using assms(1) by (auto simp: rejected_step_def books_agree_def)
next
  assume "accepted_step cf w nf current lb c st st'"
  then obtain new runtime cm rs d
    where st': "st' = (accept_candidate cf w lb c new runtime cm rs d (st\<lparr>source_text := new\<rparr>))
      \<lparr>evidence := gather_evidence cf w new\<rparr>"
    by (auto simp: accepted_step_def Let_def)
  obtain e where "history st' = history st @ [e]" "he_accepted e" "he_rule e \<noteq> None"
    using accept_candidate_fields(7) [of cf w lb c new runtime cm rs d "st\<lparr>source_text := new\<rparr>"] st' by auto
  then show ?thesis using assms(1) st' by (simp add: books_agree_def)
qed

interpretation books: run_property cf w nf books_agree "\<lambda>_. True" for cf w nf
  by unfold_locales (auto dest: books_agree_step)

text \<open>Every source the loop leaves on disk is the original or has passed the tests.\<close>

definition passed_tests :: "config \<Rightarrow> world \<Rightarrow> string \<Rightarrow> string \<Rightarrow> bool" where
  "passed_tests cf w original src \<longleftrightarrow>
     src = original \<or> (\<exists>lb. w_tests w lb src \<and> run_differential cf w lb src \<and> run_benchmark cf w lb src \<noteq> None)"

lemma passed_tests_step:
  assumes "passed_tests cf w original (source_text st)" and "passed_tests cf w original current"
    and "evaluate cf w nf current lb c st = Inr st'"
  shows "passed_tests cf w original (source_text st')"
  using evaluate_cases [OF assms(3)]
proof
  assume "rejected_step lb c current st st'"
  then show ?thesis using assms(1,2) by (auto simp: rejected_step_def)
next
  assume "accepted_step cf w nf current lb c st st'"
  then obtain new runtime where "source_text st' = new" and "passed_gates cf w current lb c st new runtime"
    by (auto simp: accepted_step_def Let_def)
  then show ?thesis unfolding passed_gates_def passed_tests_def by (metis option.discI)
qed

interpretation tested: run_property cf w nf "\<lambda>st. passed_tests cf w original (source_text st)" "passed_tests cf w original"
  for cf w nf original
  by unfold_locales (auto dest: passed_tests_step)

lemma optimize_books:
  assumes "optimize cf w original = Inr (st, summary)"
  shows "books_agree st \<and> passed_tests cf w original (source_text st)
    \<and> (cf_apply cf \<or> source_text st = original)"
proof -
  obtain nf where nf: "noise_floor_pct cf = Some nf" using optimize_noise_floor assms by blast
  have "books_agree (baseline_state cf w original t b)" for t b
    by (simp add: books_agree_def baseline_state_def Let_def)
  then obtain st1 where st1: "books_agree st1" "st = (if cf_apply cf then st1 else st1\<lparr>source_text := original\<rparr>)"
    using books.optimize_keeps [OF assms nf] by blast
  have "passed_tests cf w original (source_text (baseline_state cf w original t b))" for t b
    by (simp add: passed_tests_def baseline_state_def Let_def)
  then obtain st2 where st2: "passed_tests cf w original (source_text st2)"
      "st = (if cf_apply cf then st2 else st2\<lparr>source_text := original\<rparr>)"
    using tested.optimize_keeps [OF assms nf, of original] by blast
  have "books_agree st" using st1 by (simp add: books_agree_def split: if_splits)
  moreover have "passed_tests cf w original (source_text st)" "cf_apply cf \<or> source_text st = original"
    using st2 by (auto simp: passed_tests_def)
  ultimately show ?thesis by blast
qed

text \<open>
  C7. When a run returns, its books agree: every candidate is counted once as accepted or
  rejected, has one history entry that names the rule that decided it, and every accepted one
  a line of the summary. The file on disk is the original again unless the results are to be
  applied; in that case it is the original or a source that passed the test suite, the
  differential test and the benchmark.
\<close>

theorem optimize_correct:
  assumes "optimize cf w original = Inr (st, summary)"
  shows "books_agree st \<and> passed_tests cf w original (source_text st)
    \<and> (cf_apply cf \<or> source_text st = original)"
  using assms by (rule optimize_books)

section \<open>The best only gets better\<close>

definition positive_runtimes :: "world \<Rightarrow> bool" where
  "positive_runtimes w \<longleftrightarrow> (\<forall>lb src r. w_benchmark w lb src = Some r \<longrightarrow> 0 < r)"

definition improved :: "rat \<Rightarrow> opt_state \<Rightarrow> bool" where
  "improved baseline st \<longleftrightarrow>
     runtime_ns (best_metrics st) = Some (best st) \<and> 0 < best st
     \<and> (if accepted_count st = 0 then best st = baseline else best st < baseline)"

definition runtime_run :: "config \<Rightarrow> world \<Rightarrow> bool" where
  "runtime_run cf w \<longleftrightarrow> judged_by_runtime (cf_strategy cf) \<and> 0 \<le> min_improvement cf \<and> positive_runtimes w"

lemma improved_step:
  assumes run: "runtime_run cf w" and imp: "improved baseline st" and ev: "evaluate cf w nf current lb c st = Inr st'"
  shows "improved baseline st'"
  using evaluate_cases [OF ev]
proof
  assume "rejected_step lb c current st st'"
  then show ?thesis using imp by (auto simp: rejected_step_def improved_def)
next
  assume "accepted_step cf w nf current lb c st st'"
  then obtain new runtime cm rs d
    where cm: "cm = candidate_metrics cf w lb current new (evidence st) runtime"
      and d: "d = accept (cf_strategy cf) (best_metrics st) cm (min_improvement cf) nf" "keep d"
      and bench: "run_benchmark cf w lb new = Some runtime"
      and st': "st' = (accept_candidate cf w lb c new runtime cm rs d (st\<lparr>source_text := new\<rparr>))
        \<lparr>evidence := gather_evidence cf w new\<rparr>"
    unfolding accepted_step_def passed_gates_def Let_def by blast
  have rt: "runtime_ns cm = Some runtime"
    by (simp add: cm candidate_metrics_def collect_metrics_def Let_def split: prod.splits)
  have js: "judged_by_runtime (cf_strategy cf)" using run by (simp add: runtime_run_def)
  have "primary_metric (cf_strategy cf) (best_metrics st) = Some (best st)"
    "primary_metric (cf_strategy cf) cm = Some runtime"
    using runtime_metric [OF js] rt imp by (simp_all add: improved_def)
  then have "max (min_improvement cf) nf < improvement_pct (best st) runtime"
    using d by (simp add: accept_keep_iff)
  then have "0 < improvement_pct (best st) runtime" using run by (auto simp: runtime_run_def)
  then have "runtime < best st" using improvement_pos [of "best st" runtime] imp by (simp add: improved_def)
  moreover have "w_benchmark w lb new = Some runtime" "positive_runtimes w"
    using bench run by (simp_all add: run_benchmark_def runtime_run_def split: if_splits)
  then have "0 < runtime" unfolding positive_runtimes_def by blast
  ultimately show ?thesis using imp rt by (auto simp: improved_def st' split: if_splits)
qed

interpretation improving: run_property cf w nf "\<lambda>st. runtime_run cf w \<longrightarrow> improved baseline st" "\<lambda>_. True"
  for cf w nf baseline
  by unfold_locales (auto dest: improved_step)

lemma optimize_best:
  assumes "optimize cf w original = Inr (st, summary)" and "runtime_run cf w"
    and "run_benchmark cf w (0, 0) original = Some baseline"
  shows "if accepted_count st = 0 then best st = baseline else best st < baseline"
proof -
  obtain nf where nf: "noise_floor_pct cf = Some nf" using optimize_noise_floor assms(1) by blast
  have "0 < baseline"
    using assms(2,3) by (auto simp: run_benchmark_def runtime_run_def positive_runtimes_def split: if_splits)
  then have "improved baseline (baseline_state cf w original t baseline)" for t
    by (simp add: improved_def baseline_state_def Let_def collect_metrics_def split: prod.splits)
  then obtain st' where "improved baseline st'" "st = (if cf_apply cf then st' else st'\<lparr>source_text := original\<rparr>)"
    using improving.optimize_keeps [OF assms(1) nf, of baseline] assms(2,3) by auto
  then show ?thesis by (auto simp: improved_def split: if_splits)
qed


section \<open>Two ways a result is lost\<close>

lemma demo_rejected:
  "evaluate demo_config demo_world 1 demo_source (1, 2) cand_b st
    = Inr (revert (1, 2) cand_b demo_source ''correctness failure'' (Some ''correctness'') None (st\<lparr>source_text := source_b\<rparr>))"
  by (simp add: evaluate_def Let_def demo_answers)

lemma demo_candidates: "candidates_for demo_config demo_world i t = [cand_a, cand_b]"
  by (simp add: candidates_for_def demo_answers two_candidates_def cand_a_def cand_b_def) (simp add: demo_config_def)

text \<open>
  A candidate is accepted, and the next one of the same round is rejected: the revert goes
  back to the source the round started from. The run ends with the original on disk and
  reports the runtime of the accepted candidate as the best, although the results were to be
  applied.
\<close>

lemma best_lost:
  "\<exists>st summary. optimize demo_config demo_world demo_source = Inr (st, summary)
    \<and> source_text st = demo_source \<and> best st = 90 \<and> accepted_count st = 1"
proof -
  obtain st1 where st1: "evaluate demo_config demo_world 1 demo_source (1, 1) cand_a demo_start = Inr st1"
    "best st1 = 90" "accepted_count st1 = 1"
    using demo_accepted by blast
  define st2 where "st2 = revert (1, 2) cand_b demo_source ''correctness failure'' (Some ''correctness'') None
    (st1\<lparr>source_text := source_b\<rparr>)"
  have "evaluate_all demo_config demo_world 1 demo_source 1 1 [cand_a, cand_b] demo_start = Inr st2"
    using st1(1) demo_rejected [of st1] by (simp add: st2_def numeral_2_eq_2)
  then have "iterate demo_config demo_world 1 [1] demo_start = Inr st2"
    by (simp add: demo_fields demo_candidates Let_def del: evaluate_all.simps One_nat_def)
  moreover have "iterations demo_config = 1" "noise_floor_pct demo_config = Some 1" "cf_apply demo_config"
    by (simp_all add: demo_config_def)
  ultimately have "\<exists>summary. optimize demo_config demo_world demo_source = Inr (st2, summary)"
    by (simp add: optimize_def demo_answers run_benchmark_def demo_start_def Let_def)
  moreover have "source_text st2 = demo_source" "best st2 = 90" "accepted_count st2 = 1"
    using st1 by (simp_all add: st2_def revert_def)
  ultimately show ?thesis by blast
qed

theorem optimize_correct_witness:
  "\<exists>st summary. optimize demo_config demo_world demo_source = Inr (st, summary) \<and> accepted_count st = 1
    \<and> books_agree st \<and> passed_tests demo_config demo_world demo_source (source_text st)"
  using best_lost optimize_correct by blast


text \<open>
  A baseline of zero is refused by the strategy as \<open>missing-metric\<close>, but the loop divides by
  it before it asks: the run ends with a \<open>ZeroDivisionError\<close> while the candidate is on disk,
  and nothing restores the original.
\<close>

definition zero_world :: world where
  "zero_world = demo_world\<lparr>w_benchmark := (\<lambda>_ _. Some 0)\<rparr>"

lemma cf_apply_unused [simp]:
  "extract_function (cf\<lparr>cf_apply := b\<rparr>) = extract_function cf"
  "install_candidate (cf\<lparr>cf_apply := b\<rparr>) = install_candidate cf"
  "abi_errors (cf\<lparr>cf_apply := b\<rparr>) = abi_errors cf"
  "run_benchmark (cf\<lparr>cf_apply := b\<rparr>) = run_benchmark cf"
  "run_differential (cf\<lparr>cf_apply := b\<rparr>) = run_differential cf"
  "candidates_for (cf\<lparr>cf_apply := b\<rparr>) = candidates_for cf"
proof -
  show e: "extract_function (cf\<lparr>cf_apply := b\<rparr>) = extract_function cf"
    by (intro ext) (simp add: extract_function_def split: option.split)
  show "install_candidate (cf\<lparr>cf_apply := b\<rparr>) = install_candidate cf"
    by (intro ext) (simp add: install_candidate_def e split: sum.split)
qed (intro ext; simp add: abi_errors_def run_benchmark_def run_differential_def candidates_for_def)+

lemma zero_answers:
  "w_tests zero_world (i, k) src \<longleftrightarrow> k \<le> 1" "w_differential zero_world lb src" "w_benchmark zero_world lb src = Some 0"
  "candidates_for demo_config zero_world = candidates_for demo_config demo_world"
proof -
  show "candidates_for demo_config zero_world = candidates_for demo_config demo_world"
    by (intro ext) (simp add: candidates_for_def zero_world_def)
qed (simp_all add: zero_world_def demo_answers)

lemma original_not_restored:
  "optimize (demo_config\<lparr>cf_apply := False\<rparr>) zero_world demo_source = Inl (ZeroDivisionError, source_a)"
proof -
  define st where "st = baseline_state (demo_config\<lparr>cf_apply := False\<rparr>) zero_world demo_source demo_source 0"
  have st: "source_text st = demo_source" "best st = 0" by (simp_all add: st_def baseline_state_def Let_def)
  have "evaluate (demo_config\<lparr>cf_apply := False\<rparr>) zero_world 1 demo_source (1, 1) cand_a st
      = Inl (ZeroDivisionError, st\<lparr>source_text := source_a\<rparr>)"
    by (simp add: evaluate_def Let_def zero_answers run_benchmark_def run_differential_def demo_answers
        judge_candidate_def st)
  then have "iterate (demo_config\<lparr>cf_apply := False\<rparr>) zero_world 1 [1] st = Inl (ZeroDivisionError, st\<lparr>source_text := source_a\<rparr>)"
    by (simp add: st zero_answers demo_candidates Let_def del: One_nat_def)
  moreover have "iterations demo_config = 1" "noise_floor_pct demo_config = Some 1" by (simp_all add: demo_config_def)
  ultimately show ?thesis
    by (simp add: optimize_def zero_answers run_benchmark_def demo_answers Let_def flip: st_def)
qed

end
