(* ===== verification/Syscall_Audit.thy ===== *)
theory Syscall_Audit
  imports Asm_Parse "HOL-Library.Char_ord" "HOL-Library.List_Lexorder"
begin

text \<open>
  The static syscall audit (scripts/syscall_audit.py): the number tables of src/defs.S, the
  allowlist, the call sites in the sources, the linear scan of the disassembly, and the verdict.
  Texts of files and the output of the disassembler are arguments. Lines come without their
  newline, which the code strips or does not look at. A failure is a value instead of a message;
  the printed and the JSON report are left out. The theorems say what a passed audit means for
  every svc of the binary, and which number the scan attributes to it.
\<close>

definition file_lines :: "string \<Rightarrow> string list" where
  "file_lines txt = split_chr CHR 0x0A txt"

definition FORBIDDEN :: "string list" where
  "FORBIDDEN = [''open'', ''openat'', ''creat'', ''unlink'', ''unlinkat'', ''rename'', ''renameat'',
     ''renameatx_np'', ''mkdir'', ''mkdirat'', ''rmdir'', ''execve'', ''execveat'',
     ''chdir'', ''chroot'', ''getdents64'', ''getdirentries64'', ''stat64'',
     ''newfstatat'', ''link'', ''symlink'', ''mount'', ''ptrace'']"

section \<open>The number tables\<close>

datatype platform = Linux | Macos

record defs_state =
  tables :: "platform \<Rightarrow> (int, string) dict"
  names :: "platform \<Rightarrow> (string, int) dict"
  arm :: "platform option"
  depth :: int
  top_at :: "int option"

definition EQU_RE :: rx where
  "EQU_RE = seqs [Bos, lit ''.equ'', rep1 ws, lit ''SYS_'', Grp 1 (rep1 wordc), Star ws, chr CHR '','',
     Star ws, Grp 2 (rep1 digit)]"

definition defs_entry :: "string \<Rightarrow> defs_state \<Rightarrow> defs_state" where
  "defs_entry s st =
     (case (re_match EQU_RE s, arm st) of
        (Some m, Some a) \<Rightarrow>
          (let name = group_str m 1; num = py_int (group_str m 2) in
           st\<lparr>tables := (tables st)(a := dict_put num name (tables st a)),
              names := (names st)(a := dict_put name num (names st a))\<rparr>)
      | _ \<Rightarrow> st)"

definition defs_line :: "string \<Rightarrow> defs_state \<Rightarrow> defs_state" where
  "defs_line line st =
     (let s = strip line in
      if startswith s ''#if'' then
        (let st = st\<lparr>depth := depth st + 1\<rparr> in
         if top_at st = None \<and> startswith s ''#ifdef __linux__''
         then st\<lparr>top_at := Some (depth st), arm := Some Linux\<rparr> else st)
      else if startswith s ''#else'' then
        (if top_at st = Some (depth st) then st\<lparr>arm := Some Macos\<rparr> else st)
      else if startswith s ''#endif'' then
        (let st = (if top_at st = Some (depth st) then st\<lparr>top_at := None, arm := None\<rparr> else st) in
         st\<lparr>depth := depth st - 1\<rparr>)
      else defs_entry s st)"

definition defs_start :: defs_state where
  "defs_start = \<lparr>tables = (\<lambda>_. []), names = (\<lambda>_. []), arm = None, depth = 0, top_at = None\<rparr>"

text \<open>\<open>None\<close> is the \<open>SystemExit\<close> for a file without a table.\<close>

definition parse_defs :: "string \<Rightarrow> ((platform \<Rightarrow> (int, string) dict) \<times> (platform \<Rightarrow> (string, int) dict)) option" where
  "parse_defs txt =
     (let st = fold defs_line (file_lines txt) defs_start in
      if tables st Linux = [] \<or> tables st Macos = [] then None else Some (tables st, names st))"

section \<open>Allowlist and sources\<close>

definition parse_allowlist :: "string \<Rightarrow> string set" where
  "parse_allowlist txt = set (filter (\<lambda>s. s \<noteq> []) (map (\<lambda>line. strip (cut_at ''#'' line)) (file_lines txt)))"

definition SCWINUM_RE :: rx where
  "SCWINUM_RE = seqs [WordB, lit ''SCWINUM'', rep1 ws, lit ''SYS_'', Grp 1 (rep1 wordc)]"

definition DEFAULT_DEFS :: string where
  "DEFAULT_DEFS = ''src/defs.S''"

text \<open>The files of the walk over the source tree, in its order: path and text.\<close>

type_synonym site = "string \<times> string \<times> nat"

definition scan_file :: "string \<times> string \<Rightarrow> site list" where
  "scan_file = (\<lambda>(path, txt). concat (map (\<lambda>(n, line).
     case re_search SCWINUM_RE line of None \<Rightarrow> [] | Some m \<Rightarrow> [(group_str m 1, path, n)])
       (enumerate 1 (file_lines txt))))"

definition scan_source :: "(string \<times> string) list \<Rightarrow> site list" where
  "scan_source files =
     concat (map scan_file (filter (\<lambda>(path, txt). endswith path ''.S'' \<and> path \<noteq> DEFAULT_DEFS) files))"

section \<open>The scan of the disassembly\<close>

definition NUM_REG :: "platform \<Rightarrow> string" where
  "NUM_REG p = (case p of Linux \<Rightarrow> ''x8'' | Macos \<Rightarrow> ''x16'')"

definition hexc :: rx where
  "hexc = Cls (\<lambda>c. py_digit c \<or> char_between CHR ''a'' CHR ''f'' c \<or> char_between CHR ''A'' CHR ''F'' c)"

definition INSN_RE :: rx where
  "INSN_RE = seqs [Bos, Star ws, rep1 hexc, Cls (\<lambda>c. c = CHR '':'' \<or> c = CHR 0x09 \<or> c = CHR '' ''), Star ws,
     Opt (Seq (seqs (replicate 8 hexc)) (rep1 ws)),
     Grp 1 (Seq wordc (Star (Cls (\<lambda>c. py_word c \<or> c = CHR ''.'')))), Star ws, Grp 2 (Star any_chr), Eos]"

definition label_head :: rx where
  "label_head = Cls (\<lambda>c. c = CHR ''_'' \<or> char_between CHR ''A'' CHR ''Z'' c \<or> char_between CHR ''a'' CHR ''z'' c)"

definition SYM_LABEL_RE :: rx where
  "SYM_LABEL_RE = Alt
     (seqs [Bos, Grp 1 (Seq label_head (Star (Cls (\<lambda>c. py_word c \<or> c = CHR ''.'' \<or> c = CHR ''$'')))),
        Star ws, chr CHR '':'', Star ws, Eos])
     (seqs [Bos, rep1 hexc, rep1 ws, chr CHR ''<'', Grp 2 (rep1 (Cls (\<lambda>c. c \<noteq> CHR ''>''))), lit ''>:'',
        Star ws, Eos])"

definition IMM_RE :: rx where
  "IMM_RE = Seq (chr CHR ''#'') (Grp 1 (Alt (Seq (lit ''0x'') (rep1 hexc)) (rep1 digit)))"

definition ADDR_RE :: rx where
  "ADDR_RE = seqs [Bos, Star ws, Grp 1 (rep1 hexc)]"

definition hex_value :: "char \<Rightarrow> int" where
  "hex_value c = (if py_digit c then int (of_char c) - 48 else int (of_char (lower_chr c)) - 87)"

text \<open>\<open>int(s, 0)\<close>: a decimal number with a leading zero is a \<open>ValueError\<close>, unless it is all zeros.\<close>

definition int_base0 :: "string \<Rightarrow> int option" where
  "int_base0 s =
     (if startswith s ''0x'' then Some (fold (\<lambda>c v. 16 * v + hex_value c) (drop 2 s) 0)
      else if startswith s ''0'' \<and> list_ex (\<lambda>c. c \<noteq> CHR ''0'') s then None
      else Some (val_digits s))"

text \<open>What a line of the disassembly is to the scan.\<close>

datatype listing =
    Label string
  | Number "int option"
  | Svc string
  | Other

text \<open>
  \<open>None\<close> is the \<open>ValueError\<close> of \<open>int(s, 0)\<close>. An instruction whose first operand is the number
  register sets the number, to unknown unless it moves an immediate.
\<close>

definition read_listing :: "string \<Rightarrow> string \<Rightarrow> listing option" where
  "read_listing reg line =
     (case re_match SYM_LABEL_RE (strip line) of
        Some lab \<Rightarrow> Some (Label (if group_str lab 1 \<noteq> [] then group_str lab 1 else group_str lab 2))
      | None \<Rightarrow>
     (case re_match INSN_RE line of
        None \<Rightarrow> Some Other
      | Some m \<Rightarrow>
          (let mn = group_str m 1; args = group_str m 2 in
           if startswith args (reg @ '','') then
             (if mn = ''mov'' \<or> mn = ''movz'' then
                (case re_search IMM_RE args of
                   None \<Rightarrow> Some (Number None)
                 | Some v \<Rightarrow> map_option (\<lambda>n. Number (Some n)) (int_base0 (group_str v 1)))
              else Some (Number None))
           else if mn = ''svc'' then
             Some (Svc (case re_match ADDR_RE line of Some a \<Rightarrow> group_str a 1 | None \<Rightarrow> []))
           else Some Other)))"

text \<open>A site: the number, the function and the address.\<close>

type_synonym svc_site = "int option \<times> string \<times> string"

fun scan_step :: "listing \<Rightarrow> svc_site list \<times> string \<times> int option \<Rightarrow> svc_site list \<times> string \<times> int option" where
  "scan_step (Label f) (sites, func, known) = (sites, f, None)"
| "scan_step (Number n) (sites, func, known) = (sites, func, n)"
| "scan_step (Svc addr) (sites, func, known) = (sites @ [(known, func, addr)], func, known)"
| "scan_step Other (sites, func, known) = (sites, func, known)"

definition scan_listing :: "listing list \<Rightarrow> svc_site list \<times> string \<times> int option" where
  "scan_listing ls = fold scan_step ls ([], ''?'', None)"

definition scan_binary :: "string \<Rightarrow> string \<Rightarrow> svc_site list option" where
  "scan_binary txt reg =
     map_option (\<lambda>ls. fst (scan_listing ls)) (those (map (read_listing reg) (split_lines txt)))"

section \<open>The verdict\<close>

datatype audit_failure =
    Source_Not_Allowed string "string \<times> nat"
  | Source_Forbidden string "string \<times> nat"
  | No_Svc
  | Unresolved string string
  | Binary_Not_Allowed string int string string
  | Binary_Forbidden string int string string
  | Binary_Not_In_Source string

text \<open>\<open>src_used\<close>: the sites of each name, in the order of the walk.\<close>

definition source_used :: "site list \<Rightarrow> (string, (string \<times> nat) list) dict" where
  "source_used sites = fold (\<lambda>(name, path, line). dict_append name (path, line)) sites []"

definition source_failures :: "string set \<Rightarrow> site list \<Rightarrow> audit_failure list" where
  "source_failures allowed sites =
     concat (map (\<lambda>(name, locs).
       (if name \<notin> allowed then [Source_Not_Allowed name (hd locs)] else [])
       @ (if name \<in> set FORBIDDEN then [Source_Forbidden name (hd locs)] else []))
         (sort_key fst (source_used sites)))"

definition syscall_name :: "(int, string) dict \<Rightarrow> int \<Rightarrow> string" where
  "syscall_name table num = dict_getd table num (''unknown('' @ str_int num @ '')'')"

definition svc_failures :: "(int, string) dict \<Rightarrow> string set \<Rightarrow> svc_site \<Rightarrow> audit_failure list" where
  "svc_failures table allowed = (\<lambda>(num, func, addr).
     (case num of
        None \<Rightarrow> [Unresolved addr func]
      | Some n \<Rightarrow>
          (let name = syscall_name table n in
           (if name \<notin> allowed then [Binary_Not_Allowed name n addr func] else [])
           @ (if name \<in> set FORBIDDEN then [Binary_Forbidden name n addr func] else []))))"

definition binary_used :: "(int, string) dict \<Rightarrow> svc_site list \<Rightarrow> (string, string list) dict" where
  "binary_used table bsites = fold (\<lambda>(num, func, addr). \<lambda>used.
     (case num of None \<Rightarrow> used | Some n \<Rightarrow> dict_append (syscall_name table n) addr used)) bsites []"

definition binary_failures :: "(int, string) dict \<Rightarrow> string set \<Rightarrow> site list \<Rightarrow> svc_site list \<Rightarrow> audit_failure list" where
  "binary_failures table allowed sites bsites =
     (if bsites = [] then [No_Svc] else [])
     @ concat (map (svc_failures table allowed) bsites)
     @ concat (map (\<lambda>(name, addrs).
         if name \<notin> fst ` set (source_used sites) \<and> \<not> startswith name ''unknown(''
         then [Binary_Not_In_Source name] else []) (binary_used table bsites))"

text \<open>What there is to disassemble: nothing was asked for, no such file, no tool, or its output.\<close>

datatype binary_text = Skipped | No_File | No_Tool | Text string

record audit_input =
  ai_platform :: platform
  ai_defs :: string
  ai_allowlist :: string
  ai_source :: "(string \<times> string) list"
  ai_binary :: binary_text

text \<open>The failures, or how the run ended before a verdict.\<close>

datatype audit_stop = Exit_Message | Exit_Code int | Value_Error

definition audit_failures :: "audit_input \<Rightarrow> audit_stop + audit_failure list" where
  "audit_failures ai =
     (case parse_defs (ai_defs ai) of
        None \<Rightarrow> Inl Exit_Message
      | Some (tabs, nms) \<Rightarrow>
          (let allowed = parse_allowlist (ai_allowlist ai);
               sites = scan_source (ai_source ai);
               fs = source_failures allowed sites
           in (case ai_binary ai of
                 Skipped \<Rightarrow> Inr fs
               | No_File \<Rightarrow> Inl (Exit_Code 2)
               | No_Tool \<Rightarrow> Inl Exit_Message
               | Text txt \<Rightarrow>
                   (case scan_binary txt (NUM_REG (ai_platform ai)) of
                      None \<Rightarrow> Inl Value_Error
                    | Some bsites \<Rightarrow>
                        Inr (fs @ binary_failures (tabs (ai_platform ai)) allowed sites bsites)))))"

text \<open>The exit status: a \<open>SystemExit\<close> with a message and an uncaught exception both give 1.\<close>

definition audit_exit :: "audit_input \<Rightarrow> int" where
  "audit_exit ai =
     (case audit_failures ai of
        Inl (Exit_Code n) \<Rightarrow> n
      | Inl _ \<Rightarrow> 1
      | Inr fs \<Rightarrow> (if fs = [] then 0 else 1))"

section \<open>What the scan attributes to an svc\<close>

text \<open>
  The number known after a part of the listing: that of the last line that set it, if no label
  came after that line.
\<close>

fun number_after :: "listing list \<Rightarrow> int option" where
  "number_after [] = None"
| "number_after (l # before) = (case l of
     Label f \<Rightarrow> None | Number n \<Rightarrow> n | Svc a \<Rightarrow> number_after before | Other \<Rightarrow> number_after before)"

lemma scan_listing_known: "snd (snd (scan_listing ls)) = number_after (rev ls)"
proof (induction ls rule: rev_induct)
  case (snoc l ls)
  then show ?case by (cases l; cases "scan_listing ls") (simp_all add: scan_listing_def)
qed (simp add: scan_listing_def)

definition site_keys :: "svc_site list \<Rightarrow> (int option \<times> string) list" where
  "site_keys sites = map (\<lambda>(n, f, a). (n, a)) sites"

text \<open>The svc lines of a listing with the number known before each of them.\<close>

definition svc_numbers :: "listing list \<Rightarrow> (int option \<times> string) list" where
  "svc_numbers ls = concat (map (\<lambda>i. case ls ! i of
     Svc a \<Rightarrow> [(number_after (rev (take i ls)), a)] | _ \<Rightarrow> []) [0..<length ls])"

lemma svc_numbers_snoc:
  "svc_numbers (ls @ [l]) = svc_numbers ls @ (case l of Svc a \<Rightarrow> [(number_after (rev ls), a)] | _ \<Rightarrow> [])"
proof -
  have "map (\<lambda>i. case (ls @ [l]) ! i of Svc a \<Rightarrow> [(number_after (rev (take i (ls @ [l]))), a)] | _ \<Rightarrow> []) [0..<length ls]
      = map (\<lambda>i. case ls ! i of Svc a \<Rightarrow> [(number_after (rev (take i ls)), a)] | _ \<Rightarrow> []) [0..<length ls]"
    by (rule map_cong [OF refl]) (simp add: nth_append split: listing.split)
  from arg_cong [OF this, of concat] show ?thesis
    by (simp add: svc_numbers_def split: listing.split)
qed

lemma scan_listing_sites: "site_keys (fst (scan_listing ls)) = svc_numbers ls"
proof (induction ls rule: rev_induct)
  case Nil
  then show ?case by (simp add: scan_listing_def site_keys_def svc_numbers_def)
next
  case (snoc l ls)
  obtain sites func known where scan: "scan_listing ls = (sites, func, known)" by (metis prod_cases3)
  then have "known = number_after (rev ls)" using scan_listing_known [of ls] by simp
  then show ?case using snoc scan
    by (cases l) (simp_all add: scan_listing_def svc_numbers_snoc site_keys_def)
qed


section \<open>What a passed audit means\<close>

definition may_call :: "string set \<Rightarrow> string \<Rightarrow> bool" where
  "may_call allowed name \<longleftrightarrow> name \<in> allowed \<and> name \<notin> set FORBIDDEN"

lemma keys_dict_append: "fst ` set (dict_append k v d) = insert k (fst ` set d)"
proof -
  have "fst ` set (dict_put k vs d) = insert k (fst ` set d)" for vs :: "'b list"
    by (induction k vs d rule: dict_put.induct) (simp_all add: insert_commute)
  then show ?thesis by (simp add: dict_append_def split: option.split)
qed

lemma source_used_keys: "fst ` set (source_used sites) = fst ` set sites"
proof -
  have "fst ` set (fold (\<lambda>(name, path, line). dict_append name (path, line)) sites d)
      = fst ` set d \<union> fst ` set sites" for d
    by (induction sites arbitrary: d) (simp_all add: keys_dict_append case_prod_unfold)
  then show ?thesis by (simp add: source_used_def)
qed

lemma binary_used_keys:
  "fst ` set (binary_used table bsites) = {name. \<exists>b \<in> set bsites. \<exists>n. fst b = Some n \<and> name = syscall_name table n}"
proof -
  have "fst ` set (fold (\<lambda>(num, func, addr). \<lambda>used.
       (case num of None \<Rightarrow> used | Some n \<Rightarrow> dict_append (syscall_name table n) addr used)) bsites d)
      = fst ` set d \<union> {name. \<exists>b \<in> set bsites. \<exists>n. fst b = Some n \<and> name = syscall_name table n}" for d
  proof (induction bsites arbitrary: d)
    case (Cons b bsites)
    show ?case
      by (cases "fst b") (simp_all add: case_prod_unfold Cons.IH [unfolded case_prod_unfold]
          keys_dict_append set_eq_iff, blast+)
  qed simp
  then show ?thesis by (simp add: binary_used_def)
qed

lemma source_failures_clean:
  "source_failures allowed sites = [] \<longleftrightarrow> (\<forall>name \<in> fst ` set sites. may_call allowed name)"
  unfolding source_used_keys [symmetric]
  by (simp add: source_failures_def may_call_def case_prod_unfold) blast

text \<open>An svc site the audit accepts.\<close>

definition site_ok :: "(int, string) dict \<Rightarrow> string set \<Rightarrow> string set \<Rightarrow> svc_site \<Rightarrow> bool" where
  "site_ok table allowed asked = (\<lambda>(num, func, addr).
     (\<exists>n. num = Some n \<and> may_call allowed (syscall_name table n)
        \<and> (syscall_name table n \<in> asked \<or> startswith (syscall_name table n) ''unknown('')))"

lemma svc_failures_clean:
  "svc_failures table allowed b = [] \<longleftrightarrow> (\<exists>n. fst b = Some n \<and> may_call allowed (syscall_name table n))"
  by (simp add: svc_failures_def may_call_def Let_def case_prod_unfold split: option.split)

lemma binary_failures_clean:
  "binary_failures table allowed sites bsites = [] \<longleftrightarrow>
     bsites \<noteq> [] \<and> (\<forall>b \<in> set bsites. site_ok table allowed (fst ` set sites) b)"
proof -
  have "(\<forall>x \<in> set (binary_used table bsites). P (fst x)) \<longleftrightarrow>
      (\<forall>b \<in> set bsites. \<forall>n. fst b = Some n \<longrightarrow> P (syscall_name table n))" for P
  proof -
    have "(\<forall>x \<in> set (binary_used table bsites). P (fst x)) \<longleftrightarrow> (\<forall>name \<in> fst ` set (binary_used table bsites). P name)"
      by simp
    then show ?thesis unfolding binary_used_keys by auto
  qed
  note used = this [of "\<lambda>name. name \<in> fst ` set (source_used sites) \<or> startswith name ''unknown(''"]
  have "site_ok table allowed (fst ` set sites) b \<longleftrightarrow> svc_failures table allowed b = []
      \<and> (\<forall>n. fst b = Some n \<longrightarrow> syscall_name table n \<in> fst ` set (source_used sites)
           \<or> startswith (syscall_name table n) ''unknown('')" for b
    by (cases b) (auto simp: site_ok_def svc_failures_clean source_used_keys)
  note site = this
  have "binary_failures table allowed sites bsites = [] \<longleftrightarrow> bsites \<noteq> []
      \<and> (\<forall>b \<in> set bsites. svc_failures table allowed b = [])
      \<and> (\<forall>x \<in> set (binary_used table bsites).
           fst x \<in> fst ` set (source_used sites) \<or> startswith (fst x) ''unknown('')"
    unfolding binary_failures_def case_prod_unfold by simp blast
  then show ?thesis unfolding used site by (simp only: ball_conj_distrib)
qed

definition audit_claim :: "audit_input \<Rightarrow> bool" where
  "audit_claim ai \<longleftrightarrow> (\<exists>tabs nms. parse_defs (ai_defs ai) = Some (tabs, nms)
     \<and> (\<forall>name \<in> fst ` set (scan_source (ai_source ai)). may_call (parse_allowlist (ai_allowlist ai)) name)
     \<and> (case ai_binary ai of
          Skipped \<Rightarrow> True
        | Text txt \<Rightarrow> (\<exists>bsites. scan_binary txt (NUM_REG (ai_platform ai)) = Some bsites \<and> bsites \<noteq> []
            \<and> (\<forall>b \<in> set bsites. site_ok (tabs (ai_platform ai)) (parse_allowlist (ai_allowlist ai))
                  (fst ` set (scan_source (ai_source ai))) b))
        | _ \<Rightarrow> False))"


section \<open>The two arms of the tables\<close>

definition conditional :: "string \<Rightarrow> bool" where
  "conditional line \<longleftrightarrow> startswith (strip line) ''#if'' \<or> startswith (strip line) ''#else''
     \<or> startswith (strip line) ''#endif''"

text \<open>Lines whose conditionals are closed again, \<open>d\<close> of them being open at the start.\<close>

fun balanced :: "nat \<Rightarrow> string list \<Rightarrow> bool" where
  "balanced d [] \<longleftrightarrow> d = 0"
| "balanced d (l # ls) \<longleftrightarrow>
     (if startswith (strip l) ''#if'' then balanced (Suc d) ls
      else if startswith (strip l) ''#else'' then 0 < d \<and> balanced d ls
      else if startswith (strip l) ''#endif'' then 0 < d \<and> balanced (d - 1) ls
      else balanced d ls)"

definition put_entry :: "string \<Rightarrow> (int, string) dict \<Rightarrow> (int, string) dict" where
  "put_entry line table = (case re_match EQU_RE (strip line) of
     None \<Rightarrow> table | Some m \<Rightarrow> dict_put (py_int (group_str m 2)) (group_str m 1) table)"

text \<open>The numbers a list of lines defines.\<close>

definition arm_table :: "string list \<Rightarrow> (int, string) dict \<Rightarrow> (int, string) dict" where
  "arm_table ls table = fold put_entry (filter (\<lambda>l. \<not> conditional l) ls) table"

lemma defs_line_plain:
  assumes "\<not> conditional l"
  shows "defs_line l st = defs_entry (strip l) st"
  using assms by (simp add: defs_line_def conditional_def Let_def)

lemma defs_entry_fields:
  "arm (defs_entry s st) = arm st" "top_at (defs_entry s st) = top_at st" "depth (defs_entry s st) = depth st"
  by (simp_all add: defs_entry_def Let_def split: option.split)

lemma defs_entry_tables:
  "tables (defs_entry (strip l) st) = (case arm st of None \<Rightarrow> tables st
     | Some a \<Rightarrow> (tables st)(a := put_entry l (tables st a)))"
  by (simp add: defs_entry_def put_entry_def Let_def split: option.split)

lemma defs_arm:
  assumes "balanced d ls" "arm st = Some a" "top_at st = Some t" "depth st = t + int d"
  shows "arm (fold defs_line ls st) = Some a \<and> top_at (fold defs_line ls st) = Some t
    \<and> depth (fold defs_line ls st) = t
    \<and> tables (fold defs_line ls st) = (tables st)(a := arm_table ls (tables st a))"
  using assms
proof (induction ls arbitrary: d st)
  case (Cons l ls)
  show ?case
  proof (cases "conditional l")
    case False
    then have "balanced d ls" using Cons.prems(1) by (simp add: conditional_def split: if_splits)
    then show ?thesis
      using Cons.IH [of d "defs_line l st"] Cons.prems False
      by (simp add: defs_line_plain defs_entry_fields defs_entry_tables arm_table_def fun_eq_iff)
  next
    case True
    then obtain d' where "balanced d' ls" "defs_line l st = st\<lparr>depth := t + int d'\<rparr>"
      using Cons.prems
      by (cases d) (auto simp: defs_line_def conditional_def Let_def algebra_simps split: if_splits)
    then show ?thesis
      using Cons.IH [of d' "defs_line l st"] Cons.prems True by (simp add: arm_table_def)
  qed
qed (simp add: arm_table_def)

lemma defs_outside:
  assumes "list_all (\<lambda>l. \<not> conditional l) ls" "arm st = None"
  shows "tables (fold defs_line ls st) = tables st \<and> arm (fold defs_line ls st) = None
    \<and> top_at (fold defs_line ls st) = top_at st \<and> depth (fold defs_line ls st) = depth st"
  using assms
  by (induction ls arbitrary: st) (simp_all add: defs_line_plain defs_entry_fields defs_entry_tables)

text \<open>
  The table of a platform holds what its own arm of the conditional defines, whatever
  conditionals are nested in the arms.
\<close>

lemma defs_two_arms:
  assumes "list_all (\<lambda>l. \<not> conditional l) pre" "list_all (\<lambda>l. \<not> conditional l) post"
    and "balanced 0 A" "balanced 0 B"
  shows "tables (fold defs_line (pre @ ''#ifdef __linux__'' # A @ ''#else'' # B @ ''#endif'' # post) defs_start)
    = (\<lambda>p. case p of Linux \<Rightarrow> arm_table A [] | Macos \<Rightarrow> arm_table B [])"
proof -
  have dirs: "defs_line ''#ifdef __linux__'' st = (if top_at st = None
        then st\<lparr>depth := depth st + 1, top_at := Some (depth st + 1), arm := Some Linux\<rparr>
        else st\<lparr>depth := depth st + 1\<rparr>)"
    "defs_line ''#else'' st = (if top_at st = Some (depth st) then st\<lparr>arm := Some Macos\<rparr> else st)"
    "defs_line ''#endif'' st = (if top_at st = Some (depth st)
        then st\<lparr>top_at := None, arm := None, depth := depth st - 1\<rparr> else st\<lparr>depth := depth st - 1\<rparr>)" for st
    by (simp_all add: defs_line_def Let_def startswith_def strip_def rstrip_of_def lstrip_of_def py_space_def)
  define st0 where "st0 = fold defs_line pre defs_start"
  have st0: "tables st0 = (\<lambda>_. [])" "top_at st0 = None" "depth st0 = 0"
    using defs_outside [of pre defs_start] assms(1) by (simp_all add: st0_def defs_start_def)
  define st1 where "st1 = fold defs_line A (defs_line ''#ifdef __linux__'' st0)"
  have st1: "top_at st1 = Some 1" "depth st1 = 1" "tables st1 = (\<lambda>_. [])(Linux := arm_table A [])"
    using defs_arm [OF assms(3), of "defs_line ''#ifdef __linux__'' st0" Linux 1] st0
    by (simp_all add: st1_def dirs)
  define st2 where "st2 = fold defs_line B (defs_line ''#else'' st1)"
  have st2: "top_at st2 = Some 1" "depth st2 = 1"
    "tables st2 = (tables st1)(Macos := arm_table B (tables st1 Macos))"
    using defs_arm [OF assms(4), of "defs_line ''#else'' st1" Macos 1] st1
    by (simp_all add: st2_def dirs)
  have "tables (fold defs_line post (defs_line ''#endif'' st2)) = tables st2"
    using defs_outside [of post "defs_line ''#endif'' st2"] assms(2) st2 by (simp add: dirs)
  then show ?thesis
    using st1 st2 by (auto simp: st0_def [symmetric] st1_def [symmetric] st2_def [symmetric] fun_eq_iff
        split: platform.split)
qed

section \<open>Where the scan is wrong\<close>

text \<open>
  A write through the 32-bit name of the register, a write to it as a second destination, and a
  branch around the move all leave the last immediate in place: the svc is reported with a number
  that need not be the one in the register.
\<close>

definition tabbed :: "string list \<Rightarrow> string" where
  "tabbed cols = join [CHR 0x09] cols"

lemma scan_misses_writes:
  "map (read_listing ''x8'')
     [tabbed [''   4:'', ''d2800ba8 '', ''mov'', ''x8, #0x5d''],
      tabbed [''   8:'', ''2a0003e8 '', ''mov'', ''w8, w0''],
      tabbed [''   c:'', ''a94023e0 '', ''ldp'', ''x0, x8, [sp]''],
      tabbed [''  10:'', ''d4000001 '', ''svc'', ''#0x0'']]
   = [Some (Number (Some 93)), Some Other, Some Other, Some (Svc ''10'')]"
  by code_simp

lemma scan_misses_branch:
  "map (read_listing ''x8'')
     [tabbed [''   0:'', ''aa0003e8 '', ''mov'', ''x8, x0''],
      tabbed [''   4:'', ''b4000041 '', ''cbz'', ''x1, c <f+0xc>''],
      tabbed [''   8:'', ''d2800ba8 '', ''mov'', ''x8, #0x5d''],
      tabbed [''   c:'', ''d4000001 '', ''svc'', ''#0x0'']]
   = [Some (Number None), Some Other, Some (Number (Some 93)), Some (Svc ''c'')]"
  "svc_numbers [Number None, Other, Number (Some 93), Svc ''c''] = [(Some 93, ''c'')]"
  by code_simp+

text \<open>A run without a disassembler exits with 1, the status of a failed check.\<close>

lemma no_tool_exit: "ai_binary ai = No_Tool \<Longrightarrow> audit_exit ai = 1"
  by (simp add: audit_exit_def audit_failures_def Let_def split: option.split)

end
