(* ===== verification/Width_Guard.thy ===== *)
theory Width_Guard
  imports Asm_Parse "HOL-Library.Char_ord" "HOL-Library.List_Lexorder"
begin

text \<open>
  The width guard (scripts/width_guard.py): the sweep of the wire-parsing directories for
  multi-octet fields composed in a 64-bit register, and the declared shape of the files whose
  length arithmetic was reviewed. The working tree is an argument. A failure is a value instead
  of a message, without the explanatory note that is part of its text; the report table is left
  out. The theorems say what a run without failures means for every line of the tree.
\<close>

section \<open>Scanning a file\<close>

definition WIRE_DIRS :: "string list" where
  "WIRE_DIRS = [''src/tls/record'', ''src/tls/handshake'', ''src/tls/server'',
     ''src/h2'', ''src/hpack'', ''src/parse'', ''src/http1'', ''src/file'']"

text \<open>Path, widest shift and number of composition instructions.\<close>

definition DECLARED :: "(string \<times> int \<times> nat) list" where
  "DECLARED = [
     (''src/tls/record/parse.S'', 8, 2),
     (''src/tls/server/handshake.S'', 16, 4),
     (''src/tls/handshake/client_hello.S'', 8, 14),
     (''src/h2/h2_parse_frame_header.S'', 24, 5),
     (''src/h2/h2_handle_settings.S'', 24, 4),
     (''src/h2/h2_handle_window_update.S'', 24, 3),
     (''src/h2/h2_handle_goaway.S'', 24, 3)]"

definition wx :: rx where
  "wx = Cls (\<lambda>c. lower_chr c \<in> set ''wx'')"

definition comma :: rx where
  "comma = seqs [Star ws, chr CHR '','', Star ws]"

definition ORR_SHIFT :: rx where
  "ORR_SHIFT = seqs [Bos, Star ws, ilit ''orr'', rep1 ws, Grp 1 wx, Grp 2 (rep1 digit), comma,
     wx, rep1 digit, comma, wx, rep1 digit, comma, ilit ''lsl'', Star ws, chr CHR ''#'',
     Grp 3 (rep1 digit)]"

definition LSL_IMM :: rx where
  "LSL_IMM = seqs [Bos, Star ws, ilit ''lsl'', rep1 ws, Grp 1 wx, Grp 2 (rep1 digit), comma,
     wx, rep1 digit, comma, chr CHR ''#'', Grp 3 (rep1 digit)]"

definition line_code :: "string \<Rightarrow> string" where
  "line_code line = cut_at ''//'' line"

record width_scan =
  max_shift :: int
  composition_ops :: nat
  wide :: "(nat \<times> string) list"

text \<open>The body of the inner loop: one pattern on the code of one line.\<close>

fun scan_pattern :: "nat \<Rightarrow> string \<Rightarrow> rx \<times> bool \<Rightarrow> width_scan \<Rightarrow> width_scan" where
  "scan_pattern lineno code (pat, is_orr) sc =
     (case re_match pat code of
        None \<Rightarrow> sc
      | Some g \<Rightarrow>
          (let reg = lower (group_str g 1); shift = py_int (group_str g 3) in
           \<lparr>max_shift = max (max_shift sc) shift,
            composition_ops = composition_ops sc + 1,
            wide = (if reg = ''x'' \<and> is_orr then wide sc @ [(lineno, strip code)] else wide sc)\<rparr>))"

definition scan_line :: "nat \<times> string \<Rightarrow> width_scan \<Rightarrow> width_scan" where
  "scan_line = (\<lambda>(lineno, line) sc.
     fold (scan_pattern lineno (line_code line)) [(ORR_SHIFT, True), (LSL_IMM, False)] sc)"

definition width_scan_of :: "string \<Rightarrow> width_scan" where
  "width_scan_of txt =
     fold scan_line (enumerate 1 (split_lines txt)) \<lparr>max_shift = 0, composition_ops = 0, wide = []\<rparr>"

section \<open>The check\<close>

text \<open>
  The files of the working tree in the order of their paths, with their texts, and its
  directories.
\<close>

record work_tree =
  tree_dirs :: "string list"
  tree_files :: "(string \<times> string) list"

datatype width_failure =
    Dir_Missing string
  | Wide_Field string nat string
  | File_Missing string
  | Field_Grew string int int
  | Ops_Changed string nat nat

definition files_under :: "work_tree \<Rightarrow> string \<Rightarrow> (string \<times> string) list" where
  "files_under t d = filter (\<lambda>(p, txt). startswith p (d @ ''/'') \<and> endswith p ''.S'') (tree_files t)"

definition sweep_dir :: "work_tree \<Rightarrow> string \<Rightarrow> width_failure list" where
  "sweep_dir t d =
     (if d \<notin> set (tree_dirs t) then [Dir_Missing d]
      else concat (map (\<lambda>(p, txt). map (\<lambda>(lineno, code). Wide_Field p lineno code) (wide (width_scan_of txt)))
             (files_under t d)))"

definition declared_failures :: "work_tree \<Rightarrow> string \<times> int \<times> nat \<Rightarrow> width_failure list" where
  "declared_failures t = (\<lambda>(rel, want_shift, want_ops).
     (case map_of (tree_files t) rel of
        None \<Rightarrow> [File_Missing rel]
      | Some txt \<Rightarrow>
          (let sc = width_scan_of txt in
           (if max_shift sc > want_shift then [Field_Grew rel (max_shift sc) want_shift] else [])
           @ (if composition_ops sc \<noteq> want_ops then [Ops_Changed rel (composition_ops sc) want_ops]
              else []))))"

definition width_failures :: "work_tree \<Rightarrow> width_failure list" where
  "width_failures t = concat (map (sweep_dir t) WIRE_DIRS)
     @ concat (map (declared_failures t) (sort_key fst DECLARED))"

text \<open>The exit status; \<open>--report\<close> prints a table and changes nothing else.\<close>

definition width_guard_exit :: "bool \<Rightarrow> work_tree \<Rightarrow> int" where
  "width_guard_exit report t = (if width_failures t \<noteq> [] then 1 else 0)"

section \<open>What a clean run means\<close>

definition composes_wide :: "string \<Rightarrow> bool" where
  "composes_wide line \<longleftrightarrow>
     (case re_match ORR_SHIFT (line_code line) of None \<Rightarrow> False | Some g \<Rightarrow> lower (group_str g 1) = ''x'')"

definition line_shifts :: "string \<Rightarrow> int list" where
  "line_shifts line = concat (map (\<lambda>pat. case re_match pat (line_code line) of
     None \<Rightarrow> [] | Some g \<Rightarrow> [py_int (group_str g 3)]) [ORR_SHIFT, LSL_IMM])"

definition text_shifts :: "string \<Rightarrow> int list" where
  "text_shifts txt = concat (map line_shifts (split_lines txt))"

lemma scan_line_eq:
  "scan_line (n, line) sc =
     \<lparr>max_shift = fold max (line_shifts line) (max_shift sc),
      composition_ops = composition_ops sc + length (line_shifts line),
      wide = wide sc @ (if composes_wide line then [(n, strip (line_code line))] else [])\<rparr>"
  by (cases sc) (simp add: scan_line_def line_shifts_def composes_wide_def Let_def max.commute
      split: option.split)

lemma fold_scan_line:
  "fold scan_line (enumerate n lines) sc =
     \<lparr>max_shift = fold max (concat (map line_shifts lines)) (max_shift sc),
      composition_ops = composition_ops sc + length (concat (map line_shifts lines)),
      wide = wide sc @ map (\<lambda>(i, line). (i, strip (line_code line)))
        (filter (\<lambda>(i, line). composes_wide line) (enumerate n lines))\<rparr>"
  by (induction lines arbitrary: n sc) (simp_all add: scan_line_eq)

lemma enumerate_all: "(\<forall>(i, x) \<in> set (enumerate n xs). P x) \<longleftrightarrow> list_all P xs"
  by (induction xs arbitrary: n) auto

lemma width_scan_spec:
  "max_shift (width_scan_of txt) = fold max (text_shifts txt) 0"
  "composition_ops (width_scan_of txt) = length (text_shifts txt)"
  "wide (width_scan_of txt) = [] \<longleftrightarrow> list_all (\<lambda>line. \<not> composes_wide line) (split_lines txt)"
  by (simp_all add: width_scan_of_def text_shifts_def fold_scan_line filter_empty_conv case_prod_unfold
      enumerate_all [of 1 _ "\<lambda>line. \<not> composes_wide line", unfolded case_prod_unfold, symmetric])

lemma fold_max_le: "fold max xs (a :: int) \<le> b \<longleftrightarrow> a \<le> b \<and> list_all (\<lambda>x. x \<le> b) xs"
  by (induction xs arbitrary: a) auto

text \<open>No line of an assembly file below \<open>d\<close> composes a field in an x register.\<close>

definition narrow_only :: "work_tree \<Rightarrow> string \<Rightarrow> bool" where
  "narrow_only t d \<longleftrightarrow> (\<forall>(p, txt) \<in> set (tree_files t).
     startswith p (d @ ''/'') \<longrightarrow> endswith p ''.S'' \<longrightarrow> (\<forall>line \<in> set (split_lines txt). \<not> composes_wide line))"

definition declared_shape :: "work_tree \<Rightarrow> string \<times> int \<times> nat \<Rightarrow> bool" where
  "declared_shape t = (\<lambda>(rel, s, n). \<exists>txt. map_of (tree_files t) rel = Some txt
     \<and> (\<forall>shift \<in> set (text_shifts txt). shift \<le> s) \<and> length (text_shifts txt) = n)"

definition width_premises :: "work_tree \<Rightarrow> bool" where
  "width_premises t \<longleftrightarrow>
     (\<forall>d \<in> set WIRE_DIRS. d \<in> set (tree_dirs t) \<and> narrow_only t d)
   \<and> (\<forall>x \<in> set DECLARED. declared_shape t x)"

lemma sweep_dir_clean: "sweep_dir t d = [] \<longleftrightarrow> d \<in> set (tree_dirs t) \<and> narrow_only t d"
  by (auto simp: sweep_dir_def files_under_def narrow_only_def width_scan_spec(3) list_all_iff)

lemma declared_clean: "x \<in> set DECLARED \<Longrightarrow> declared_failures t x = [] \<longleftrightarrow> declared_shape t x"
proof -
  assume "x \<in> set DECLARED"
  then obtain rel s n where x: "x = (rel, s, n)" "0 \<le> s" by (auto simp: DECLARED_def)
  have "max_shift (width_scan_of u) > s \<longleftrightarrow> \<not> (\<forall>shift \<in> set (text_shifts u). shift \<le> s)" for u
    using fold_max_le [of "text_shifts u" 0 s] x(2)
    by (simp add: width_scan_spec(1) not_le [symmetric] list_all_iff)
  then show ?thesis
    by (simp add: x(1) declared_failures_def declared_shape_def width_scan_spec(2) Let_def
        split: option.split)
qed


section \<open>What the sweep does not see\<close>

text \<open>
  A composition behind a label on the same line is no match for either pattern, and a
  hexadecimal shift amount is read as its leading zero.
\<close>

lemma labelled_composition_missed:
  "\<not> composes_wide ''1: orr x0, x1, x2, lsl #8''" "composes_wide ''    orr x0, x1, x2, lsl #8''"
  "line_shifts ''1: orr x0, x1, x2, lsl #8'' = []"
  "line_shifts ''    orr w0, w1, w2, lsl #0x18'' = [0]"
  by code_simp+

end
