(* ===== verification/Symbol_Directives.thy ===== *)
theory Symbol_Directives
  imports Asm_Parse "HOL-Library.Char_ord" "HOL-Library.List_Lexorder"
begin

text \<open>
  The annotation of global symbols with FUNC/ENDFUNC and OBJECT/ENDOBJ
  (scripts/add_symbol_directives.py): the extent of a symbol, the rewriting of one file, what an
  included file inherits, and the run over a tree. The files of the tree, in the order the script
  finds them, are an argument, and so are their paths relative to its root; symbolic links are
  left out. The theorems say that the extents are disjoint, that a closing directive is under
  the same conditionals as its opener, and what the rewriting keeps of a file.
\<close>

section \<open>Expressions\<close>

definition sym_head :: "char \<Rightarrow> bool" where
  "sym_head c \<longleftrightarrow> char_between CHR ''A'' CHR ''Z'' c \<or> char_between CHR ''a'' CHR ''z'' c \<or> c = CHR ''_''"

definition sym_chr :: "char \<Rightarrow> bool" where
  "sym_chr c \<longleftrightarrow> sym_head c \<or> char_between CHR ''0'' CHR ''9'' c \<or> c = CHR ''.''"

definition sym_rx :: rx where
  "sym_rx = Seq (Cls sym_head) (Star (Cls sym_chr))"

definition SYM_LABEL :: rx where
  "SYM_LABEL = seqs [Bos, Grp 1 sym_rx, chr CHR '':'', Grp 2 (Star any_chr), Eos]"

definition SYM_GLOBAL :: rx where
  "SYM_GLOBAL = seqs [Bos, Star ws, lit ''.global'', rep1 ws, Grp 1 sym_rx, Star ws,
     Opt (Seq (lit ''//'') (Star any_chr)), Eos]"

definition SECTION_RE :: rx where
  "SECTION_RE = seqs [Bos, Star ws, Grp 1 (alts [lit ''.text'', lit ''.data'', lit ''.bss'', lit ''rodata'',
     lit ''.section'']), WordB]"

definition ALIGN_RE :: rx where
  "ALIGN_RE = seqs [Bos, Star ws, chr CHR ''.'', Grp 1 (alts [lit ''align'', lit ''balign'', lit ''p2align'']), WordB]"

definition INCLUDE_RE :: rx where
  "INCLUDE_RE = seqs [Bos, Star ws, lit ''#include'', rep1 ws, chr CHR 0x22,
     Grp 1 (rep1 (Cls (\<lambda>c. c \<noteq> CHR 0x22))), chr CHR 0x22]"

definition CPP_IF_RE :: rx where
  "CPP_IF_RE = seqs [Bos, Star ws, chr CHR ''#'', Star ws,
     Grp 1 (alts [lit ''if'', lit ''ifdef'', lit ''ifndef'', lit ''elif'', lit ''else'', lit ''endif'']), WordB]"

definition MACRO_DEF_RE :: rx where
  "MACRO_DEF_RE = seqs [Bos, Star ws, Alt (lit ''OBJECT'') (lit ''FUNC''), rep1 ws, Grp 1 sym_rx, Star ws, Eos]"

definition DATA_SECTIONS :: "string list" where
  "DATA_SECTIONS = [''.data'', ''.bss'', ''rodata'']"

definition SKIP_FILES :: "string list" where
  "SKIP_FILES = [''src/defs.S'', ''src/config.S'', ''src/tls/record/_constants.S'', ''src/embedded.S'',
     ''src/tls/cert_data.S'']"

section \<open>Sections and conditionals of a file\<close>

definition code :: "string \<Rightarrow> string" where
  "code line = strip (cut_at ''//'' line)"

definition next_kind :: "string \<Rightarrow> bool \<Rightarrow> bool" where
  "next_kind line in_data = (case re_match SECTION_RE (code line) of
     None \<Rightarrow> in_data | Some m \<Rightarrow> group_str m 1 \<in> set DATA_SECTIONS)"

fun section_kinds :: "string list \<Rightarrow> bool \<Rightarrow> bool list" where
  "section_kinds [] in_data = []"
| "section_kinds (line # ls) in_data =
     (let d = next_kind line in_data in d # section_kinds ls d)"

text \<open>A region: the open conditionals, innermost first, each with the number of its branch.\<close>

type_synonym cond_region = "(nat \<times> nat) list"

definition cpp_line :: "string \<Rightarrow> cond_region \<times> nat \<Rightarrow> cond_region \<times> nat" where
  "cpp_line line = (\<lambda>(stack, seq).
     (case re_match CPP_IF_RE line of
        None \<Rightarrow> (stack, seq)
      | Some m \<Rightarrow>
          (let kw = group_str m 1 in
           if kw \<in> set [''if'', ''ifdef'', ''ifndef''] then ((seq + 1, 0) # stack, seq + 1)
           else if kw \<in> set [''elif'', ''else''] then
             (case stack of [] \<Rightarrow> (stack, seq) | (cid, branch) # st \<Rightarrow> ((cid, branch + 1) # st, seq))
           else (case stack of [] \<Rightarrow> (stack, seq) | x # st \<Rightarrow> (st, seq)))))"

fun regions_from :: "string list \<Rightarrow> cond_region \<times> nat \<Rightarrow> cond_region list" where
  "regions_from [] s = [fst s]"
| "regions_from (line # ls) s = fst s # regions_from ls (cpp_line line s)"

definition cond_regions :: "string list \<Rightarrow> cond_region list" where
  "cond_regions lines = regions_from lines ([], 0)"

section \<open>The extent of a symbol\<close>

definition label_of :: "string \<Rightarrow> (string \<times> string) option" where
  "label_of s = map_option (\<lambda>m. (group_str m 1, group_str m 2)) (re_match SYM_LABEL s)"

definition starts_new :: "string list \<Rightarrow> bool \<Rightarrow> string set \<Rightarrow> nat \<Rightarrow> bool" where
  "starts_new lines is_data globals j =
     (let stripped = code (lines ! j) in
      stripped \<noteq> [] \<and>
      (re_matches SECTION_RE stripped \<or> re_matches SYM_GLOBAL (lines ! j)
       \<or> re_matches MACRO_DEF_RE (lines ! j)
       \<or> (case label_of stripped of None \<Rightarrow> False | Some (name, rest) \<Rightarrow> is_data \<or> name \<in> globals)))"

definition next_start :: "string list \<Rightarrow> nat \<Rightarrow> bool \<Rightarrow> string set \<Rightarrow> nat" where
  "next_start lines start is_data globals =
     (case find (starts_new lines is_data globals) [start + 1..<length lines] of
        None \<Rightarrow> length lines | Some j \<Rightarrow> j)"

definition is_comment :: "string \<Rightarrow> bool" where
  "is_comment line \<longleftrightarrow> startswith (strip line) ''//''"

definition is_padding :: "string \<Rightarrow> bool" where
  "is_padding line \<longleftrightarrow> strip line = [] \<or> re_matches ALIGN_RE (code line)"

text \<open>\<open>trim_blanks\<close>, and the two other loops that move the end back towards \<open>start\<close>.\<close>

function trim_blanks :: "string list \<Rightarrow> nat \<Rightarrow> nat \<Rightarrow> nat" where
  "trim_blanks lines start k =
     (if k > start + 1 \<and> is_padding (lines ! (k - 1)) then trim_blanks lines start (k - 1) else k)"
  by pat_completeness auto
termination
  by (relation "measure (\<lambda>(lines, start, k). k)") auto

function back_to_region :: "cond_region list \<Rightarrow> nat \<Rightarrow> nat \<Rightarrow> nat" where
  "back_to_region enter start k =
     (if k > start + 1 \<and> enter ! k \<noteq> enter ! start then back_to_region enter start (k - 1) else k)"
  by pat_completeness auto
termination
  by (relation "measure (\<lambda>(enter, start, k). k)") auto

function comment_block :: "string list \<Rightarrow> nat \<Rightarrow> nat \<Rightarrow> nat" where
  "comment_block lines start k =
     (if k > start + 1 \<and> is_comment (lines ! (k - 1)) then comment_block lines start (k - 1) else k)"
  by pat_completeness auto
termination
  by (relation "measure (\<lambda>(lines, start, k). k)") auto

declare trim_blanks.simps [simp del] back_to_region.simps [simp del] comment_block.simps [simp del]

lemma trim_blanks_le: "trim_blanks lines start k \<le> k"
  by (induction lines start k rule: trim_blanks.induct) (subst trim_blanks.simps, force)

lemma comment_block_le: "comment_block lines start k \<le> k"
  by (induction lines start k rule: comment_block.induct) (subst comment_block.simps, force)

lemma comment_block_less:
  "k > start + 1 \<Longrightarrow> is_comment (lines ! (k - 1)) \<Longrightarrow> comment_block lines start k < k"
  using comment_block_le [of lines start "k - 1"] by (subst comment_block.simps) simp

function trim_comments :: "string list \<Rightarrow> nat \<Rightarrow> nat \<Rightarrow> nat" where
  "trim_comments lines start stop =
     (if stop > start + 1 \<and> is_comment (lines ! (stop - 1)) then
        (let block = comment_block lines start stop in
         if strip (lines ! (block - 1)) \<noteq> [] then stop
         else trim_comments lines start (trim_blanks lines start block))
      else stop)"
  by pat_completeness auto
termination
  by (relation "measure (\<lambda>(lines, start, stop). stop)")
    (auto intro: le_less_trans [OF trim_blanks_le comment_block_less])

declare trim_comments.simps [simp del]

definition body_end :: "string list \<Rightarrow> nat \<Rightarrow> bool \<Rightarrow> string set \<Rightarrow> cond_region list \<Rightarrow> nat" where
  "body_end lines start is_data globals enter =
     (let stop = next_start lines start is_data globals;
          stop = back_to_region enter start stop;
          stop = trim_blanks lines start stop
      in trim_comments lines start stop)"

section \<open>Rewriting a file\<close>

definition global_of :: "string \<Rightarrow> string option" where
  "global_of line = map_option (\<lambda>m. group_str m 1) (re_match SYM_GLOBAL line)"

definition file_globals :: "string list \<Rightarrow> string set" where
  "file_globals lines = set (List.map_filter global_of lines)"

definition indent_of :: "string \<Rightarrow> string" where
  "indent_of line = take (length line - length (lstrip_of py_space line)) line"

text \<open>The openers and closers by the line they stand at, and the names converted so far.\<close>

record plan =
  opens :: "(nat, string \<times> string \<times> string) dict"
  closes :: "(nat, string list) dict"
  converted :: "string list"

definition plan_line :: "string list \<Rightarrow> string set \<Rightarrow> bool list \<Rightarrow> cond_region list \<Rightarrow> nat \<Rightarrow> plan \<Rightarrow> plan" where
  "plan_line lines globals kinds enter i p =
     (case label_of (strip (lines ! i)) of
        None \<Rightarrow> p
      | Some (name, rest) \<Rightarrow>
          if name \<notin> globals \<or> name \<in> set (converted p) then p
          else
            (let is_data = kinds ! i;
                 e = body_end lines i is_data globals enter
             in if e \<le> i + 1 \<and> code rest = [] then p
                else p\<lparr>opens := opens p @ [(i, (if is_data then ''OBJECT'' else ''FUNC'', name, rest))],
                       closes := dict_append e (indent_of (lines ! i)
                         @ (if is_data then ''ENDOBJ'' else ''ENDFUNC'') @ '' '' @ name) (closes p),
                       converted := converted p @ [name]\<rparr>))"

definition plan_symbols :: "string list \<Rightarrow> string set \<Rightarrow> bool list \<Rightarrow> cond_region list \<Rightarrow> plan" where
  "plan_symbols lines globals kinds enter =
     fold (plan_line lines globals kinds enter) [0..<length lines] \<lparr>opens = [], closes = [], converted = []\<rparr>"

definition opener_lines :: "string \<Rightarrow> string \<times> string \<times> string \<Rightarrow> string list" where
  "opener_lines line = (\<lambda>(macro, name, rest).
     (let indent = indent_of line in
      (indent @ macro @ '' '' @ name)
      # (if strip rest \<noteq> [] then [replicate (length indent + length name + 1) CHR '' '' @ rest] else [])))"

definition emit_line :: "plan \<Rightarrow> string set \<Rightarrow> nat \<Rightarrow> string \<Rightarrow> string list" where
  "emit_line p strip_names i line =
     dict_getd (closes p) i [] @
     (case map_of (opens p) i of
        Some x \<Rightarrow> opener_lines line x
      | None \<Rightarrow>
          (case global_of line of
             Some g \<Rightarrow> if g \<in> strip_names then [] else [line]
           | None \<Rightarrow> [line]))"

definition emit :: "string list \<Rightarrow> plan \<Rightarrow> string set \<Rightarrow> string list" where
  "emit lines p strip_names =
     concat (map (\<lambda>(i, line). emit_line p strip_names i line) (enumerate 0 lines))
     @ dict_getd (closes p) (length lines) []"

definition process :: "string \<Rightarrow> string set \<Rightarrow> bool \<Rightarrow> string set \<Rightarrow> string \<times> string list" where
  "process txt extra_globals in_data also_strip =
     (let lines = split_chr CHR 0x0A txt;
          globals = file_globals lines \<union> extra_globals
      in if globals = {} then (txt, [])
         else
           (let p = plan_symbols lines globals (section_kinds lines in_data) (cond_regions lines)
            in if converted p = [] \<and> also_strip \<inter> globals = {} then (txt, [])
               else (join [CHR 0x0A] (emit lines p (set (converted p) \<union> also_strip)), sort (converted p))))"

section \<open>The run over a tree\<close>

text \<open>
  \<open>(path.parent / name).resolve()\<close> for a relative name: \<open>None\<close> for a path that leaves the root.
\<close>

definition path_step :: "string \<Rightarrow> string list option \<Rightarrow> string list option" where
  "path_step c ps = (case ps of None \<Rightarrow> None | Some ps \<Rightarrow>
     (if c = [] \<or> c = ''.'' then Some ps
      else if c = ''..'' then (if ps = [] then None else Some (butlast ps))
      else Some (ps @ [c])))"

definition resolve_include :: "string \<Rightarrow> string \<Rightarrow> string option" where
  "resolve_include path name = map_option (join ''/'')
     (fold path_step (split_chr CHR ''/'' name) (Some (butlast (split_chr CHR ''/'' path))))"

record include_info =
  extra :: "(string, string set) dict"
  inherited_kind :: "(string, bool) dict"
  pulls_in :: "(string, string set) dict"

definition dict_union :: "'k \<Rightarrow> 'v set \<Rightarrow> ('k, 'v set) dict \<Rightarrow> ('k, 'v set) dict" where
  "dict_union k vs d = dict_put k (dict_getd d k {} \<union> vs) d"

definition include_line :: "string set \<Rightarrow> string \<Rightarrow> string set \<Rightarrow> string \<times> bool \<Rightarrow> include_info \<Rightarrow> include_info" where
  "include_line owned path own = (\<lambda>(line, kind) ii.
     (case re_match INCLUDE_RE line of
        None \<Rightarrow> ii
      | Some m \<Rightarrow>
          (case resolve_include path (group_str m 1) of
             None \<Rightarrow> ii
           | Some target \<Rightarrow>
           if target \<notin> owned \<or> target = path then ii
           else ii\<lparr>pulls_in := dict_union path {target} (pulls_in ii),
                   extra := dict_union target own (extra ii),
                   inherited_kind := dict_put target kind (inherited_kind ii)\<rparr>)))"

definition include_file :: "string set \<Rightarrow> string \<times> string \<Rightarrow> include_info \<Rightarrow> include_info" where
  "include_file owned = (\<lambda>(path, txt) ii.
     (let lines = split_chr CHR 0x0A txt in
      fold (include_line owned path (file_globals lines)) (zip lines (section_kinds lines False)) ii))"

definition include_context :: "(string \<times> string) list \<Rightarrow> include_info" where
  "include_context files =
     fold (include_file (fst ` set files)) files \<lparr>extra = [], inherited_kind = [], pulls_in = []\<rparr>"

type_synonym annotated = "(string, string \<times> string list) dict"

definition annotate_included :: "include_info \<Rightarrow> string \<times> string \<Rightarrow> annotated \<Rightarrow> annotated" where
  "annotate_included ii = (\<lambda>(path, txt) results.
     (case map_of (extra ii) path of
        None \<Rightarrow> results
      | Some ex \<Rightarrow> dict_put path (process txt ex (dict_getd (inherited_kind ii) path False) {}) results))"

definition annotate_other :: "include_info \<Rightarrow> string \<times> string \<Rightarrow> annotated \<Rightarrow> annotated" where
  "annotate_other ii = (\<lambda>(path, txt) results.
     (case map_of results path of
        Some _ \<Rightarrow> results
      | None \<Rightarrow>
          (let stripped = (\<Union>t \<in> dict_getd (pulls_in ii) path {}.
                 (case map_of results t of None \<Rightarrow> {} | Some (_, names) \<Rightarrow> set names))
           in dict_put path (process txt {} False stripped) results)))"

definition annotate_tree :: "(string \<times> string) list \<Rightarrow> annotated" where
  "annotate_tree files =
     (let owned = filter (\<lambda>(path, txt). path \<notin> set SKIP_FILES) files;
          ii = include_context owned
      in fold (annotate_other ii) owned (fold (annotate_included ii) owned []))"

text \<open>The files \<open>main\<close> writes without \<open>--check\<close>.\<close>

definition written_files :: "(string \<times> string) list \<Rightarrow> (string \<times> string) list" where
  "written_files files = concat (map (\<lambda>(path, txt).
     (case map_of (annotate_tree files) path of
        None \<Rightarrow> [] | Some (new, names) \<Rightarrow> if new = txt then [] else [(path, new)])) files)"

section \<open>The label expression\<close>

text \<open>
  A starred character class takes any number of characters of the class, most of them first;
  followed by a character outside the class only the longest run is left.
\<close>

definition after_run :: "string \<Rightarrow> string \<Rightarrow> rx_caps \<Rightarrow> nat \<Rightarrow> rx_state" where
  "after_run c r g k = ((rev (take k r) @ c, drop k r), g)"

lemma star_iter_class:
  "length r \<le> n \<Longrightarrow> star_iter (rx_match (Cls p)) n ((c, r), g) =
     map (after_run c r g) (rev [0..<Suc (length (takeWhile p r))])"
proof (induction n arbitrary: c r)
  case 0
  then show ?case by (simp add: after_run_def)
next
  case (Suc n)
  show ?case
  proof (cases r)
    case (Cons x xs)
    have shift: "[0..<Suc (Suc m)] = 0 # map Suc [0..<Suc m]" for m
      by (subst upt_conv_Cons) (simp_all add: map_Suc_upt del: upt_Suc)
    have after: "after_run (x # c) xs g = after_run c (x # xs) g \<circ> Suc"
      by (auto simp: after_run_def fun_eq_iff)
    show ?thesis
    proof (cases "p x")
      case True
      then show ?thesis using Suc by (simp add: Cons shift after rev_map after_run_def [of _ _ _ 0] del: upt_Suc)
    next
      case False
      then show ?thesis by (simp add: Cons after_run_def)
    qed
  qed (simp add: after_run_def)
qed

lemma star_class:
  "rx_match (Star (Cls p)) ((c, r), g) = map (after_run c r g) (rev [0..<Suc (length (takeWhile p r))])"
  by (simp add: star_iter_class)

lemma run_then:
  assumes "\<And>x. p x \<Longrightarrow> \<not> q x" "\<And>st. fst (F st) = fst st"
  shows "concat (map (rx_match (Seq (Cls q) b)) (map (F \<circ> after_run c r g) (rev [0..<Suc (length (takeWhile p r))])))
    = rx_match (Seq (Cls q) b) (F ((rev (takeWhile p r) @ c, dropWhile p r), g))"
proof -
  let ?n = "length (takeWhile p r)"
  have "rx_match (Seq (Cls q) b) (F (after_run c r g k)) = []" if "k < ?n" for k
  proof -
    have "p (r ! k)" using that by (metis nth_mem set_takeWhileD takeWhile_nth)
    moreover have "drop k r = r ! k # drop (Suc k) r"
      using that length_takeWhile_le [of p r] by (simp add: Cons_nth_drop_Suc)
    moreover obtain g' where "F (after_run c r g k) = ((rev (take k r) @ c, drop k r), g')"
      using assms(2) [of "after_run c r g k"] by (cases "F (after_run c r g k)") (simp add: after_run_def)
    ultimately show ?thesis using assms(1) by simp
  qed
  then have "concat (map (rx_match (Seq (Cls q) b)) (map (F \<circ> after_run c r g) (rev [0..<?n]))) = []"
    by simp
  moreover have "after_run c r g ?n = ((rev (takeWhile p r) @ c, dropWhile p r), g)"
    by (simp add: after_run_def takeWhile_eq_take [symmetric] dropWhile_eq_drop [symmetric])
  ultimately show ?thesis by (simp del: rx_match.simps)
qed

lemma star_class_then:
  assumes "\<And>x. p x \<Longrightarrow> \<not> q x"
  shows "rx_match (Seq (Star (Cls p)) (Seq (Cls q) b)) ((c, r), g) =
    rx_match (Seq (Cls q) b) ((rev (takeWhile p r) @ c, dropWhile p r), g)"
  using run_then [of p q id b c r g, OF assms]
  unfolding rx_match.simps(3) [of "Star _"] star_class by (simp only: id_o id_apply)

lemma group_run_then:
  assumes "\<And>x. p x \<Longrightarrow> \<not> q x"
  shows "rx_match (Seq (Grp n (Seq (Cls h) (Star (Cls p)))) (Seq (Cls q) b)) ((c, r), g) =
    (case r of [] \<Rightarrow> [] | x # t \<Rightarrow> if h x then rx_match (Seq (Cls q) b)
        ((rev (takeWhile p t) @ x # c, dropWhile p t), (n, x # takeWhile p t) # g) else [])"
proof (cases r)
  case (Cons x t)
  let ?grp = "\<lambda>((c', r'), g'). ((c', r'), (n, take (length r - length r') r) # g') :: rx_state"
  show ?thesis
  proof (cases "h x")
    case True
    have run: "rx_match (Grp n (Seq (Cls h) (Star (Cls p)))) ((c, r), g) =
        map (?grp \<circ> after_run (x # c) t g) (rev [0..<Suc (length (takeWhile p t))])"
      unfolding rx_match.simps(7) rx_match.simps(3) using True by (simp add: Cons star_class del: upt_Suc rx_match.simps(5))
    have "take (length r - length (dropWhile p t)) r = x # takeWhile p t"
    proof -
      have "r = (x # takeWhile p t) @ dropWhile p t" by (simp add: Cons)
      moreover have "take (length (u @ v) - length v) (u @ v) = u" for u v :: string by simp
      ultimately show ?thesis by metis
    qed
    then show ?thesis
      unfolding rx_match.simps(3) [of "Grp _ _"] run
      using run_then [of p q ?grp b "x # c" t g] assms True by (simp add: Cons case_prod_unfold del: rx_match.simps upt_Suc)
  qed (simp add: Cons)
qed simp

lemma class_step:
  "rx_match (Seq (Cls q) b) ((c, []), g) = []"
  "rx_match (Seq (Cls q) b) ((c, x # xs), g) = (if q x then rx_match b ((x # c, xs), g) else [])"
  by simp_all

lemma star_any_eos:
  assumes "CHR 0x0A \<notin> set r"
  shows "rx_match (Seq (Grp n (Star any_chr)) Eos) ((c, r), g) = [((rev r @ c, []), (n, r) # g)]"
proof -
  let ?grp = "\<lambda>((c', r'), g'). ((c', r'), (n, take (length r - length r') r) # g') :: rx_state"
  have all: "takeWhile (\<lambda>x. x \<noteq> CHR 0x0A) r = r" using assms by (auto simp: takeWhile_eq_all_conv)
  have short: "rx_match Eos (?grp (after_run c r g k)) = []" if "k < length r" for k
  proof -
    have "drop k r \<noteq> []" "CHR 0x0A \<notin> set (drop k r)" using that assms by (auto dest: in_set_dropD)
    then show ?thesis by (auto simp: after_run_def)
  qed
  have "concat (map (rx_match Eos \<circ> ?grp \<circ> after_run c r g) (rev [0..<length r])) = []"
    using short by simp
  moreover have "rx_match (Grp n (Star any_chr)) ((c, r), g) = map (?grp \<circ> after_run c r g) (rev [0..<Suc (length r)])"
    unfolding rx_match.simps(7) any_chr_def star_class all by simp
  ultimately show ?thesis
    unfolding rx_match.simps(3) by (simp add: comp_assoc) (simp add: after_run_def)
qed

lemma sym_chr_colon: "sym_chr x \<Longrightarrow> x \<noteq> CHR '':''" "sym_chr x \<Longrightarrow> x \<noteq> CHR ''/''" "sym_chr x \<Longrightarrow> \<not> py_space x"
  by (auto simp: sym_chr_def sym_head_def char_between_def py_space_def)

text \<open>The label expression as a function of the line.\<close>

lemma label_of_eq:
  assumes "CHR 0x0A \<notin> set s"
  shows "label_of s = (case s of [] \<Rightarrow> None | h # t \<Rightarrow>
     if sym_head h then (case dropWhile sym_chr t of
         [] \<Rightarrow> None
       | d # r \<Rightarrow> if d = CHR '':'' then Some (h # takeWhile sym_chr t, r) else None)
     else None)"
proof (cases s)
  case (Cons h t)
  have colon: "sym_chr x \<Longrightarrow> \<not> x = CHR '':''" for x by (rule sym_chr_colon)
  note m = group_run_then [of sym_chr "\<lambda>x. x = CHR '':''" 1 sym_head "Seq (Grp 2 (Star any_chr)) Eos" "[]" s "[]", OF colon]
  have newline: "CHR 0x0A \<notin> set r" if "dropWhile sym_chr t = d # r" for d r
    using assms that by (metis Cons list.set_intros(2) set_dropWhileD)
  have "label_of s = (case (if sym_head h then rx_match (Seq (Cls (\<lambda>x. x = CHR '':'')) (Seq (Grp 2 (Star any_chr)) Eos))
        ((rev (takeWhile sym_chr t) @ [h], dropWhile sym_chr t), [(1, h # takeWhile sym_chr t)]) else [])
      of [] \<Rightarrow> None | (q, m) # _ \<Rightarrow> Some (group_str m 1, group_str m 2))"
    unfolding label_of_def re_match_def re_match_at_def SYM_LABEL_def sym_rx_def seqs.simps chr_def
      rx_match.simps(3) [of Bos] using m by (simp add: Cons del: rx_match.simps(3) split: list.split)
  also have "\<dots> = (if sym_head h then (case dropWhile sym_chr t of
         [] \<Rightarrow> None
       | d # r \<Rightarrow> if d = CHR '':'' then Some (h # takeWhile sym_chr t, r) else None)
     else None)"
  proof (cases "dropWhile sym_chr t")
    case Nil
    show ?thesis by (simp only: Nil class_step list.case if_cancel)
  next
    case (Cons d r)
    show ?thesis unfolding Cons class_step
      using newline [OF Cons] by (simp add: star_any_eos group_str_def del: rx_match.simps)
  qed
  finally show ?thesis by (simp add: Cons)
qed (simp add: label_of_def re_match_def re_match_at_def SYM_LABEL_def sym_rx_def)

section \<open>Lines that open nothing\<close>

lemma strip_lead:
  assumes "dropWhile py_space s = x # xs"
  shows "\<exists>ys. strip s = x # ys"
proof -
  have "\<not> py_space x" using assms by (metis hd_dropWhile list.discI list.sel(1))
  then have "rev (dropWhile py_space (rev xs @ [x])) = x # rev (dropWhile py_space (rev xs))"
    by (auto simp: dropWhile_append)
  then show ?thesis by (simp add: assms strip_def lstrip_of_def rstrip_of_def)
qed

lemma strip_empty: "dropWhile py_space s = [] \<Longrightarrow> strip s = []"
  unfolding strip_def lstrip_of_def rstrip_of_def by (simp only: rev.simps dropWhile.simps)

lemma strip_hd: "strip s = x # ys \<Longrightarrow> \<exists>xs. dropWhile py_space s = x # xs"
  using strip_lead [of s] strip_empty [of s] by (cases "dropWhile py_space s") auto

lemma lead_class:
  assumes "re_match (Seq Bos (Seq (Star ws) (Seq (Cls q) b))) s = Some m" "\<And>x. py_space x \<Longrightarrow> \<not> q x"
  shows "\<exists>x ys. strip s = x # ys \<and> q x"
proof -
  have "rx_match (Seq (Cls q) b) ((rev (takeWhile py_space s), dropWhile py_space s), []) \<noteq> []"
    using assms(1) star_class_then [of py_space q b "[]" s "[]", OF assms(2)]
    by (auto simp: re_match_def re_match_at_def ws_def rx_match.simps(3) [of Bos] simp del: rx_match.simps(3)
        split: list.splits)
  then obtain x xs where "dropWhile py_space s = x # xs" "q x"
    by (cases "dropWhile py_space s") (auto simp: class_step simp del: rx_match.simps split: if_splits)
  then show ?thesis using strip_lead by blast
qed

lemma cpp_first:
  assumes "re_match CPP_IF_RE line = Some m"
  shows "\<exists>ys. strip line = CHR ''#'' # ys"
  using lead_class [of "\<lambda>x. x = CHR ''#''"] assms
  unfolding CPP_IF_RE_def seqs.simps chr_def by (fastforce simp: py_space_def)

lemma align_first:
  assumes "re_matches ALIGN_RE s"
  shows "\<exists>ys. strip s = CHR ''.'' # ys"
  using lead_class [of "\<lambda>x. x = CHR ''.''"] assms
  unfolding ALIGN_RE_def seqs.simps chr_def re_matches_def by (fastforce simp: py_space_def)

lemma cut_at_skip: "CHR ''/'' \<notin> set u \<Longrightarrow> cut_at ''//'' (u @ v) = u @ cut_at ''//'' v"
proof (induction u)
  case (Cons x u)
  then show ?case by (auto simp: cut_at_def split: option.splits)
qed simp

text \<open>A comment does not change which label a line carries.\<close>

lemma strip_split: "\<exists>a z. s = a @ strip s @ z \<and> (\<forall>x \<in> set a. py_space x)"
proof -
  let ?l = "dropWhile py_space s"
  have "s = takeWhile py_space s @ ?l" by simp
  moreover have "?l = strip s @ rev (takeWhile py_space (rev ?l))"
    unfolding strip_def lstrip_of_def rstrip_of_def
    by (metis rev_append rev_rev_ident takeWhile_dropWhile_id)
  moreover have "\<forall>x \<in> set (takeWhile py_space s). py_space x" by (auto dest: set_takeWhileD)
  ultimately show ?thesis by metis
qed

lemma strip_keep:
  assumes "\<forall>x \<in> set a. py_space x" "\<not> py_space h" "\<not> py_space y"
  shows "\<exists>z'. strip (a @ h # u @ y # z) = h # u @ y # z'"
proof -
  have "dropWhile py_space (a @ h # u @ y # z) = h # u @ y # z"
    using assms(1,2) by (simp add: dropWhile_append)
  moreover have "rev (dropWhile py_space (rev (h # u @ y # z))) = h # u @ y # rev (dropWhile py_space (rev z))"
    using assms(3) by (auto simp: dropWhile_append)
  ultimately show ?thesis by (simp add: strip_def lstrip_of_def rstrip_of_def)
qed

lemma label_of_shape:
  assumes "CHR 0x0A \<notin> set s"
  shows "label_of s = Some (name, rest) \<longleftrightarrow>
    (\<exists>h u. s = h # u @ CHR '':'' # rest \<and> name = h # u \<and> sym_head h \<and> (\<forall>x \<in> set u. sym_chr x))"
    (is "?l \<longleftrightarrow> ?r")
proof
  assume ?l
  then obtain h t where "s = h # t" "sym_head h" "dropWhile sym_chr t = CHR '':'' # rest"
    "name = h # takeWhile sym_chr t"
    unfolding label_of_eq [OF assms] by (auto split: list.splits if_splits)
  moreover from this have "t = takeWhile sym_chr t @ CHR '':'' # rest" by (metis takeWhile_dropWhile_id)
  ultimately show ?r by (metis set_takeWhileD)
next
  assume ?r
  then obtain h u where s: "s = h # u @ CHR '':'' # rest" "name = h # u" "sym_head h" "\<forall>x \<in> set u. sym_chr x"
    by blast
  moreover have "\<not> sym_chr CHR '':''" using sym_chr_colon(1) by blast
  ultimately have "dropWhile sym_chr (u @ CHR '':'' # rest) = CHR '':'' # rest"
    "takeWhile sym_chr (u @ CHR '':'' # rest) = u"
    by (simp_all add: dropWhile_append takeWhile_append)
  then show ?l unfolding label_of_eq [OF assms] using s by simp
qed

lemma code_label:
  assumes "label_of (strip line) = Some (name, rest)" "CHR 0x0A \<notin> set line"
  shows "\<exists>rest'. label_of (code line) = Some (name, rest')"
proof -
  have nl: "CHR 0x0A \<notin> set (strip line)" "CHR 0x0A \<notin> set (code line)"
    using assms(2) set_strip_subset [of line] set_strip_subset [of "cut_at ''//'' line"]
      set_mono_prefix [OF cut_at_prefix, of "''//''" line] by (auto simp: code_def)
  obtain h u where lab: "strip line = h # u @ CHR '':'' # rest" "name = h # u" "sym_head h" "\<forall>x \<in> set u. sym_chr x"
    using assms(1) label_of_shape [OF nl(1)] by blast
  obtain a z where "line = a @ strip line @ z" and a: "\<forall>x \<in> set a. py_space x"
    using strip_split by blast
  then have line: "line = (a @ h # u @ [CHR '':'']) @ rest @ z" using lab(1) by simp
  have "\<not> py_space CHR ''/''" by (simp add: py_space_def)
  then have "CHR ''/'' \<notin> set a" using a by blast
  moreover have "CHR ''/'' \<noteq> h" "CHR ''/'' \<notin> set u"
    using lab(3,4) sym_chr_colon(2) [of "CHR ''/''"] unfolding sym_chr_def by blast+
  ultimately have "CHR ''/'' \<notin> set (a @ h # u @ [CHR '':''])" by simp
  then have "cut_at ''//'' line = (a @ h # u @ [CHR '':'']) @ cut_at ''//'' (rest @ z)"
    unfolding line by (rule cut_at_skip)
  then have "cut_at ''//'' line = a @ h # u @ CHR '':'' # cut_at ''//'' (rest @ z)" by simp
  moreover have "\<not> py_space h" using lab(3) sym_chr_colon(3) sym_chr_def by blast
  moreover have "\<not> py_space CHR '':''" by (simp add: py_space_def)
  ultimately obtain z' where "code line = h # u @ CHR '':'' # z'"
    unfolding code_def using strip_keep [OF a] by metis
  then have "label_of (code line) = Some (name, z')"
    using lab label_of_shape [OF nl(2)] by blast
  then show ?thesis by blast
qed

section \<open>Regions\<close>

lemma length_regions_from [simp]: "length (regions_from lines s) = Suc (length lines)"
  by (induction lines s rule: regions_from.induct) simp_all

lemma regions_step:
  "k < length lines \<Longrightarrow> re_match CPP_IF_RE (lines ! k) = None \<Longrightarrow>
   regions_from lines s ! Suc k = regions_from lines s ! k"
proof (induction lines s arbitrary: k rule: regions_from.induct)
  case (2 line ls s)
  have "regions_from ls t ! 0 = fst t" for t by (cases ls) simp_all
  then show ?case using 2 by (cases k) (auto simp: cpp_line_def split: prod.splits)
qed simp

lemma cond_regions_step:
  "0 < k \<Longrightarrow> k \<le> length lines \<Longrightarrow> re_match CPP_IF_RE (lines ! (k - 1)) = None \<Longrightarrow>
   cond_regions lines ! (k - 1) = cond_regions lines ! k"
  using regions_step [of "k - 1" lines "([], 0)"] by (simp add: cond_regions_def)

lemma first_not_cpp: "strip line = [] \<or> (\<exists>x ys. strip line = x # ys \<and> x \<noteq> CHR ''#'') \<Longrightarrow> re_match CPP_IF_RE line = None"
  using cpp_first [of line] by (cases "re_match CPP_IF_RE line") auto

lemma label_not_cpp: "label_of (strip line) = Some (name, rest) \<Longrightarrow> CHR 0x0A \<notin> set line \<Longrightarrow> re_match CPP_IF_RE line = None"
proof -
  assume "label_of (strip line) = Some (name, rest)" "CHR 0x0A \<notin> set line"
  then obtain h ys where "strip line = h # ys" "sym_head h"
    using label_of_shape [of "strip line" name rest] set_strip_subset [of line] by blast
  moreover have "\<not> sym_head CHR ''#''" by (simp add: sym_head_def char_between_def)
  ultimately show ?thesis by (intro first_not_cpp) blast
qed

lemma padding_not_cpp: "is_padding line \<Longrightarrow> re_match CPP_IF_RE line = None"
proof -
  assume "is_padding line"
  then consider "strip line = []" | ys where "code line = CHR ''.'' # ys"
    using align_first [of "code line"] by (auto simp: is_padding_def code_def)
  then show ?thesis
  proof cases
    case 2
    then obtain xs where "dropWhile py_space (cut_at ''//'' line) = CHR ''.'' # xs"
      using strip_hd unfolding code_def by blast
    moreover obtain w where "line = cut_at ''//'' line @ w" using cut_at_prefix prefixE by metis
    moreover have "dropWhile py_space (u @ v) = dropWhile py_space u @ v"
      if "dropWhile py_space u = x # xs" for u v x
      using that by (auto simp: dropWhile_append simp flip: dropWhile_eq_Nil_conv)
    ultimately have "dropWhile py_space line = CHR ''.'' # xs @ w" by (metis append_Cons)
    then show ?thesis using strip_lead by (intro first_not_cpp) blast
  qed (simp add: first_not_cpp)
qed

lemma comment_not_cpp: "is_comment line \<Longrightarrow> re_match CPP_IF_RE line = None"
  by (rule first_not_cpp) (auto simp: is_comment_def startswith_def prefix_def)

text \<open>Moving an end back, inside the extent and inside its region.\<close>

definition moved_back :: "string list \<Rightarrow> nat \<Rightarrow> nat \<Rightarrow> nat \<Rightarrow> bool" where
  "moved_back lines start k r \<longleftrightarrow> start < r \<and> r \<le> k \<and> cond_regions lines ! r = cond_regions lines ! k"

lemma moved_back_refl [simp]: "moved_back lines start k k \<longleftrightarrow> start < k"
  by (simp add: moved_back_def)

lemma moved_back_trans: "moved_back lines start k r \<Longrightarrow> moved_back lines start r t \<Longrightarrow> moved_back lines start k t"
  by (simp add: moved_back_def)

lemma moved_back_step:
  "start + 1 < k \<Longrightarrow> k \<le> length lines \<Longrightarrow> re_match CPP_IF_RE (lines ! (k - 1)) = None \<Longrightarrow> moved_back lines start k (k - 1)"
  using cond_regions_step [of k lines] by (auto simp: moved_back_def)

lemma trim_blanks_moved:
  "start < k \<Longrightarrow> k \<le> length lines \<Longrightarrow> moved_back lines start k (trim_blanks lines start k)"
proof (induction lines start k rule: trim_blanks.induct)
  case (1 lines start k)
  show ?case
  proof (cases "k > start + 1 \<and> is_padding (lines ! (k - 1))")
    case True
    then have "moved_back lines start k (k - 1)"
      using moved_back_step padding_not_cpp 1(3) by blast
    moreover have "moved_back lines start (k - 1) (trim_blanks lines start (k - 1))"
      using 1(1) [OF True] 1(3) True by fastforce
    ultimately show ?thesis
      using True by (subst trim_blanks.simps) (simp add: moved_back_trans)
  qed (use 1 in \<open>subst trim_blanks.simps, auto\<close>)
qed

lemma comment_block_moved:
  "start < k \<Longrightarrow> k \<le> length lines \<Longrightarrow> moved_back lines start k (comment_block lines start k)"
proof (induction lines start k rule: comment_block.induct)
  case (1 lines start k)
  show ?case
  proof (cases "k > start + 1 \<and> is_comment (lines ! (k - 1))")
    case True
    then have "moved_back lines start k (k - 1)"
      using moved_back_step comment_not_cpp 1(3) by blast
    moreover have "moved_back lines start (k - 1) (comment_block lines start (k - 1))"
      using 1(1) [OF True] 1(3) True by fastforce
    ultimately show ?thesis
      using True by (subst comment_block.simps) (simp add: moved_back_trans)
  qed (use 1 in \<open>subst comment_block.simps, auto\<close>)
qed

lemma trim_comments_moved:
  "start < k \<Longrightarrow> k \<le> length lines \<Longrightarrow> moved_back lines start k (trim_comments lines start k)"
proof (induction lines start k rule: trim_comments.induct)
  case (1 lines start k)
  let ?b = "comment_block lines start k"
  let ?t = "trim_blanks lines start ?b"
  show ?case
  proof (cases "k > start + 1 \<and> is_comment (lines ! (k - 1)) \<and> strip (lines ! (?b - 1)) = []")
    case True
    have b: "moved_back lines start k ?b" using comment_block_moved 1(2,3) by blast
    then have t: "moved_back lines start ?b ?t"
      using trim_blanks_moved 1(3) by (auto simp: moved_back_def)
    then have "moved_back lines start ?t (trim_comments lines start ?t)"
      using 1 True b by (auto simp: moved_back_def)
    then have "moved_back lines start k (trim_comments lines start ?t)"
      using b t moved_back_trans by blast
    then show ?thesis using True by (subst trim_comments.simps) (simp add: Let_def)
  qed (use 1 in \<open>subst trim_comments.simps, auto simp: Let_def\<close>)
qed

lemma back_to_region_moved:
  assumes "start < k" "enter ! (start + 1) = enter ! start"
  shows "start < back_to_region enter start k \<and> back_to_region enter start k \<le> k
    \<and> enter ! back_to_region enter start k = enter ! start"
  using assms
proof (induction enter start k rule: back_to_region.induct)
  case (1 enter start k)
  show ?case
  proof (cases "k > start + 1 \<and> enter ! k \<noteq> enter ! start")
    case True
    then show ?thesis using 1 by (subst (1 2 3) back_to_region.simps) fastforce
  next
    case False
    then have "k = start + 1 \<or> enter ! k = enter ! start" using 1(2) by linarith
    then show ?thesis using 1 False by (subst (1 2 3) back_to_region.simps) auto
  qed
qed

section \<open>Extents\<close>

lemma find_upt_least:
  assumes "find P [m..<n] = Some i"
  shows "m \<le> i \<and> i < n \<and> (\<forall>j. m \<le> j \<longrightarrow> j < i \<longrightarrow> \<not> P j)"
proof -
  obtain k where k: "k < n - m" "i = m + k" "\<forall>j < k. \<not> P ([m..<n] ! j)"
    using assms by (auto simp: find_Some_iff)
  then have "\<not> P j" if "m \<le> j" "j < i" for j
    using k(3) [rule_format, of "j - m"] that by simp
  then show ?thesis using k by auto
qed

lemma next_start_bounds:
  assumes "start < length lines"
  shows "start < next_start lines start d gs \<and> next_start lines start d gs \<le> length lines"
  using assms by (auto simp: next_start_def dest: find_upt_least split: option.split)

lemma next_start_le:
  assumes "start < j" "j < length lines" "starts_new lines d gs j"
  shows "next_start lines start d gs \<le> j"
proof (cases "find (starts_new lines d gs) [start + 1..<length lines]")
  case None
  then show ?thesis using assms by (auto simp: find_None_iff)
next
  case (Some i)
  then have "\<not> j < i" using assms find_upt_least [OF Some] by auto
  then show ?thesis by (simp add: next_start_def Some [simplified])
qed

lemma body_end_bounds:
  assumes "start < length lines" "re_match CPP_IF_RE (lines ! start) = None"
  shows "start < body_end lines start d gs (cond_regions lines)
    \<and> body_end lines start d gs (cond_regions lines) \<le> next_start lines start d gs
    \<and> cond_regions lines ! body_end lines start d gs (cond_regions lines) = cond_regions lines ! start"
proof -
  let ?enter = "cond_regions lines"
  let ?n = "next_start lines start d gs"
  let ?r = "back_to_region ?enter start ?n"
  let ?t = "trim_blanks lines start ?r"
  have n: "start < ?n" "?n \<le> length lines" using next_start_bounds assms(1) by blast+
  have "?enter ! (start + 1) = ?enter ! start"
    using cond_regions_step [of "start + 1" lines] assms by simp
  then have r: "start < ?r" "?r \<le> ?n" "?enter ! ?r = ?enter ! start"
    using back_to_region_moved [OF n(1)] by blast+
  then have t: "moved_back lines start ?r ?t"
    using trim_blanks_moved n(2) by (metis le_trans)
  then have "moved_back lines start ?t (trim_comments lines start ?t)"
    using trim_comments_moved r(2) n(2) unfolding moved_back_def by (meson le_trans)
  then have "moved_back lines start ?r (trim_comments lines start ?t)"
    using t moved_back_trans by blast
  then show ?thesis using r by (auto simp: moved_back_def body_end_def Let_def)
qed

text \<open>The extent of a planned symbol.\<close>

definition extent_end :: "string list \<Rightarrow> string set \<Rightarrow> bool list \<Rightarrow> nat \<Rightarrow> nat" where
  "extent_end lines gs kinds i = body_end lines i (kinds ! i) gs (cond_regions lines)"

definition closer_of :: "string list \<Rightarrow> bool list \<Rightarrow> nat \<Rightarrow> string \<Rightarrow> string" where
  "closer_of lines kinds i name =
     indent_of (lines ! i) @ (if kinds ! i then ''ENDOBJ'' else ''ENDFUNC'') @ '' '' @ name"

text \<open>
  What a correct plan is: every opener stands at the label of a global symbol, its closer is
  planned at the end of the extent, which is under the same conditionals, and no extent reaches
  into the next one; each symbol is opened once.
\<close>

definition opener_ok :: "string list \<Rightarrow> string set \<Rightarrow> bool list \<Rightarrow> plan \<Rightarrow> nat \<times> string \<times> string \<times> string \<Rightarrow> bool" where
  "opener_ok lines gs kinds p = (\<lambda>(i, macro, name, rest).
     (let e = extent_end lines gs kinds i in
      i < length lines \<and> label_of (strip (lines ! i)) = Some (name, rest) \<and> name \<in> gs
      \<and> macro = (if kinds ! i then ''OBJECT'' else ''FUNC'')
      \<and> i < e \<and> e \<le> length lines \<and> cond_regions lines ! e = cond_regions lines ! i
      \<and> closer_of lines kinds i name \<in> set (dict_getd (closes p) e [])))"

definition plan_ok :: "string list \<Rightarrow> string set \<Rightarrow> bool list \<Rightarrow> plan \<Rightarrow> bool" where
  "plan_ok lines gs kinds p \<longleftrightarrow>
     (\<forall>x \<in> set (opens p). opener_ok lines gs kinds p x)
   \<and> sorted_wrt (\<lambda>(i, _) (j, _). extent_end lines gs kinds i \<le> j) (opens p)
   \<and> map (\<lambda>(i, macro, name, rest). name) (opens p) = converted p \<and> distinct (converted p)"

lemma in_dict_append:
  "v' \<in> set (dict_getd d k' []) \<Longrightarrow> v' \<in> set (dict_getd (dict_append k v d) k' [])"
  "v \<in> set (dict_getd (dict_append k v d) k [])"
  by (auto simp: dict_getd_def map_of_dict_append split: option.splits)

lemma opener_ok_mono:
  assumes "opener_ok lines gs kinds p x" "closes q = dict_append e v (closes p)"
  shows "opener_ok lines gs kinds q x"
  using assms(1) in_dict_append(1) by (cases x) (auto simp: opener_ok_def assms(2) Let_def)

lemma label_starts_new:
  assumes "label_of (strip (lines ! j)) = Some (name, rest)" "name \<in> gs" "CHR 0x0A \<notin> set (lines ! j)"
  shows "starts_new lines d gs j"
proof -
  obtain rest' where "label_of (code (lines ! j)) = Some (name, rest')" using code_label assms(1,3) by blast
  moreover from this have "code (lines ! j) \<noteq> []"
    by (auto simp: label_of_def re_match_def re_match_at_def SYM_LABEL_def sym_rx_def)
  ultimately show ?thesis using assms(2) by (simp add: starts_new_def Let_def)
qed

lemma plan_line_ok:
  assumes "plan_ok lines gs kinds p" "\<forall>x \<in> set (opens p). fst x < i" "i < length lines"
    "\<forall>l \<in> set lines. CHR 0x0A \<notin> set l"
  shows "plan_ok lines gs kinds (plan_line lines gs kinds (cond_regions lines) i p)
    \<and> (\<forall>x \<in> set (opens (plan_line lines gs kinds (cond_regions lines) i p)). fst x < Suc i)"
proof (cases "\<exists>name rest. label_of (strip (lines ! i)) = Some (name, rest) \<and> name \<in> gs
    \<and> name \<notin> set (converted p)
    \<and> \<not> (body_end lines i (kinds ! i) gs (cond_regions lines) \<le> i + 1 \<and> code rest = [])")
  case False
  then have "plan_line lines gs kinds (cond_regions lines) i p = p"
    by (auto simp: plan_line_def Let_def split: option.split)
  then show ?thesis using assms(1,2) by auto
next
  case True
  then obtain name rest where lab: "label_of (strip (lines ! i)) = Some (name, rest)" "name \<in> gs"
      "name \<notin> set (converted p)"
      "\<not> (body_end lines i (kinds ! i) gs (cond_regions lines) \<le> i + 1 \<and> code rest = [])" by blast
  define new where "new = (i, (if kinds ! i then ''OBJECT'' else ''FUNC''), name, rest)"
  define p' where "p' = plan_line lines gs kinds (cond_regions lines) i p"
  have cond: "\<not> (name \<notin> gs \<or> name \<in> set (converted p))" using lab(2,3) by simp
  have "p' = p\<lparr>opens := opens p @ [new],
      closes := dict_append (extent_end lines gs kinds i) (closer_of lines kinds i name) (closes p),
      converted := converted p @ [name]\<rparr>"
    unfolding p'_def plan_line_def lab(1) option.case prod.case Let_def if_not_P [OF cond] if_not_P [OF lab(4)]
      closer_of_def extent_end_def new_def by (rule refl)
  then have p': "opens p' = opens p @ [new]" "converted p' = converted p @ [name]"
    "closes p' = dict_append (extent_end lines gs kinds i) (closer_of lines kinds i name) (closes p)"
    by simp_all
  have nl: "CHR 0x0A \<notin> set (lines ! i)" using assms(3,4) by simp
  have "opener_ok lines gs kinds p' new"
    using body_end_bounds [OF assms(3) label_not_cpp [OF lab(1) nl], of "kinds ! i" gs]
      next_start_bounds [OF assms(3), of "kinds ! i" gs] lab(1,2) assms(3) in_dict_append(2)
    by (auto simp: opener_ok_def new_def p' extent_end_def Let_def)
  moreover have "\<forall>x \<in> set (opens p). opener_ok lines gs kinds p' x"
    using assms(1) opener_ok_mono [OF _ p'(3)] by (auto simp: plan_ok_def)
  moreover have "extent_end lines gs kinds j \<le> i" if "(j, r) \<in> set (opens p)" for j r
  proof -
    have j: "opener_ok lines gs kinds p (j, r)" "j < i" using that assms(1,2) by (auto simp: plan_ok_def)
    then obtain nm rs where "label_of (strip (lines ! j)) = Some (nm, rs)" "j < length lines"
      by (cases r) (auto simp: opener_ok_def Let_def)
    then show ?thesis
      using body_end_bounds [OF _ label_not_cpp, of j lines] next_start_le [OF j(2) assms(3) label_starts_new [OF lab(1,2) nl]]
        assms(4) le_trans unfolding extent_end_def by (metis nth_mem)
  qed
  ultimately have "plan_ok lines gs kinds p'"
    using assms(1) lab(3) by (auto simp: plan_ok_def p' new_def sorted_wrt_append)
  moreover have "\<forall>x \<in> set (opens p'). fst x < Suc i" using assms(2) by (auto simp: p' new_def)
  ultimately show ?thesis by (simp add: p'_def)
qed

lemma plan_symbols_ok:
  "plan_ok (split_chr CHR 0x0A txt) gs kinds
     (plan_symbols (split_chr CHR 0x0A txt) gs kinds (cond_regions (split_chr CHR 0x0A txt)))"
proof -
  let ?lines = "split_chr CHR 0x0A txt"
  let ?start = "\<lparr>opens = [], closes = [], converted = []\<rparr>"
  have nl: "\<forall>l \<in> set ?lines. CHR 0x0A \<notin> set l" by (induction "CHR 0x0A" "txt" rule: split_chr.induct) (auto split: list.split)
  have "plan_ok ?lines gs kinds (fold (plan_line ?lines gs kinds (cond_regions ?lines)) [0..<n] ?start)
      \<and> (\<forall>x \<in> set (opens (fold (plan_line ?lines gs kinds (cond_regions ?lines)) [0..<n] ?start)). fst x < n)"
    if "n \<le> length ?lines" for n
    using that
  proof (induction n)
    case 0
    then show ?case by (simp add: plan_ok_def)
  next
    case (Suc n)
    let ?p = "fold (plan_line ?lines gs kinds (cond_regions ?lines)) [0..<n] ?start"
    have "fold (plan_line ?lines gs kinds (cond_regions ?lines)) [0..<Suc n] ?start
        = plan_line ?lines gs kinds (cond_regions ?lines) n ?p" by simp
    moreover have "plan_ok ?lines gs kinds ?p" "\<forall>x \<in> set (opens ?p). fst x < n" "n < length ?lines"
      using Suc by simp_all
    ultimately show ?case using plan_line_ok [OF _ _ _ nl] by metis
  qed
  then show ?thesis by (simp add: plan_symbols_def)
qed

section \<open>What the rewriting keeps\<close>

text \<open>The lines that are neither the label of a converted symbol nor a .global taken over by a macro.\<close>

definition is_kept :: "plan \<Rightarrow> string set \<Rightarrow> nat \<times> string \<Rightarrow> bool" where
  "is_kept p strip_names = (\<lambda>(i, line). map_of (opens p) i = None
     \<and> (case global_of line of None \<Rightarrow> True | Some g \<Rightarrow> g \<notin> strip_names))"

definition kept_lines :: "string list \<Rightarrow> plan \<Rightarrow> string set \<Rightarrow> string list" where
  "kept_lines lines p strip_names = map snd (filter (is_kept p strip_names) (enumerate 0 lines))"

lemma emit_keeps: "subseq (kept_lines lines p strip_names) (emit lines p strip_names)"
proof -
  have one: "subseq (if is_kept p strip_names (i, line) then [line] else []) (emit_line p strip_names i line)" for i line
    by (auto simp: is_kept_def emit_line_def split: option.splits)
  have "subseq (map snd (filter (is_kept p strip_names) xs)) (concat (map (\<lambda>(i, line). emit_line p strip_names i line) xs))" for xs
  proof (induction xs)
    case (Cons x xs)
    obtain i line where x: "x = (i, line)" by fastforce
    show ?case using list_emb_append_mono [OF one [of i line] Cons.IH] by (simp add: x split: if_splits)
  qed simp
  from this [of "enumerate 0 lines"] show ?thesis
    unfolding kept_lines_def emit_def by (metis append_Nil2 list_emb_Nil list_emb_append_mono)
qed

definition process_ok :: "string \<Rightarrow> string set \<Rightarrow> bool \<Rightarrow> string set \<Rightarrow> string \<times> string list \<Rightarrow> bool" where
  "process_ok txt extra_globals in_data also_strip = (\<lambda>(out, names).
     (let lines = split_chr CHR 0x0A txt; gs = file_globals lines \<union> extra_globals;
          kinds = section_kinds lines in_data in
      out = txt \<and> names = []
      \<or> (\<exists>p. plan_ok lines gs kinds p \<and> names = sort (converted p)
           \<and> out = join [CHR 0x0A] (emit lines p (set names \<union> also_strip))
           \<and> subseq (kept_lines lines p (set names \<union> also_strip)) (emit lines p (set names \<union> also_strip)))))"

text \<open>
  C22. A rewritten file follows a plan in which the extents of the converted symbols are disjoint,
  each ends inside the file and under the same conditionals as its label, its closing directive
  is placed there and each symbol is converted once; and it keeps, in order, every line other
  than the labels of converted symbols and the .global lines a macro has taken over.
\<close>

theorem process_correct: "process_ok txt extra_globals in_data also_strip (process txt extra_globals in_data also_strip)"
proof -
  let ?lines = "split_chr CHR 0x0A txt"
  let ?gs = "file_globals ?lines \<union> extra_globals"
  define p where "p = plan_symbols ?lines ?gs (section_kinds ?lines in_data) (cond_regions ?lines)"
  define out where "out = emit ?lines p (set (converted p) \<union> also_strip)"
  have "plan_ok ?lines ?gs (section_kinds ?lines in_data) p"
    unfolding p_def by (rule plan_symbols_ok)
  moreover have "subseq (kept_lines ?lines p (set (converted p) \<union> also_strip)) out"
    unfolding out_def by (rule emit_keeps)
  moreover have "process txt extra_globals in_data also_strip = (txt, [])
      \<or> process txt extra_globals in_data also_strip = (join [CHR 0x0A] out, sort (converted p))"
    unfolding process_def Let_def p_def [symmetric] out_def [symmetric] by presburger
  moreover have "set (sort (converted p)) = set (converted p)" by simp
  ultimately show ?thesis unfolding process_ok_def Let_def out_def by auto
qed

section \<open>A second run\<close>

text \<open>
  Running the script again is meant to change nothing. A label whose body is empty because a
  .global line follows it is left alone; that line goes when its symbol is converted, and
  the next run takes the instructions after it for the body of the label.
\<close>

definition twice_text :: string where
  "twice_text = join [CHR 0x0A] [''.global a'', ''a:'', ''.global b'', '' nop'', ''b:'', '' ret'']"

lemma second_run_differs:
  "process twice_text {} False {} =
     (join [CHR 0x0A] [''.global a'', ''a:'', '' nop'', ''FUNC b'', '' ret'', ''ENDFUNC b''], [''b''])"
  "process (join [CHR 0x0A] [''.global a'', ''a:'', '' nop'', ''FUNC b'', '' ret'', ''ENDFUNC b'']) {} False {} =
     (join [CHR 0x0A] [''FUNC a'', '' nop'', ''ENDFUNC a'', ''FUNC b'', '' ret'', ''ENDFUNC b''], [''a''])"
  by code_simp+

end
