(* ===== verification/Profile_Samples.thy ===== *)
theory Profile_Samples
  imports Py_Regex "HOL-Library.Char_ord" "HOL-Library.List_Lexorder" "HOL-Library.Product_Lexorder"
begin

text \<open>
  The sampled profile (scripts/profile_samples.py): the symbol table read from nm, the
  attribution of an address to the nearest symbol before it, the call tree of sample(1) with
  self and inclusive time per function, and the cost centres. The outputs of nm and sample are
  arguments; driving the load and printing the tables are left out. The theorems say that the
  binary search finds the nearest symbol, and what the two times are on any call tree.
\<close>

section \<open>Constants\<close>

definition TEXT_VMADDR :: int where
  "TEXT_VMADDR = 0x100000000"

definition words_rx :: "string list \<Rightarrow> rx" where
  "words_rx ss = alts (map lit ss)"

definition GROUPS :: "(rx \<times> string) list" where
  "GROUPS = [
     (words_rx [''p256_'', ''x25519'', ''crypto_random_bytes''], ''handshake asymmetric crypto''),
     (words_rx [''sha256'', ''hkdf_'', ''hmac_sha256'', ''tls_transcript''], ''transcript / key schedule''),
     (words_rx [''aes'', ''ghash'', ''gf_mult_128''], ''AES-GCM record crypto''),
     (words_rx [''tls_record'', ''tls_read_record'', ''tls_app_data''], ''TLS record framing''),
     (words_rx [''h2_hpack'', ''h2_huffman''], ''HPACK''),
     (alts [words_rx [''h2_'', ''http1_'', ''parse_'', ''get_header'', ''create_response'', ''reply_status'',
          ''find_http_code'', ''check_path'', ''decode_url'', ''get_filetype''],
        Seq (lit ''get'') Eos, lit ''get_setup'', Seq (lit ''head'') Eos, Seq (lit ''options'') Eos,
        words_rx [''handle_fs_error'', ''verify_http_version'']], ''H2 / HTTP framing''),
     (alts [words_rx [''raw_read'', ''raw_write'', ''transport_'', ''write_all'', ''_main'', ''skip_argv''],
        Seq (lit ''exit'') Eos, lit ''child''], ''transport / syscalls / accept loop''),
     (lit ''tls_'', ''handshake plumbing (non-crypto)''),
     (words_rx [''memcpy'', ''strlen'', ''streqn'', ''itoa'', ''atoi''], ''util''),
     (Star any_chr, ''everything else'')]"

definition IDLE_SYMBOLS :: "string list" where
  "IDLE_SYMBOLS = [''skip_argv'']"

definition LOCAL_FUNCTIONS :: "string list" where
  "LOCAL_FUNCTIONS = [''p256_reduce'', ''p256_scalar_reduce_wide'', ''.Lgcm_gf_mul'']"

definition NAME_ALIASES :: "(string, string) dict" where
  "NAME_ALIASES = [(''.Lgcm_gf_mul'', ''ghash (inlined gcm block)'')]"

definition group_of :: "string \<Rightarrow> string" where
  "group_of symbol = (case find (\<lambda>(pat, name). re_matches pat symbol) GROUPS of
     Some (pat, name) \<Rightarrow> name | None \<Rightarrow> ''everything else'')"

section \<open>Symbols\<close>

definition is_hex :: "char \<Rightarrow> bool" where
  "is_hex c \<longleftrightarrow> py_digit c \<or> char_between CHR ''a'' CHR ''f'' c \<or> char_between CHR ''A'' CHR ''F'' c"

definition hex_val :: "char \<Rightarrow> int" where
  "hex_val c = (if py_digit c then int (of_char c) - 48 else int (of_char (lower_chr c)) - 87)"

definition hex_int :: "string \<Rightarrow> int" where
  "hex_int s = fold (\<lambda>c v. 16 * v + hex_val c) s 0"

text \<open>
  \<open>int(s, 16)\<close> on digits: anything else is a \<open>ValueError\<close> here (Python also takes a sign, a
  prefix and underscores, which nm does not print).
\<close>

definition hex_of :: "string \<Rightarrow> int option" where
  "hex_of s = (if s \<noteq> [] \<and> list_all is_hex s then Some (hex_int s) else None)"

text \<open>
  A line of nm: the outer option is an exception (\<open>IndexError\<close> or \<open>ValueError\<close>), the inner one
  a line that is no function of the text segment.
\<close>

definition nm_line :: "string \<Rightarrow> (int \<times> string) option option" where
  "nm_line line =
     (let parts = split_ws line in
      if length parts < 2 \<or> (parts ! 1 = ''t'' \<and> length parts < 3) then None
      else if length parts = 3
          \<and> (parts ! 1 = ''T'' \<or> parts ! 1 = ''t'' \<and> parts ! 2 \<in> set LOCAL_FUNCTIONS)
          \<and> list_ex (\<lambda>c. c \<noteq> CHR ''0'') (parts ! 0) then
        (case hex_of (parts ! 0) of
           None \<Rightarrow> None
         | Some addr \<Rightarrow> Some (if addr \<ge> TEXT_VMADDR then Some (addr, parts ! 2) else None))
      else Some None)"

text \<open>Aliases at one address: the first is kept.\<close>

definition dedup_step :: "int \<times> string \<Rightarrow> (int \<times> string) list \<Rightarrow> (int \<times> string) list" where
  "dedup_step s acc = (if acc \<noteq> [] \<and> fst (last acc) = fst s then acc else acc @ [s])"

definition text_symbols :: "string \<Rightarrow> (int \<times> string) list option" where
  "text_symbols out =
     (if strip out = [] then None
      else map_option (\<lambda>syms. fold dedup_step (sort (List.map_filter id syms)) [])
             (those (map nm_line (split_lines out))))"

text \<open>The bisection of \<open>lookup\<close>: the number of symbols at or below the address.\<close>

function bisect :: "(int \<times> string) list \<Rightarrow> int \<Rightarrow> nat \<Rightarrow> nat \<Rightarrow> nat" where
  "bisect syms addr lo hi =
     (if lo < hi then
        (let mid = (lo + hi) div 2 in
         if fst (syms ! mid) \<le> addr then bisect syms addr (mid + 1) hi else bisect syms addr lo mid)
      else lo)"
  by pat_completeness auto
termination
  by (relation "measure (\<lambda>(syms, addr, lo, hi). hi - lo)") auto

declare bisect.simps [simp del]

definition lookup_symbol :: "(int \<times> string) list \<Rightarrow> int \<Rightarrow> string \<times> int" where
  "lookup_symbol syms addr =
     (let lo = bisect syms addr 0 (length syms) in
      if lo = 0 then (''<before first symbol>'', 0)
      else (case syms ! (lo - 1) of (base, name) \<Rightarrow> (name, addr - base)))"

section \<open>The call tree\<close>

datatype sym_key = Sarm int | Elsewhere string

definition PC_RE :: rx where
  "PC_RE = Seq (chr CHR ''['') (Seq (lit ''0x'') (Grp 1 (rep1 (Cls (\<lambda>c. py_digit c \<or> char_between CHR ''a'' CHR ''f'' c)))))"

definition LOAD_ADDR_RE :: rx where
  "LOAD_ADDR_RE = seqs [lit ''Load Address:'', rep1 ws, lit ''0x'',
     Grp 1 (rep1 (Cls (\<lambda>c. py_digit c \<or> char_between CHR ''a'' CHR ''f'' c)))]"

text \<open>The run of guide characters ends at the first digit, so the lazy repetition of the source takes all of it.\<close>

definition TREE_LINE :: rx where
  "TREE_LINE = seqs [Bos, Grp 1 (Star (one_of '' +!:|'')), Grp 2 (rep1 digit), chr CHR '' '', Grp 3 (Star any_chr), Eos]"

definition IN_IMAGE_RE :: rx where
  "IN_IMAGE_RE = seqs [rep1 ws, lit ''(in '', Grp 2 (rep1 (Cls (\<lambda>c. c \<noteq> CHR '')''))), chr CHR '')'']"

text \<open>\<open>re.search\<close> with \<open>^\<close> under \<open>re.M\<close>: the first match at the start of a line.\<close>

fun line_suffixes :: "string \<Rightarrow> string list" where
  "line_suffixes [] = []"
| "line_suffixes (c # cs) = (if c = CHR 0x0A then cs # line_suffixes cs else line_suffixes cs)"

definition load_address :: "string \<Rightarrow> int option" where
  "load_address txt =
     (case List.map_filter (re_match LOAD_ADDR_RE) (txt # line_suffixes txt) of
        [] \<Rightarrow> None | m # _ \<Rightarrow> Some (hex_int (group_str m 1)))"

text \<open>
  \<open>(.*?)\s+\(in ...\)\<close> at the start of the description: the lazy group is what comes before the
  first place where the rest matches.
\<close>

definition key_of :: "string \<Rightarrow> int option \<Rightarrow> sym_key" where
  "key_of desc load_addr =
     (let other = (case re_search_from (Grp 0 IN_IMAGE_RE) [] desc of
          Some (g, (c, t)) \<Rightarrow>
            (let before = take (length c - length (group_str g 0)) desc in
             Elsewhere (strip before @ '' ['' @ group_str g 2 @ '']''))
        | None \<Rightarrow> Elsewhere (strip desc))
      in (case load_addr of
            None \<Rightarrow> other
          | Some load \<Rightarrow>
              if has_sub ''(in sarm)'' desc then
                (case re_search PC_RE desc of
                   Some m \<Rightarrow> Sarm (TEXT_VMADDR + (hex_int (group_str m 1) - load))
                 | None \<Rightarrow> other)
              else other))"

text \<open>A node: depth, inclusive count, and the name its description resolves to.\<close>

type_synonym node = "nat \<times> int \<times> string"

fun graph_nodes :: "(string \<Rightarrow> string) \<Rightarrow> string list \<Rightarrow> bool \<Rightarrow> node list" where
  "graph_nodes name_of [] in_graph = []"
| "graph_nodes name_of (line # ls) in_graph =
     (if startswith line ''Call graph:'' then graph_nodes name_of ls True
      else if in_graph \<and> (startswith line ''Total number in stack'' \<or> startswith line ''Sort by top of stack''
          \<or> startswith line ''Binary Images:'') then []
      else if \<not> in_graph \<or> strip line = [] then graph_nodes name_of ls in_graph
      else (case re_match TREE_LINE line of
              None \<Rightarrow> graph_nodes name_of ls in_graph
            | Some m \<Rightarrow>
                (length (group_str m 1) div 2, py_int (group_str m 2), name_of (group_str m 3))
                # graph_nodes name_of ls in_graph))"

text \<open>The counts one level below, up to the end of the subtree.\<close>

fun children_count :: "nat \<Rightarrow> node list \<Rightarrow> int" where
  "children_count depth [] = 0"
| "children_count depth ((d, c, k) # ns) =
     (if d \<le> depth then 0 else (if d = depth + 1 then c else 0) + children_count depth ns)"

text \<open>Whether an ancestor carries the key; the nodes before are given from the last to the first.\<close>

fun seen_above :: "nat \<Rightarrow> string \<Rightarrow> node list \<Rightarrow> bool" where
  "seen_above depth key [] = False"
| "seen_above depth key ((d, c, k) # ns) =
     (if d \<ge> depth then seen_above depth key ns
      else if k = key then True
      else if d = 0 then False
      else seen_above d key ns)"

type_synonym times = "(string, int) dict"

definition add_time :: "string \<Rightarrow> int \<Rightarrow> times \<Rightarrow> times" where
  "add_time key n t = dict_put key (dict_getd t key 0 + n) t"

fun walk_nodes :: "node list \<Rightarrow> node list \<Rightarrow> times \<times> times \<Rightarrow> times \<times> times" where
  "walk_nodes before [] st = st"
| "walk_nodes before ((depth, count, key) # ns) (self_counts, incl_counts) =
     (let own = count - children_count depth ns;
          self_counts = (if own > 0 then add_time key own self_counts else self_counts);
          incl_counts = (if seen_above depth key before then incl_counts else add_time key count incl_counts)
      in walk_nodes ((depth, count, key) # before) ns (self_counts, incl_counts))"

definition sample_times :: "node list \<Rightarrow> int \<times> times \<times> times" where
  "sample_times nodes =
     (let total = sum_list (map (\<lambda>(depth, count, key). if depth = 2 then count else 0) nodes)
      in (total, walk_nodes [] nodes ([], [])))"

definition resolve_name :: "(int \<times> string) list \<Rightarrow> sym_key \<Rightarrow> string" where
  "resolve_name syms key = (case key of
     Elsewhere name \<Rightarrow> name
   | Sarm addr \<Rightarrow> (let name = fst (lookup_symbol syms addr) in dict_getd NAME_ALIASES name name))"

definition parse_sample :: "string \<Rightarrow> (sym_key \<Rightarrow> string) \<Rightarrow> int \<times> times \<times> times" where
  "parse_sample txt name_of =
     (let load_addr = load_address txt in
      sample_times (graph_nodes (\<lambda>desc. name_of (key_of desc load_addr)) (split_lines txt) False))"

section \<open>Idle time and cost centres\<close>

definition idle_count :: "times \<Rightarrow> int" where
  "idle_count self_by_symbol = sum_list (map snd (filter (\<lambda>(n, c). n \<in> set IDLE_SYMBOLS) self_by_symbol))"

definition ranked :: "times \<Rightarrow> times" where
  "ranked t = sort_key (\<lambda>(n, c). - c) (filter (\<lambda>(n, c). n \<notin> set IDLE_SYMBOLS) t)"

definition cost_groups :: "times \<Rightarrow> times" where
  "cost_groups self_by_symbol = fold (\<lambda>(name, count) groups.
     if name \<in> set IDLE_SYMBOLS then groups else add_time (group_of name) count groups) self_by_symbol []"

section \<open>The nearest symbol\<close>

definition nearest_symbol :: "(int \<times> string) list \<Rightarrow> int \<Rightarrow> string \<times> int" where
  "nearest_symbol syms addr =
     (case filter (\<lambda>s. fst s \<le> addr) syms of
        [] \<Rightarrow> (''<before first symbol>'', 0)
      | below \<Rightarrow> (snd (last below), addr - fst (last below)))"

lemma bisect_boundary:
  assumes "sorted (map fst syms)" "lo \<le> hi" "hi \<le> length syms"
    "\<forall>i < lo. fst (syms ! i) \<le> addr" "\<forall>i < length syms. hi \<le> i \<longrightarrow> addr < fst (syms ! i)"
  shows "bisect syms addr lo hi \<le> length syms
    \<and> (\<forall>i < length syms. fst (syms ! i) \<le> addr \<longleftrightarrow> i < bisect syms addr lo hi)"
  using assms
proof (induction syms addr lo hi rule: bisect.induct)
  case (1 syms addr lo hi)
  let ?mid = "(lo + hi) div 2"
  have mono: "fst (syms ! i) \<le> fst (syms ! j)" if "i \<le> j" "j < length syms" for i j
    using sorted_nth_mono [OF 1(3) that(1)] that by simp
  show ?case
  proof (cases "lo < hi")
    case False
    then show ?thesis using 1(4-7) by (subst (1 2) bisect.simps) (auto simp: not_less)
  next
    case True
    define m where "m = ?mid"
    have mid: "lo \<le> m" "m < hi" "m < length syms" using True 1(5) by (auto simp: m_def)
    have unfold: "bisect syms addr lo hi =
        (if fst (syms ! m) \<le> addr then bisect syms addr (m + 1) hi else bisect syms addr lo m)"
      using True by (subst bisect.simps) (simp add: Let_def m_def)
    show ?thesis
    proof (cases "fst (syms ! m) \<le> addr")
      case low: True
      have "fst (syms ! i) \<le> addr" if "i < m + 1" for i
        using mono [of i m] that mid(3) low by linarith
      then have "bisect syms addr (m + 1) hi \<le> length syms
          \<and> (\<forall>i < length syms. fst (syms ! i) \<le> addr \<longleftrightarrow> i < bisect syms addr (m + 1) hi)"
        using 1(1) [OF True m_def low 1(3)] 1(5,7) mid by auto
      then show ?thesis using low by (simp add: unfold)
    next
      case high: False
      have "addr < fst (syms ! i)" if "i < length syms" "m \<le> i" for i
        using mono [OF that(2,1)] high by linarith
      then have "bisect syms addr lo m \<le> length syms
          \<and> (\<forall>i < length syms. fst (syms ! i) \<le> addr \<longleftrightarrow> i < bisect syms addr lo m)"
        using 1(2) [OF True m_def high 1(3)] 1(6) mid by auto
      then show ?thesis using high by (simp add: unfold)
    qed
  qed
qed

lemma filter_take:
  "n \<le> length xs \<Longrightarrow> \<forall>i < length xs. P (xs ! i) \<longleftrightarrow> i < n \<Longrightarrow> filter P xs = take n xs"
proof -
  assume n: "n \<le> length xs" and P: "\<forall>i < length xs. P (xs ! i) \<longleftrightarrow> i < n"
  have "filter P (take n xs) = take n xs" using n P by (auto simp: filter_id_conv in_set_conv_nth)
  moreover have "filter P (drop n xs) = []" using P by (auto simp: filter_empty_conv in_set_conv_nth)
  ultimately show ?thesis by (metis append_Nil2 append_take_drop_id filter_append)
qed

lemma lookup_sorted:
  assumes "sorted (map fst syms)"
  shows "lookup_symbol syms addr = nearest_symbol syms addr"
proof -
  define n where "n = bisect syms addr 0 (length syms)"
  have n: "n \<le> length syms" "\<forall>i < length syms. fst (syms ! i) \<le> addr \<longleftrightarrow> i < n"
    using bisect_boundary [OF assms, of 0 "length syms" addr] by (auto simp: n_def)
  have below: "filter (\<lambda>s. fst s \<le> addr) syms = take n syms"
    by (rule filter_take [OF n])
  show ?thesis
  proof (cases "n = 0")
    case True
    then show ?thesis using below by (simp add: lookup_symbol_def nearest_symbol_def n_def [symmetric] Let_def)
  next
    case False
    then have "take n syms \<noteq> [] \<and> last (take n syms) = syms ! (n - 1)"
      using n(1) by (cases n) (simp_all add: take_Suc_conv_app_nth)
    then show ?thesis using False below
      by (cases "take n syms") (simp_all add: lookup_symbol_def nearest_symbol_def n_def [symmetric] Let_def case_prod_unfold)
  qed
qed

lemma fold_dedup: "sorted (map fst (acc @ syms)) \<Longrightarrow> sorted (map fst (fold dedup_step syms acc))"
proof (induction syms arbitrary: acc)
  case (Cons s syms)
  have "sorted (map fst (dedup_step s acc @ syms))"
    using Cons.prems by (auto simp: dedup_step_def sorted_append)
  then show ?case using Cons.IH by simp
qed simp

lemma text_symbols_sorted:
  assumes "text_symbols out = Some syms"
  shows "sorted (map fst syms)"
proof -
  have "sorted (map fst xs)" if "sorted xs" for xs :: "(int \<times> string) list"
    using that by (induction xs) (auto simp: less_eq_prod_def)
  from this [OF sorted_sort] have "sorted (map fst ([] @ sort xs))" for xs :: "(int \<times> string) list" by simp
  from fold_dedup [OF this] show ?thesis
    using assms by (auto simp: text_symbols_def split: if_splits)
qed

text \<open>
  An address is attributed to the symbol of nm with the greatest address at or below it,
  with its distance from there, and to no symbol if there is none.
\<close>

theorem lookup_nearest:
  "text_symbols out = Some syms \<Longrightarrow> lookup_symbol syms addr = nearest_symbol syms addr"
  by (rule lookup_sorted [OF text_symbols_sorted])

definition nm_example :: string where
  "nm_example = join [CHR 0x0A] [''0000000100003f00 T _main'', ''0000000100003f40 t loop'', ''0000000100003f80 T memcpy'']"

lemma lookup_nearest_witness:
  "text_symbols nm_example = Some [(0x100003f00, ''_main''), (0x100003f80, ''memcpy'')]
   \<and> lookup_symbol [(0x100003f00, ''_main''), (0x100003f80, ''memcpy'')] 0x100003f44
     = nearest_symbol [(0x100003f00, ''_main''), (0x100003f80, ''memcpy'')] 0x100003f44
   \<and> nearest_symbol [(0x100003f00, ''_main''), (0x100003f80, ''memcpy'')] 0x100003f44 = (''_main'', 0x44)"
proof -
  have "text_symbols nm_example = Some [(0x100003f00, ''_main''), (0x100003f80, ''memcpy'')]"
    by code_simp
  from this lookup_nearest [OF this, of "0x100003f44"] show ?thesis by (simp add: nearest_symbol_def)
qed

section \<open>Times on a call tree\<close>

datatype call_tree = Call (calls: int) (callee_name: string) (subcalls: "call_tree list")

text \<open>A call tree as sample(1) prints it: the node, then its subtrees one level deeper.\<close>

primrec render :: "nat \<Rightarrow> call_tree \<Rightarrow> node list" where
  "render d (Call n k ts) = (d, n, k) # concat (map (render (Suc d)) ts)"

definition render_all :: "nat \<Rightarrow> call_tree list \<Rightarrow> node list" where
  "render_all d ts = concat (map (render d) ts)"

lemma render_Call [simp]: "render d (Call n k ts) = (d, n, k) # render_all (Suc d) ts"
  by (simp add: render_all_def)

lemma render_all_simps [simp]: "render_all d [] = []" "render_all d (t # ts) = render d t @ render_all d ts"
  by (simp_all add: render_all_def)

declare render.simps [simp del]

text \<open>Own time of the nodes that carry a name, where there is any, and the time of the outermost ones.\<close>

primrec self_time :: "string \<Rightarrow> call_tree \<Rightarrow> int" where
  "self_time key (Call n k ts) =
     (if k = key then max 0 (n - sum_list (map calls ts)) else 0) + sum_list (map (self_time key) ts)"

primrec inclusive_time :: "string \<Rightarrow> call_tree \<Rightarrow> int" where
  "inclusive_time key (Call n k ts) =
     (if k = key then n else sum_list (map (inclusive_time key) ts))"

lemma render_depths: "x \<in> set (render d t) \<Longrightarrow> d \<le> fst x"
proof (induction t arbitrary: d)
  case (Call n k ts)
  then show ?case by (fastforce simp: render_all_def dest: Suc_leD)
qed

lemma render_all_depths: "x \<in> set (render_all d ts) \<Longrightarrow> d \<le> fst x"
  using render_depths [of x d] by (auto simp: render_all_def simp del: split_paired_All)

text \<open>Where a subtree ends: the next node is no deeper.\<close>

definition ends_at :: "nat \<Rightarrow> node list \<Rightarrow> bool" where
  "ends_at d ns \<longleftrightarrow> ns = [] \<or> fst (hd ns) \<le> d"

lemma children_skip:
  "\<forall>x \<in> set xs. d + 2 \<le> fst x \<Longrightarrow> children_count d (xs @ ns) = children_count d ns"
  by (induction xs) auto

lemma children_render: "children_count d (render (Suc d) t @ ns) = calls t + children_count d ns"
proof (cases t)
  case (Call n k ts)
  have "\<forall>x \<in> set (render_all (Suc (Suc d)) ts). d + 2 \<le> fst x" using render_all_depths by fastforce
  then show ?thesis by (simp add: Call children_skip)
qed

lemma children_render_all:
  "ends_at d ns \<Longrightarrow> children_count d (render_all (Suc d) ts @ ns) = sum_list (map calls ts)"
proof (induction ts)
  case Nil
  then show ?case by (cases ns) (auto simp: ends_at_def)
qed (simp add: children_render)

lemma seen_skip: "\<forall>x \<in> set xs. d \<le> fst x \<Longrightarrow> seen_above d key (xs @ ns) = seen_above d key ns"
  by (induction xs) auto

lemma seen_zero: "\<not> seen_above 0 key ns"
  by (induction ns) auto

lemma getd_add_time: "dict_getd (add_time key n t) k 0 = dict_getd t k 0 + (if k = key then n else 0)"
  by (simp add: add_time_def dict_getd_def)

lemma sum_add_time: "sum_list (map snd (add_time key n t)) = sum_list (map snd t) + n"
proof -
  have "sum_list (map snd (dict_put key v t)) = sum_list (map snd t) + v - dict_getd t key 0" for v
    by (induction t) (auto simp: dict_getd_def)
  then show ?thesis by (simp add: add_time_def)
qed

primrec own_time :: "call_tree \<Rightarrow> int" where
  "own_time (Call n k ts) = max 0 (n - sum_list (map calls ts)) + sum_list (map own_time ts)"

text \<open>What a part of the walk adds to the two tables.\<close>

definition adds :: "times \<times> times \<Rightarrow> times \<times> times \<Rightarrow> (string \<Rightarrow> int) \<Rightarrow> (string \<Rightarrow> int) \<Rightarrow> int \<Rightarrow> bool" where
  "adds st st' own incl tot \<longleftrightarrow>
     (\<forall>key. dict_getd (fst st') key 0 = dict_getd (fst st) key 0 + own key)
   \<and> (\<forall>key. dict_getd (snd st') key 0 = dict_getd (snd st) key 0 + incl key)
   \<and> sum_list (map snd (fst st')) = sum_list (map snd (fst st)) + tot"

lemma adds_trans:
  "adds st st' f g n \<Longrightarrow> adds st' st'' f' g' n' \<Longrightarrow> adds st st'' (\<lambda>k. f k + f' k) (\<lambda>k. g k + g' k) (n + n')"
  by (simp add: adds_def)

definition walks :: "nat \<Rightarrow> node list \<Rightarrow> node list \<Rightarrow> (string \<Rightarrow> int) \<Rightarrow> (string \<Rightarrow> int) \<Rightarrow> int \<Rightarrow> bool" where
  "walks d before xs own incl tot \<longleftrightarrow> (\<forall>ns st. ends_at d ns \<longrightarrow>
     (\<exists>st'. walk_nodes before (xs @ ns) st = walk_nodes (rev xs @ before) ns st' \<and> adds st st' own incl tot))"

lemma walks_forest:
  assumes "\<And>t before. t \<in> set ts \<Longrightarrow> walks d before (render d t) (\<lambda>key. self_time key t)
      (\<lambda>key. if seen_above d key before then 0 else inclusive_time key t) (own_time t)"
  shows "walks d before (render_all d ts) (\<lambda>key. sum_list (map (self_time key) ts))
      (\<lambda>key. if seen_above d key before then 0 else sum_list (map (inclusive_time key) ts)) (sum_list (map own_time ts))"
  using assms
proof (induction ts arbitrary: before)
  case Nil
  then show ?case by (auto simp: walks_def adds_def)
next
  case (Cons t ts)
  show ?case
    unfolding walks_def
  proof (intro allI impI)
    fix ns st
    assume ns: "ends_at d ns"
    let ?before = "rev (render d t) @ before"
    have "ends_at d (render_all d ts @ ns)"
      using ns by (cases ts; cases "hd ts") (auto simp: ends_at_def)
    then obtain st' where st': "walk_nodes before (render d t @ render_all d ts @ ns) st
          = walk_nodes ?before (render_all d ts @ ns) st'"
        "adds st st' (\<lambda>key. self_time key t) (\<lambda>key. if seen_above d key before then 0 else inclusive_time key t) (own_time t)"
      using Cons.prems [of t before] unfolding walks_def by (meson list.set_intros(1))
    have seen: "seen_above d key ?before = seen_above d key before" for key
      using render_depths by (intro seen_skip) auto
    obtain st'' where st'': "walk_nodes ?before (render_all d ts @ ns) st'
          = walk_nodes (rev (render_all d ts) @ ?before) ns st''"
        "adds st' st'' (\<lambda>key. sum_list (map (self_time key) ts))
           (\<lambda>key. if seen_above d key before then 0 else sum_list (map (inclusive_time key) ts)) (sum_list (map own_time ts))"
      using Cons.IH [of ?before] Cons.prems ns unfolding walks_def seen by (meson list.set_intros(2))
    show "\<exists>st'. walk_nodes before (render_all d (t # ts) @ ns) st = walk_nodes (rev (render_all d (t # ts)) @ before) ns st'
      \<and> adds st st' (\<lambda>key. sum_list (map (self_time key) (t # ts)))
          (\<lambda>key. if seen_above d key before then 0 else sum_list (map (inclusive_time key) (t # ts)))
          (sum_list (map own_time (t # ts)))"
      using st'(1) st''(1) adds_trans [OF st'(2) st''(2)]
      by (intro exI [of _ st'']) (auto simp: adds_def)
  qed
qed

lemma walks_tree:
  "walks d before (render d t) (\<lambda>key. self_time key t)
     (\<lambda>key. if seen_above d key before then 0 else inclusive_time key t) (own_time t)"
proof (induction t arbitrary: d before)
  case (Call n k ts)
  let ?node = "(d, n, k)"
  have seen: "seen_above (Suc d) key (?node # before) \<longleftrightarrow> k = key \<or> seen_above d key before" for key
    using seen_zero by (cases d) auto
  have forest: "walks (Suc d) (?node # before) (render_all (Suc d) ts) (\<lambda>key. sum_list (map (self_time key) ts))
      (\<lambda>key. if seen_above (Suc d) key (?node # before) then 0 else sum_list (map (inclusive_time key) ts))
      (sum_list (map own_time ts))"
    using Call by (rule walks_forest)
  show ?case
    unfolding walks_def
  proof (intro allI impI)
    fix ns and st :: "times \<times> times"
    assume ns: "ends_at d ns"
    let ?own = "n - sum_list (map calls ts)"
    define st1 where "st1 = (if ?own > 0 then add_time k ?own (fst st) else fst st,
        if seen_above d k before then snd st else add_time k n (snd st))"
    have node: "walk_nodes before (render d (Call n k ts) @ ns) st = walk_nodes (?node # before) (render_all (Suc d) ts @ ns) st1"
      by (cases st) (simp add: children_render_all [OF ns] st1_def Let_def)
    have "ends_at (Suc d) ns" using ns by (auto simp: ends_at_def)
    from forest [unfolded walks_def seen, rule_format, OF this, of st1]
    obtain st' where st': "walk_nodes before (render d (Call n k ts) @ ns) st
          = walk_nodes (rev (render_all (Suc d) ts) @ ?node # before) ns st'"
        "adds st1 st' (\<lambda>key. sum_list (map (self_time key) ts))
          (\<lambda>key. if k = key \<or> seen_above d key before then 0 else sum_list (map (inclusive_time key) ts))
          (sum_list (map own_time ts))"
      unfolding node by blast
    have st1: "adds st st1 (\<lambda>key. if k = key then max 0 ?own else 0)
        (\<lambda>key. if k = key \<and> \<not> seen_above d key before then n else 0) (max 0 ?own)"
      by (auto simp: adds_def st1_def getd_add_time sum_add_time)
    show "\<exists>st'. walk_nodes before (render d (Call n k ts) @ ns) st
          = walk_nodes (rev (render d (Call n k ts)) @ before) ns st'
        \<and> adds st st' (\<lambda>key. self_time key (Call n k ts))
            (\<lambda>key. if seen_above d key before then 0 else inclusive_time key (Call n k ts)) (own_time (Call n k ts))"
      using st'(1) adds_trans [OF st1 st'(2)] by (intro exI [of _ st']) (auto simp: adds_def)
  qed
qed

text \<open>A tree whose counts include those of the subtrees.\<close>

primrec consistent :: "call_tree \<Rightarrow> bool" where
  "consistent (Call n k ts) \<longleftrightarrow> sum_list (map calls ts) \<le> n \<and> list_all consistent ts"

lemma own_time_consistent: "consistent t \<Longrightarrow> own_time t = calls t"
proof (induction t)
  case (Call n k ts)
  then have "map own_time ts = map calls ts" by (simp add: list_all_iff)
  from arg_cong [OF this, of sum_list] show ?case using Call.prems by simp
qed

lemma total_render:
  "2 < d \<Longrightarrow> sum_list (map (\<lambda>(depth, count, key). if depth = 2 then count else 0) (render_all d ts)) = 0"
proof -
  assume "2 < d"
  then have "map (\<lambda>(depth, count, key). if depth = 2 then count else 0) (render_all d ts) = map (\<lambda>_. 0) (render_all d ts)"
    using render_all_depths [of _ d ts] by fastforce
  from arg_cong [OF this, of sum_list] show ?thesis by simp
qed

lemma total_roots:
  "sum_list (map (\<lambda>(depth, count, key). if depth = 2 then count else 0) (render_all 2 ts)) = sum_list (map calls ts)"
proof (induction ts)
  case (Cons t ts)
  then show ?case by (cases t) (simp add: total_render)
qed simp

text \<open>
  C25. On any call tree printed by sample, the self table holds for every name the time its nodes
  spend outside their subtrees, the inclusive table the time of its outermost nodes, and the
  total is that of the roots; if counts include those of the subtrees, self times add up to it.
\<close>

theorem sample_times_tree:
  "fst (sample_times (render_all 2 ts)) = sum_list (map calls ts)
   \<and> dict_getd (fst (snd (sample_times (render_all 2 ts)))) key 0 = sum_list (map (self_time key) ts)
   \<and> dict_getd (snd (snd (sample_times (render_all 2 ts)))) key 0 = sum_list (map (inclusive_time key) ts)
   \<and> (list_all consistent ts \<longrightarrow>
       sum_list (map snd (fst (snd (sample_times (render_all 2 ts))))) = sum_list (map calls ts))"
proof -
  have "ends_at 2 []" by (simp add: ends_at_def)
  from walks_forest [OF walks_tree, where ts = ts and d = 2 and before = "[]", unfolded walks_def, rule_format, OF this, of "([], [])"]
  obtain st where st: "walk_nodes [] (render_all 2 ts) ([], []) = st"
      "adds ([], []) st (\<lambda>key. sum_list (map (self_time key) ts)) (\<lambda>key. sum_list (map (inclusive_time key) ts))
         (sum_list (map own_time ts))"
    by auto
  moreover have "sum_list (map own_time ts) = sum_list (map calls ts)" if "list_all consistent ts"
    using that own_time_consistent by (intro arg_cong [of _ _ sum_list] map_cong) (auto simp: list_all_iff)
  ultimately show ?thesis
    by (auto simp: sample_times_def total_roots adds_def dict_getd_def Let_def)
qed

definition tree_example :: "call_tree list" where
  "tree_example = [Call 10 ''a'' [Call 6 ''b'' [Call 4 ''a'' []], Call 1 ''c'' []]]"

lemma sample_times_tree_witness:
  "list_all consistent tree_example
   \<and> sum_list (map snd (fst (snd (sample_times (render_all 2 tree_example))))) = 10
   \<and> map (\<lambda>key. sum_list (map (self_time key) tree_example)) [''a'', ''b'', ''c''] = [7, 2, 1]
   \<and> map (\<lambda>key. sum_list (map (inclusive_time key) tree_example)) [''a'', ''b'', ''c''] = [10, 6, 1]"
  using sample_times_tree [of tree_example] by (simp add: tree_example_def)

section \<open>A run without work\<close>

text \<open>
  When every sample is idle, the busy count the shares are divided by is 0, and the inclusive
  table still has a row to print: that of the thread.
\<close>

lemma idle_run_has_rows:
  "case sample_times (render_all 2 [Call 10 ''Thread_1'' [Call 10 ''skip_argv'' []]]) of
     (tot, self_counts, incl_counts) \<Rightarrow>
       tot - idle_count self_counts = 0 \<and> ranked self_counts = [] \<and> ranked incl_counts = [(''Thread_1'', 10)]"
  by code_simp

end
