(* ===== verification/Differential.thy ===== *)
theory Differential
  imports Py_Text
begin

text \<open>
  The differential tester (scripts/differential.py): the text of a batch of cases, the comparison
  of the outputs of the two programs, and the run over all batches. A program is an argument,
  a function from the cases it is run on to its exit code and its output lines (-1 and no lines
  after a timeout). The generator of random cases and the printed details are left out. The
  theorem says what an accepted run means; the last lemmas show what it does not mean.
\<close>

section \<open>Cases\<close>

record diff_case =
  case_kind :: string
  case_length :: nat
  case_soff :: nat
  case_doff :: nat
  case_payload :: "nat list"

definition hex_digit :: "nat \<Rightarrow> char" where
  "hex_digit n = (if n < 10 then char_of (48 + n) else char_of (87 + n))"

text \<open>\<open>payload.hex()\<close>\<close>

definition hex_bytes :: "nat list \<Rightarrow> string" where
  "hex_bytes bs = concat (map (\<lambda>b. [hex_digit (b div 16), hex_digit (b mod 16)]) bs)"

definition case_line :: "diff_case \<Rightarrow> string" where
  "case_line c = (if case_kind c \<noteq> ''N'' then case_kind c @ '' '' else [])
     @ str_nat (case_length c) @ '' '' @ str_nat (case_soff c) @ '' '' @ str_nat (case_doff c) @ '' ''
     @ hex_bytes (case_payload c)"

definition serialize :: "diff_case list \<Rightarrow> string" where
  "serialize cases = join [CHR 0x0A] (map case_line cases) @ [CHR 0x0A]"

section \<open>Comparison\<close>

text \<open>A program: exit code and output lines for a text on its standard input.\<close>

type_synonym program = "string \<Rightarrow> int \<times> string list"

definition run_program :: "program \<Rightarrow> diff_case list \<Rightarrow> int \<times> string list" where
  "run_program prog cases = prog (serialize cases)"

datatype diff_reason = Ref_Timeout | Ref_Failed int | Cand_Failed int | Output_Differs | Lines_Differ

fun compare_lines :: "nat \<Rightarrow> 'c list \<Rightarrow> string list \<Rightarrow> string list \<Rightarrow> nat option" where
  "compare_lines i (c # cs) (r # rs) out =
     (let actual = (if i < length out then out ! i else ''<crash: no output>'') in
      if actual \<noteq> r then Some i else compare_lines (Suc i) cs rs out)"
| "compare_lines i _ _ out = None"

text \<open>\<open>None\<close> on success, else the index of a case and the reason.\<close>

definition check_batch :: "program \<Rightarrow> program \<Rightarrow> diff_case list \<Rightarrow> (nat \<times> diff_reason) option" where
  "check_batch reference cand cases =
     (case (run_program reference cases, run_program cand cases) of
        ((ref_rc, ref_out), (cand_rc, cand_out)) \<Rightarrow>
          if ref_rc = -1 then Some (0, Ref_Timeout)
          else if ref_rc \<noteq> 0 then Some (0, Ref_Failed ref_rc)
          else if cand_rc \<noteq> 0 then Some (0, Cand_Failed cand_rc)
          else (case compare_lines 0 cases ref_out cand_out of
                  Some i \<Rightarrow> Some (i, Output_Differs)
                | None \<Rightarrow> if length cand_out \<noteq> length ref_out then Some (length ref_out, Lines_Differ) else None))"

section \<open>The run\<close>

text \<open>\<open>cases[start : start + batch]\<close> for \<open>start\<close> in \<open>range(0, len(cases), batch)\<close>.\<close>

function batches :: "nat \<Rightarrow> 'c list \<Rightarrow> 'c list list" where
  "batches n cs = (if n = 0 \<or> cs = [] then [] else take n cs # batches n (drop n cs))"
  by pat_completeness auto
termination
  by (relation "measure (\<lambda>(n, cs). length cs)") auto

declare batches.simps [simp del]

text \<open>
  How the run ends: exit status 0 or 1, or an uncaught \<open>IndexError\<close> while isolating the case of a
  failed batch.
\<close>

datatype diff_outcome = Diff_Ok | Diff_Failed | Diff_Index_Error

definition differential_run :: "program \<Rightarrow> program \<Rightarrow> nat \<Rightarrow> diff_case list \<Rightarrow> diff_outcome" where
  "differential_run reference cand batch cases =
     (case find (\<lambda>b. check_batch reference cand b \<noteq> None) (batches batch cases) of
        None \<Rightarrow> Diff_Ok
      | Some b \<Rightarrow>
          (case check_batch reference cand b of
             None \<Rightarrow> Diff_Ok
           | Some (i, why) \<Rightarrow> if i < length b then Diff_Failed else Diff_Index_Error))"

section \<open>What an accepted run means\<close>

lemma concat_batches: "0 < n \<Longrightarrow> concat (batches n cs) = cs"
  by (induction n cs rule: batches.induct) (subst batches.simps, simp)

lemma batches_length: "b \<in> set (batches n cs) \<Longrightarrow> b \<noteq> [] \<and> length b \<le> n"
  by (induction n cs rule: batches.induct) (subst (asm) (2) batches.simps, auto split: if_splits)

lemma compare_lines_None:
  "compare_lines i cs rs out = None \<longleftrightarrow>
     (\<forall>j < min (length cs) (length rs).
        (if i + j < length out then out ! (i + j) else ''<crash: no output>'') = rs ! j)"
proof (induction i cs rs out rule: compare_lines.induct)
  case (1 i c cs r rs out)
  have "(\<forall>j < min (length (c # cs)) (length (r # rs)).
        (if i + j < length out then out ! (i + j) else ''<crash: no output>'') = (r # rs) ! j)
    \<longleftrightarrow> (if i < length out then out ! i else ''<crash: no output>'') = r
      \<and> (\<forall>j < min (length cs) (length rs).
        (if Suc i + j < length out then out ! (Suc i + j) else ''<crash: no output>'') = rs ! j)"
    by (simp add: All_less_Suc2 del: if_split)
  then show ?case using 1 by (simp add: Let_def)
qed simp_all

definition outputs_agree :: "program \<Rightarrow> program \<Rightarrow> diff_case list \<Rightarrow> bool" where
  "outputs_agree reference cand b \<longleftrightarrow>
     fst (run_program reference b) = 0 \<and> fst (run_program cand b) = 0
   \<and> length (snd (run_program cand b)) = length (snd (run_program reference b))
   \<and> take (length b) (snd (run_program cand b)) = take (length b) (snd (run_program reference b))"

lemma check_batch_None: "check_batch reference cand b = None \<longleftrightarrow> outputs_agree reference cand b"
proof -
  obtain r rs c out where run: "run_program reference b = (r, rs)" "run_program cand b = (c, out)" by fastforce
  have "compare_lines 0 b rs out = None \<longleftrightarrow> take (length b) out = take (length b) rs" if "length out = length rs"
    using that by (auto simp: compare_lines_None list_eq_iff_nth_eq)
  then show ?thesis by (auto simp: check_batch_def outputs_agree_def run split: option.split)
qed

text \<open>
  C40. The run is accepted exactly when on every batch both programs end with 0, print equally
  many lines, and agree on as many of them as there are cases; the batches are the cases, in
  order, and none is empty.
\<close>

theorem differential_run_ok:
  "0 < batch \<Longrightarrow>
   (differential_run reference cand batch cases = Diff_Ok \<longleftrightarrow> list_all (outputs_agree reference cand) (batches batch cases))
   \<and> concat (batches batch cases) = cases \<and> list_all (\<lambda>b. b \<noteq> []) (batches batch cases)"
  using concat_batches [of batch cases] batches_length [of _ batch cases]
  by (auto simp: differential_run_def list_all_iff check_batch_None find_None_iff find_Some_iff split: option.splits)

definition two_cases :: "diff_case list" where
  "two_cases = [\<lparr>case_kind = ''N'', case_length = 2, case_soff = 0, case_doff = 3, case_payload = [10, 255]\<rparr>,
     \<lparr>case_kind = ''GS'', case_length = 1, case_soff = 0, case_doff = 0, case_payload = [7]\<rparr>]"

definition echo_program :: program where
  "echo_program inp = (0, split_lines inp)"

lemma differential_run_ok_witness:
  "differential_run echo_program echo_program 1 two_cases = Diff_Ok
   \<and> snd (run_program echo_program two_cases) = [''2 0 3 0aff'', ''GS 1 0 0 07'']"
proof -
  have "list_all (outputs_agree echo_program echo_program) (batches 1 two_cases)"
    by (simp add: list_all_iff outputs_agree_def run_program_def echo_program_def)
  moreover have "snd (run_program echo_program two_cases) = [''2 0 3 0aff'', ''GS 1 0 0 07'']"
    by code_simp
  ultimately show ?thesis using differential_run_ok [of 1 echo_program echo_program two_cases] by simp
qed

section \<open>What it does not mean\<close>

text \<open>Two programs that print nothing are accepted, without one case compared.\<close>

lemma silent_programs_accepted:
  "0 < batch \<Longrightarrow> differential_run (\<lambda>_. (0, [])) (\<lambda>_. (0, [])) batch cases = Diff_Ok"
  using concat_batches [of batch cases]
  by (auto simp: differential_run_def check_batch_None outputs_agree_def run_program_def find_None_iff find_Some_iff
      split: option.splits)

text \<open>
  A candidate that prints a line too many is rejected with the index of a case that does not
  exist: the isolation of that case raises an \<open>IndexError\<close>.
\<close>

lemma extra_line_index_error:
  "differential_run echo_program (\<lambda>inp. (0, split_lines inp @ [''x''])) 2 two_cases = Diff_Index_Error"
  by code_simp

end
