(* ===== verification/Py_Json.thy ===== *)
theory Py_Json
  imports Py_Float
begin

text \<open>
  Python's \<open>json.loads\<close> and \<open>json.dumps\<close>, as far as the optimizer scripts use them. A decoded
  string is the list of its code points; the texts that are decoded are ASCII. A number with a
  fraction or an exponent is rounded as \<open>Py_Float\<close> rounds; the limits of Python on the depth of
  nesting and on the digits of an integer are left out. \<open>None\<close> is a \<open>JSONDecodeError\<close>. The fuel of
  the decoder is twice the length of the text, an element of a container costing two steps and
  at least one character. The lemmas show that decoding inverts encoding.
\<close>

datatype json =
    JNull
  | JBool bool
  | JInt int
  | JFloat rat
  | JNan
  | JInf bool
  | JStr "nat list"
  | JArr "json list"
  | JObj "(nat list \<times> json) list"

section \<open>Decoding\<close>

definition json_ws :: "char \<Rightarrow> bool" where
  "json_ws c \<longleftrightarrow> c \<in> {CHR '' '', CHR 0x09, CHR 0x0A, CHR 0x0D}"

definition skip_ws :: "string \<Rightarrow> string" where
  "skip_ws s = dropWhile json_ws s"

definition hex_value4 :: "char \<Rightarrow> nat option" where
  "hex_value4 c =
     (let n = of_char c in
      if py_digit c then Some (n - 48)
      else if char_between CHR ''a'' CHR ''f'' c then Some (n - 87)
      else if char_between CHR ''A'' CHR ''F'' c then Some (n - 55)
      else None)"

definition hex4 :: "string \<Rightarrow> nat option" where
  "hex4 s =
     (if length s < 4 then None
      else map_option (\<lambda>ds. fold (\<lambda>d n. 16 * n + d) ds 0) (those (map hex_value4 (take 4 s))))"

definition simple_escape :: "char \<Rightarrow> nat option" where
  "simple_escape e =
     (if e \<in> {CHR 0x22, CHR 0x5C, CHR ''/''} then Some (of_char e)
      else if e = CHR ''b'' then Some 8 else if e = CHR ''f'' then Some 12
      else if e = CHR ''n'' then Some 10 else if e = CHR ''r'' then Some 13
      else if e = CHR ''t'' then Some 9 else None)"

text \<open>The code units of a string and the text after its closing quote.\<close>

function string_body :: "string \<Rightarrow> (nat list \<times> string) option" where
  "string_body [] = None"
| "string_body (c # s) =
     (if c = CHR 0x22 then Some ([], s)
      else if c = CHR 0x5C then
        (case s of
           [] \<Rightarrow> None
         | e # r \<Rightarrow>
             if e = CHR ''u'' then
               (case hex4 r of None \<Rightarrow> None
                | Some n \<Rightarrow> map_option (\<lambda>(ns, t). (n # ns, t)) (string_body (drop 4 r)))
             else
               (case simple_escape e of None \<Rightarrow> None
                | Some n \<Rightarrow> map_option (\<lambda>(ns, t). (n # ns, t)) (string_body r)))
      else if of_char c < (32 :: nat) then None
      else map_option (\<lambda>(ns, t). (of_char c # ns, t)) (string_body s))"
  by pat_completeness auto
termination
  by (relation "measure length") auto

text \<open>An escaped surrogate pair, of \<open>0xD800..0xDBFF\<close> and \<open>0xDC00..0xDFFF\<close>, is one code point.\<close>

fun join_surrogates :: "nat list \<Rightarrow> nat list" where
  "join_surrogates (a # b # ns) =
     (if a div 1024 = 54 \<and> b div 1024 = 55
      then (0x10000 + (a - 0xD800) * 1024 + (b - 0xDC00)) # join_surrogates ns
      else a # join_surrogates (b # ns))"
| "join_surrogates ns = ns"

text \<open>The digits at the start of a number: a single zero, or digits without a leading zero.\<close>

definition int_digits :: "string \<Rightarrow> string" where
  "int_digits s = (if startswith s ''0'' then ''0'' else takeWhile py_digit s)"

definition frac_digits :: "string \<Rightarrow> string" where
  "frac_digits s = (if startswith s ''.'' then takeWhile py_digit (tl s) else [])"

text \<open>The exponent and the number of characters it takes; none if no digit follows.\<close>

definition exponent_part :: "string \<Rightarrow> (int \<times> nat) option" where
  "exponent_part s =
     (if startswith s ''e'' \<or> startswith s ''E'' then
        (let t = tl s; signed = startswith t ''-'' \<or> startswith t ''+'';
             ds = takeWhile py_digit (if signed then tl t else t)
         in if ds = [] then None
            else Some ((if startswith t ''-'' then - val_digits ds else val_digits ds),
                   length ds + (if signed then 2 else 1)))
      else None)"

definition rat_power10 :: "int \<Rightarrow> rat" where
  "rat_power10 e = (if 0 \<le> e then 10 ^ nat e else 1 / 10 ^ nat (- e))"

text \<open>The value of a number, from its sign, digits, decimals and exponent.\<close>

definition number_value :: "bool \<Rightarrow> string \<Rightarrow> string \<Rightarrow> int option \<Rightarrow> json" where
  "number_value neg whole decs e =
     (if decs = [] \<and> e = None then JInt (if neg then - val_digits whole else val_digits whole)
      else JFloat (fl ((if neg then -1 else 1) * of_int (val_digits (whole @ decs)) / 10 ^ length decs
        * rat_power10 (case e of Some x \<Rightarrow> x | None \<Rightarrow> 0))))"

definition json_number :: "string \<Rightarrow> (json \<times> string) option" where
  "json_number s =
     (let neg = startswith s ''-''; s1 = (if neg then tl s else s);
          whole = int_digits s1; s2 = drop (length whole) s1;
          frac = frac_digits s2; s3 = (if frac = [] then s2 else drop (Suc (length frac)) s2)
      in if whole = [] then None
         else (case exponent_part s3 of
             None \<Rightarrow> Some (number_value neg whole frac None, s3)
           | Some (e, n) \<Rightarrow> Some (number_value neg whole frac (Some e), drop n s3)))"

definition json_atom :: "string \<Rightarrow> (json \<times> string) option" where
  "json_atom s =
     (if startswith s ''null'' then Some (JNull, drop 4 s)
      else if startswith s ''true'' then Some (JBool True, drop 4 s)
      else if startswith s ''false'' then Some (JBool False, drop 5 s)
      else if startswith s ''NaN'' then Some (JNan, drop 3 s)
      else if startswith s ''Infinity'' then Some (JInf True, drop 8 s)
      else if startswith s ''-Infinity'' then Some (JInf False, drop 9 s)
      else json_number s)"

fun json_value :: "nat \<Rightarrow> string \<Rightarrow> (json \<times> string) option"
  and json_elements :: "nat \<Rightarrow> json list \<Rightarrow> string \<Rightarrow> (json \<times> string) option"
  and json_members :: "nat \<Rightarrow> (nat list \<times> json) list \<Rightarrow> string \<Rightarrow> (json \<times> string) option" where
  "json_value 0 s = None"
| "json_value (Suc f) s =
     (if startswith s [CHR 0x22] then
        map_option (\<lambda>(ns, t). (JStr (join_surrogates ns), t)) (string_body (tl s))
      else if startswith s ''['' then
        (case skip_ws (tl s) of
           [] \<Rightarrow> None
         | c # r \<Rightarrow> if c = CHR '']'' then Some (JArr [], r) else json_elements f [] (c # r))
      else if startswith s ''{'' then
        (case skip_ws (tl s) of
           [] \<Rightarrow> None
         | c # r \<Rightarrow> if c = CHR ''}'' then Some (JObj [], r) else json_members f [] (c # r))
      else json_atom s)"
| "json_elements 0 acc s = None"
| "json_elements (Suc f) acc s =
     (case json_value f s of
        None \<Rightarrow> None
      | Some (v, t) \<Rightarrow>
          (case skip_ws t of
             [] \<Rightarrow> None
           | c # r \<Rightarrow>
               if c = CHR '']'' then Some (JArr (acc @ [v]), r)
               else if c = CHR '','' then json_elements f (acc @ [v]) (skip_ws r)
               else None))"
| "json_members 0 acc s = None"
| "json_members (Suc f) acc s =
     (if \<not> startswith s [CHR 0x22] then None
      else (case string_body (tl s) of
        None \<Rightarrow> None
      | Some (ns, t) \<Rightarrow>
          (case skip_ws t of
             [] \<Rightarrow> None
           | colon # t' \<Rightarrow>
               if colon \<noteq> CHR '':'' then None
               else (case json_value f (skip_ws t') of
                 None \<Rightarrow> None
               | Some (v, u) \<Rightarrow>
                   (case skip_ws u of
                      [] \<Rightarrow> None
                    | c # r \<Rightarrow>
                        if c = CHR ''}'' then Some (JObj (dict_put (join_surrogates ns) v acc), r)
                        else if c = CHR '','' then json_members f (dict_put (join_surrogates ns) v acc) (skip_ws r)
                        else None)))))"

definition json_loads :: "string \<Rightarrow> json option" where
  "json_loads s =
     (case json_value (2 * length s + 2) (skip_ws s) of
        Some (v, t) \<Rightarrow> if skip_ws t = [] then Some v else None
      | None \<Rightarrow> None)"

section \<open>Encoding\<close>

text \<open>
  A value as text, with the whitespace \<open>sp\<close> after every comma and colon: \<open>json.dumps\<close> prints one
  blank, the C benchmarks print none. A float has three decimals, as the benchmarks print times.
  It is used to state what decoding gives back, on the values \<open>plain_json\<close>: ASCII strings, and
  floats that three decimals denote.
\<close>

definition esc_char :: "nat \<Rightarrow> string" where
  "esc_char n =
     (if n = 0x22 then [CHR 0x5C, CHR 0x22] else if n = 0x5C then [CHR 0x5C, CHR 0x5C]
      else if n = 10 then [CHR 0x5C, CHR ''n''] else if n = 13 then [CHR 0x5C, CHR ''r'']
      else if n = 9 then [CHR 0x5C, CHR ''t''] else if n = 12 then [CHR 0x5C, CHR ''f'']
      else if n = 8 then [CHR 0x5C, CHR ''b'']
      else if n < 32 \<or> n = 127 then [CHR 0x5C, CHR ''u'', CHR ''0'', CHR ''0'', hex_digit (n div 16), hex_digit (n mod 16)]
      else [char_of n])"

definition dump_string :: "nat list \<Rightarrow> string" where
  "dump_string ns = [CHR 0x22] @ concat (map esc_char ns) @ [CHR 0x22]"

fun json_text :: "string \<Rightarrow> json \<Rightarrow> string" where
  "json_text sp (JBool b) = (if b then ''true'' else ''false'')"
| "json_text sp (JInt i) = str_int i"
| "json_text sp (JFloat r) = fixed 3 r"
| "json_text sp (JStr ns) = dump_string ns"
| "json_text sp (JArr vs) = ''['' @ join ('','' @ sp) (map (json_text sp) vs) @ '']''"
| "json_text sp (JObj kvs) =
     ''{'' @ join ('','' @ sp) (map (\<lambda>(k, v). dump_string k @ '':'' @ sp @ json_text sp v) kvs) @ ''}''"
| "json_text sp _ = ''null''"

definition ascii :: "nat list \<Rightarrow> bool" where
  "ascii ns = list_all (\<lambda>n. n < 128) ns"

fun plain_json :: "json \<Rightarrow> bool" where
  "plain_json (JStr ns) = ascii ns"
| "plain_json (JArr vs) = list_all plain_json vs"
| "plain_json (JObj kvs) = (list_all (\<lambda>(k, v). ascii k \<and> plain_json v) kvs \<and> distinct (map fst kvs))"
| "plain_json (JFloat r) = (0 \<le> r \<and> fl (of_int (round_even (r * 1000)) / 1000) = r)"
| "plain_json JNan = False"
| "plain_json (JInf b) = False"
| "plain_json _ = True"

section \<open>Decimal numbers\<close>

lemma py_digit_char: "n < 10 \<Longrightarrow> py_digit (char_of (48 + n :: nat))"
proof -
  have "list_all (\<lambda>n. py_digit (char_of (48 + n :: nat))) [0..<10]" by code_simp
  then show "n < 10 \<Longrightarrow> ?thesis" by (simp add: list_all_iff)
qed

lemma digits_of_digits: "list_all py_digit (digits_of n)"
  by (induction n rule: digits_of.induct) (subst digits_of.simps, simp add: py_digit_char)

lemma digits_of_nonempty [simp]: "digits_of n \<noteq> []"
  by (subst digits_of.simps) simp

lemma val_digits_snoc: "val_digits (s @ [c]) = 10 * val_digits s + (int (of_char c) - 48)"
  by (simp add: val_digits_def)

lemma val_digits_of [simp]: "val_digits (digits_of n) = int n"
proof (induction n rule: digits_of.induct)
  case (1 n)
  show ?case
  proof (cases "n < 10")
    case True
    then show ?thesis by (subst digits_of.simps) (simp add: val_digits_def)
  next
    case False
    then show ?thesis using 1 by (subst digits_of.simps) (simp add: val_digits_snoc zdiv_int zmod_int)
  qed
qed

lemma digits_of_lead: "digits_of n = CHR ''0'' # s \<Longrightarrow> n = 0"
proof (induction n arbitrary: s rule: digits_of.induct)
  case (1 n)
  show ?case
  proof (cases "n < 10")
    case True
    then have "(of_char (char_of (48 + n) :: char) :: nat) = of_char CHR ''0''"
      using 1(2) by (subst (asm) digits_of.simps) simp
    then show ?thesis using True by simp
  next
    case False
    then obtain s' where "digits_of (n div 10) = CHR ''0'' # s'"
      using 1(2) by (subst (asm) digits_of.simps) (auto simp: append_eq_Cons_conv)
    then show ?thesis using 1(1) [OF False] False by simp
  qed
qed

section \<open>Decoding inverts encoding\<close>

lemma hex_digits: "n < 16 \<Longrightarrow> hex_value4 (hex_digit n) = Some n"
proof -
  assume "n < 16"
  have "map hex_value4 (map hex_digit [0..<16]) = map Some [0..<16]" by code_simp
  then have "map hex_value4 (map hex_digit [0..<16]) ! n = map Some [0..<16] ! n" by (rule arg_cong)
  then show ?thesis using \<open>n < 16\<close> by simp
qed

declare string_body.simps [simp del]

lemma plain_char:
  assumes "n < 128" "n \<notin> {0x22, 0x5C}"
  shows "(of_char (char_of n :: char) :: nat) = n \<and> char_of n \<noteq> CHR 0x22 \<and> char_of n \<noteq> CHR 0x5C"
proof -
  have of_n: "(of_char (char_of n :: char) :: nat) = n" using assms(1) by simp
  have "char_of n \<noteq> c" if "of_char c \<noteq> n" for c :: char using that of_n by metis
  from this [of "CHR 0x22"] this [of "CHR 0x5C"] show ?thesis using assms(2) of_n by simp
qed

lemma string_body_esc:
  assumes "n < 128"
  shows "string_body (esc_char n @ s) = map_option (\<lambda>(ns, t). (n # ns, t)) (string_body s)"
proof -
  consider (simple) "n \<in> {0x22, 0x5C, 10, 13, 9, 12, 8}"
    | (hex) "n \<notin> {0x22, 0x5C, 10, 13, 9, 12, 8}" "n < 32 \<or> n = 127"
    | (plain) "n \<notin> {0x22, 0x5C}" "32 \<le> n" "n \<noteq> 127" by force
  then show ?thesis
  proof cases
    case simple
    then show ?thesis by (auto simp: esc_char_def simple_escape_def string_body.simps(2) [of "CHR 0x5C"])
  next
    case hex
    have "hex4 (CHR ''0'' # CHR ''0'' # hex_digit (n div 16) # hex_digit (n mod 16) # s) = Some n"
      using assms by (simp add: hex4_def hex_digits hex_value4_def [of "CHR ''0''"] py_digit_def)
    then show ?thesis using hex by (auto simp: esc_char_def string_body.simps(2) [of "CHR 0x5C"])
  next
    case plain
    then show ?thesis using plain_char [OF assms plain(1)]
      by (simp add: esc_char_def string_body.simps(2) [of "char_of n"])
  qed
qed

lemma string_body_dump: "ascii ns \<Longrightarrow> string_body (tl (dump_string ns @ t)) = Some (ns, t)"
proof (induction ns)
  case Nil
  then show ?case by (simp add: dump_string_def string_body.simps)
next
  case (Cons n ns)
  then show ?case using string_body_esc [of n] by (simp add: dump_string_def ascii_def)
qed

lemma join_surrogates_ascii: "ascii ns \<Longrightarrow> join_surrogates ns = ns"
  by (induction ns rule: join_surrogates.induct) (auto simp: ascii_def)

lemma dump_string_head: "\<exists>r. dump_string ns = CHR 0x22 # r"
  by (simp add: dump_string_def)

text \<open>What may follow a number.\<close>

definition number_ends :: "string \<Rightarrow> bool" where
  "number_ends t \<longleftrightarrow> t = [] \<or> (\<not> py_digit (hd t) \<and> hd t \<notin> {CHR ''.'', CHR ''e'', CHR ''E''})"

lemma int_digits_of:
  assumes "t = [] \<or> \<not> py_digit (hd t)"
  shows "int_digits (digits_of n @ t) = digits_of n"
proof -
  have digits: "takeWhile py_digit (digits_of n @ t) = digits_of n"
    using assms digits_of_digits [of n] by (cases t) (auto simp: takeWhile_append list_all_iff)
  show ?thesis
  proof (cases "startswith (digits_of n @ t) ''0''")
    case True
    then have "n = 0" using digits_of_lead [of n] by (cases "digits_of n") (auto simp: startswith_def)
    moreover have "digits_of 0 = ''0''" by code_simp
    ultimately show ?thesis using True by (simp add: int_digits_def)
  qed (simp add: int_digits_def digits)
qed

lemma number_ends_stop:
  assumes "number_ends t"
  shows "frac_digits t = []" "exponent_part t = None" "t = [] \<or> \<not> py_digit (hd t)"
  using assms by (cases t; auto simp: number_ends_def frac_digits_def exponent_part_def startswith_def)+

lemma digit_head: "\<exists>c r. digits_of n = c # r \<and> py_digit c"
  using digits_of_digits [of n] by (cases "digits_of n") auto

lemma digits_no_sign: "\<not> startswith (digits_of n @ t) ''-''"
proof -
  obtain c r where "digits_of n = c # r" "py_digit c" using digit_head by blast
  then show ?thesis by (auto simp: startswith_def py_digit_def)
qed

lemma json_number_int:
  assumes "number_ends t"
  shows "json_number (str_int i @ t) = Some (JInt i, t)"
proof -
  have sign: "startswith (CHR ''-'' # s) ''-''" for s by (simp add: startswith_def)
  show ?thesis
    by (cases "i < 0") (simp_all add: json_number_def number_value_def str_int_def Let_def sign digits_no_sign
        int_digits_of [OF number_ends_stop(3) [OF assms]] number_ends_stop [OF assms])
qed

text \<open>The three decimals of a float.\<close>

definition decimals :: "nat \<Rightarrow> string" where
  "decimals n = pad_zeros 3 (digits_of n)"

lemma decimals_1000:
  assumes "n < 1000"
  shows "list_all py_digit (decimals n) \<and> length (decimals n) = 3 \<and> val_digits (decimals n) = int n"
proof -
  have zeros: "val_digits (replicate k CHR ''0'' @ s) = val_digits s" for k s
    by (induction k) (simp_all add: val_digits_def)
  have "length (digits_of n) \<le> 3"
  proof -
    have "n < 10 \<or> n div 10 < 10 \<or> n div 10 div 10 < 10" using assms by linarith
    then show ?thesis by (auto simp: digits_of.simps [of n] digits_of.simps [of "n div 10"] digits_of.simps [of "n div 10 div 10"])
  qed
  moreover have "list_all py_digit (replicate k CHR ''0'')" for k by (simp add: list_all_iff py_digit_def)
  ultimately show ?thesis
    using digits_of_digits [of n] by (simp add: decimals_def pad_zeros_def zeros)
qed

lemma val_digits_append: "val_digits (s @ t) = val_digits s * 10 ^ length t + val_digits t"
proof (induction t rule: rev_induct)
  case (snoc c t)
  then show ?case unfolding append_assoc [symmetric] val_digits_snoc by (simp add: algebra_simps)
qed (simp add: val_digits_def)

lemma fixed_3:
  assumes "0 \<le> r"
  shows "fixed 3 r = digits_of (nat (round_even (r * 1000)) div 1000) @ ''.'' @ decimals (nat (round_even (r * 1000)) mod 1000)"
  using assms by (simp add: fixed_def fixed_abs_def decimals_def Let_def)

lemma round_even_nonneg:
  assumes "0 \<le> x"
  shows "0 \<le> round_even x"
proof -
  have "0 \<le> \<lfloor>x\<rfloor>" using assms by simp
  then show ?thesis by (auto simp: round_even_def Let_def)
qed

lemma json_number_float:
  assumes "number_ends t" "plain_json (JFloat r)"
  shows "json_number (fixed 3 r @ t) = Some (JFloat r, t)"
proof -
  define k where "k = nat (round_even (r * 1000))"
  have r: "0 \<le> r" "fl (of_int (int k) / 1000) = r"
    using assms(2) round_even_nonneg [of "r * 1000"] by (simp_all add: k_def)
  let ?w = "digits_of (k div 1000)" and ?d = "decimals (k mod 1000)"
  have whole: "fixed 3 r @ t = ?w @ CHR ''.'' # ?d @ t" using fixed_3 [OF r(1)] by (simp add: k_def)
  have d: "list_all py_digit ?d" "length ?d = 3" "val_digits ?d = int (k mod 1000)"
    using decimals_1000 [of "k mod 1000"] by simp_all
  have "int_digits (?w @ CHR ''.'' # ?d @ t) = ?w" by (intro int_digits_of) (simp add: py_digit_def)
  moreover have "takeWhile py_digit (?d @ t) = ?d"
    using d(1) number_ends_stop(3) [OF assms(1)] by (cases t) (auto simp: takeWhile_append list_all_iff)
  then have "frac_digits (CHR ''.'' # ?d @ t) = ?d" by (simp add: frac_digits_def startswith_def)
  moreover have "?d \<noteq> []" using d(2) by auto
  moreover have "val_digits (?w @ ?d) = int k"
    using d arg_cong [OF div_mult_mod_eq [of k 1000], of int] by (simp only: val_digits_append val_digits_of of_nat_add of_nat_mult)
      simp
  ultimately show ?thesis
    using r(2) d(2) unfolding whole
    by (simp add: json_number_def number_value_def rat_power10_def Let_def digits_no_sign number_ends_stop [OF assms(1)])
qed

text \<open>No encoded value starts with whitespace or a closing bracket.\<close>

definition value_start :: "string \<Rightarrow> bool" where
  "value_start s \<longleftrightarrow> s \<noteq> [] \<and> \<not> json_ws (hd s) \<and> hd s \<notin> {CHR '']'', CHR ''}''}"

lemma value_start_append: "value_start s \<Longrightarrow> value_start (s @ t)"
  by (auto simp: value_start_def)

lemma value_start_skip: "value_start s \<Longrightarrow> skip_ws s = s \<and> \<not> startswith s '']'' \<and> \<not> startswith s ''}''"
  by (cases s) (auto simp: value_start_def skip_ws_def startswith_def)

lemma value_start_Cons: "value_start s \<Longrightarrow> \<exists>c r. s = c # r \<and> skip_ws s = c # r \<and> c \<noteq> CHR '']'' \<and> c \<noteq> CHR ''}''"
  by (cases s) (auto simp: value_start_def skip_ws_def)

lemma str_int_start: "value_start (str_int i)"
proof -
  obtain c r where "digits_of (nat i) = c # r" "py_digit c" using digit_head by blast
  then show ?thesis by (auto simp: str_int_def value_start_def json_ws_def py_digit_def)
qed

lemma json_text_start: "value_start (json_text sp j)"
proof (cases j)
  case (JInt i)
  then show ?thesis by (simp add: str_int_start)
next
  case (JFloat r)
  obtain c u where "digits_of (nat (round_even (\<bar>r\<bar> * 10 ^ 3)) div 10 ^ 3) = c # u" "py_digit c" using digit_head by blast
  then show ?thesis by (auto simp: JFloat fixed_def fixed_abs_def Let_def value_start_def json_ws_def py_digit_def)
qed (auto simp: value_start_def json_ws_def dump_string_def)

lemma json_atom_number:
  assumes "s = c # r" "py_digit c \<or> (c = CHR ''-'' \<and> r \<noteq> [] \<and> py_digit (hd r))"
  shows "json_atom s = json_number s \<and> \<not> startswith s [CHR 0x22] \<and> \<not> startswith s ''['' \<and> \<not> startswith s ''{''"
proof -
  have "\<not> startswith (c # r) (k # ks)" if "k \<notin> set ''0123456789-''" for k ks
    using that assms(2) by (auto simp: startswith_def py_digit_def)
  moreover have "\<not> startswith (c # r) ''-Infinity''"
    using assms(2) by (cases r) (auto simp: startswith_def py_digit_def)
  ultimately show ?thesis unfolding assms(1) by (simp add: json_atom_def)
qed

lemma json_value_int:
  assumes "number_ends t"
  shows "json_value (Suc f) (str_int i @ t) = Some (JInt i, t)"
proof -
  obtain c r where c: "str_int i @ t = c # r" "py_digit c \<or> (c = CHR ''-'' \<and> r \<noteq> [] \<and> py_digit (hd r))"
    using digit_head [of "nat i"] digit_head [of "nat (- i)"] by (cases "i < 0") (auto simp: str_int_def)
  show ?thesis using json_atom_number [OF c] json_number_int [OF assms] by simp
qed

lemma json_value_float:
  assumes "number_ends t" "plain_json (JFloat r)"
  shows "json_value (Suc f) (fixed 3 r @ t) = Some (JFloat r, t)"
proof -
  obtain c u where c: "fixed 3 r @ t = c # u" "py_digit c"
    using digit_head [of "nat (round_even (r * 1000)) div 1000"] assms(2) by (auto simp: fixed_3)
  show ?thesis using json_atom_number [OF c(1)] c(2) json_number_float [OF assms] by simp
qed

lemma skip_ws_other: "\<not> json_ws c \<Longrightarrow> skip_ws (c # s) = c # s"
  by (simp add: skip_ws_def)

lemma starts_simps [simp]: "startswith (c # s) [d] \<longleftrightarrow> c = d" "\<not> startswith [] [d]"
  by (auto simp: startswith_def)

lemma dict_put_new: "k \<notin> fst ` set d \<Longrightarrow> dict_put k v d = d @ [(k, v)]"
  by (induction d) auto

definition decodes :: "string \<Rightarrow> json \<Rightarrow> bool" where
  "decodes sp j \<longleftrightarrow> (\<forall>f t. 2 * length (json_text sp j) \<le> f \<longrightarrow> number_ends t \<longrightarrow>
     json_value f (json_text sp j @ t) = Some (j, t))"

definition dump_member :: "string \<Rightarrow> nat list \<times> json \<Rightarrow> string" where
  "dump_member sp = (\<lambda>(k, v). dump_string k @ '':'' @ sp @ json_text sp v)"

lemma member_start: "value_start (dump_member sp kv)"
  by (cases kv) (auto simp: dump_member_def dump_string_def value_start_def json_ws_def)

text \<open>Any layout whose separators are followed by whitespace decodes to the same value.\<close>

locale json_layout =
  fixes sp :: string
  assumes blank_sp: "list_all json_ws sp"
begin

lemma skip_ws_sp: "skip_ws (sp @ s) = skip_ws s"
  using blank_sp by (auto simp: skip_ws_def list_all_iff dropWhile_append)

lemma decodes_elements:
  assumes "list_all (decodes sp) vs" "vs \<noteq> []" "2 * length (join ('','' @ sp) (map (json_text sp) vs)) + 1 \<le> f"
  shows "json_elements f acc (join ('','' @ sp) (map (json_text sp) vs) @ CHR '']'' # t) = Some (JArr (acc @ vs), t)"
  using assms
proof (induction vs arbitrary: f acc)
  case (Cons v vs)
  then obtain g where f: "f = Suc g" by (cases f) auto
  have bracket: "number_ends (CHR '']'' # t)" "number_ends (CHR '','' # u)" for u
    by (auto simp: number_ends_def py_digit_def)
  show ?case
  proof (cases vs)
    case Nil
    have "json_value g (json_text sp v @ CHR '']'' # t) = Some (v, CHR '']'' # t)"
      using Cons.prems Nil bracket(1) by (auto simp: decodes_def f)
    then show ?thesis by (simp add: f Nil skip_ws_other json_ws_def)
  next
    case (Cons v' vs')
    let ?rest = "join ('','' @ sp) (map (json_text sp) vs) @ CHR '']'' # t"
    have len: "length (join ('','' @ sp) (map (json_text sp) (v # vs))) = length (json_text sp v) + Suc (length sp) + length (join ('','' @ sp) (map (json_text sp) vs))"
      by (simp add: Cons)
    have "json_value g (json_text sp v @ ('','' @ sp) @ ?rest) = Some (v, ('','' @ sp) @ ?rest)"
      using Cons.prems len bracket(2) by (auto simp: decodes_def f)
    moreover have "value_start ?rest"
      using json_text_start [of sp v'] by (cases vs') (auto simp: Cons intro: value_start_append)
    moreover have "json_elements g (acc @ [v]) ?rest = Some (JArr (acc @ v # vs), t)"
      using Cons.IH [of g "acc @ [v]"] Cons.prems len by (simp add: f Cons)
    ultimately show ?thesis
      using value_start_skip [of ?rest] by (simp add: f Cons skip_ws_other json_ws_def skip_ws_sp)
  qed
qed simp

lemma decodes_member:
  assumes "decodes sp v" "ascii k" "2 * length (dump_member sp (k, v)) + 1 \<le> Suc g" "number_ends u"
  shows "json_members (Suc g) acc (dump_member sp (k, v) @ u) =
    (case skip_ws u of
       [] \<Rightarrow> None
     | c # r \<Rightarrow>
         if c = CHR ''}'' then Some (JObj (dict_put k v acc), r)
         else if c = CHR '','' then json_members g (dict_put k v acc) (skip_ws r)
         else None)"
proof -
  have start: "startswith (dump_string k @ w) [CHR 0x22]" for w by (simp add: dump_string_def startswith_def)
  have body: "string_body (tl (dump_string k @ w)) = Some (k, w)" for w using string_body_dump [OF assms(2)] .
  have "skip_ws (json_text sp v @ u) = json_text sp v @ u"
    using value_start_skip [OF value_start_append [OF json_text_start]] by blast
  moreover have "json_value g (json_text sp v @ u) = Some (v, u)"
    using assms by (auto simp: decodes_def dump_member_def)
  ultimately show ?thesis
    by (simp add: dump_member_def start body skip_ws_other skip_ws_sp json_ws_def join_surrogates_ascii [OF assms(2)] split: list.split)
qed

lemma decodes_members:
  assumes "list_all (\<lambda>(k, v). ascii k \<and> decodes sp v) kvs" "kvs \<noteq> []" "distinct (map fst (acc @ kvs))"
    "2 * length (join ('','' @ sp) (map (dump_member sp) kvs)) + 1 \<le> f"
  shows "json_members f acc (join ('','' @ sp) (map (dump_member sp) kvs) @ CHR ''}'' # t) = Some (JObj (acc @ kvs), t)"
  using assms
proof (induction kvs arbitrary: f acc)
  case (Cons kv kvs)
  obtain k v where kv: "kv = (k, v)" by fastforce
  obtain g where f: "f = Suc g" using Cons.prems(4) by (cases f) auto
  have ends: "number_ends (CHR ''}'' # t)" "number_ends (CHR '','' # u)" for u
    by (auto simp: number_ends_def py_digit_def)
  have put: "dict_put k v acc = acc @ [(k, v)]" using Cons.prems(3) by (intro dict_put_new) (auto simp: kv)
  show ?case
  proof (cases kvs)
    case Nil
    then show ?thesis
      using decodes_member [of v k g "CHR ''}'' # t" acc] ends(1) Cons.prems
      by (simp add: f kv put skip_ws_other json_ws_def)
  next
    case (Cons kv' kvs')
    let ?rest = "join ('','' @ sp) (map (dump_member sp) kvs) @ CHR ''}'' # t"
    have len: "length (join ('','' @ sp) (map (dump_member sp) (kv # kvs))) = length (dump_member sp (k, v)) + Suc (length sp) + length (join ('','' @ sp) (map (dump_member sp) kvs))"
      by (simp add: Cons kv)
    have "value_start ?rest"
      using member_start [of sp kv'] by (cases kvs') (auto simp: Cons intro: value_start_append)
    moreover have "json_members g (acc @ [(k, v)]) ?rest = Some (JObj (acc @ kv # kvs), t)"
      using Cons.IH [of "acc @ [(k, v)]" g] Cons.prems len by (simp add: f kv Cons)
    ultimately show ?thesis
      using decodes_member [of v k g "('','' @ sp) @ ?rest" acc] ends(2) Cons.prems len value_start_skip [of ?rest]
      by (simp add: f kv Cons put skip_ws_other json_ws_def skip_ws_sp)
  qed
qed simp

lemma decodes_plain: "plain_json j \<Longrightarrow> decodes sp j"
proof (induction j)
  case (JArr vs)
  then have vs: "list_all (decodes sp) vs" by (simp add: list_all_iff)
  show ?case
    unfolding decodes_def
  proof (intro allI impI)
    fix f t
    assume f: "2 * length (json_text sp (JArr vs)) \<le> f"
    then obtain g where g: "f = Suc g" by (cases f) auto
    show "json_value f (json_text sp (JArr vs) @ t) = Some (JArr vs, t)"
    proof (cases vs)
      case (Cons v vs')
      have "value_start (join ('','' @ sp) (map (json_text sp) vs) @ CHR '']'' # t)"
        using json_text_start [of sp v] by (cases vs') (auto simp: Cons intro: value_start_append)
      moreover have "json_elements g [] (join ('','' @ sp) (map (json_text sp) vs) @ CHR '']'' # t) = Some (JArr vs, t)"
        using decodes_elements [OF vs, of g "[]" t] f by (simp add: g Cons)
      ultimately show ?thesis using value_start_Cons by (fastforce simp: g)
    qed (simp add: g skip_ws_other json_ws_def)
  qed
next
  case (JObj kvs)
  then have kvs: "list_all (\<lambda>(k, v). ascii k \<and> decodes sp v) kvs" "distinct (map fst kvs)"
    by (force simp: list_all_iff)+
  have dump: "json_text sp (JObj kvs) = ''{'' @ join ('','' @ sp) (map (dump_member sp) kvs) @ ''}''"
    by (simp add: dump_member_def)
  show ?case
    unfolding decodes_def
  proof (intro allI impI)
    fix f t
    assume f: "2 * length (json_text sp (JObj kvs)) \<le> f"
    then obtain g where g: "f = Suc g" by (cases f) auto
    show "json_value f (json_text sp (JObj kvs) @ t) = Some (JObj kvs, t)"
    proof (cases kvs)
      case (Cons kv kvs')
      have "value_start (join ('','' @ sp) (map (dump_member sp) kvs) @ CHR ''}'' # t)"
        using member_start [of sp kv] by (cases kvs') (auto simp: Cons intro: value_start_append)
      moreover have "json_members g [] (join ('','' @ sp) (map (dump_member sp) kvs) @ CHR ''}'' # t) = Some (JObj kvs, t)"
        using decodes_members [OF kvs(1), of "[]" g t] kvs(2) f unfolding dump by (simp add: g Cons)
      ultimately show ?thesis using value_start_Cons unfolding dump by (fastforce simp: g)
    qed (simp add: g skip_ws_other json_ws_def)
  qed
next
  case (JInt i)
  show ?case
    unfolding decodes_def
  proof (intro allI impI)
    fix f t
    assume "2 * length (json_text sp (JInt i)) \<le> f" "number_ends t"
    moreover have "json_text sp (JInt i) \<noteq> []" using json_text_start value_start_def by blast
    ultimately show "json_value f (json_text sp (JInt i) @ t) = Some (JInt i, t)"
      using json_value_int [of t] by (cases f) auto
  qed
next
  case (JFloat r)
  show ?case
    unfolding decodes_def
  proof (intro allI impI)
    fix f t
    assume "2 * length (json_text sp (JFloat r)) \<le> f" "number_ends t"
    moreover have "json_text sp (JFloat r) \<noteq> []" using json_text_start value_start_def by blast
    ultimately show "json_value f (json_text sp (JFloat r) @ t) = Some (JFloat r, t)"
      using json_value_float [of t r] JFloat by (cases f) auto
  qed
next
  case (JStr ns)
  then have ns: "ascii ns" by simp
  show ?case
    unfolding decodes_def
  proof (intro allI impI)
    fix f t
    assume "2 * length (json_text sp (JStr ns)) \<le> f"
    moreover have "json_text sp (JStr ns) \<noteq> []" using json_text_start value_start_def by blast
    moreover have "startswith (dump_string ns @ t) [CHR 0x22]" by (simp add: dump_string_def startswith_def)
    ultimately show "json_value f (json_text sp (JStr ns) @ t) = Some (JStr ns, t)"
      using string_body_dump [OF ns, of t] join_surrogates_ascii [OF ns] by (cases f) auto
  qed
next
  case JNull
  show ?case unfolding decodes_def
    by (intro allI impI, case_tac f) (auto simp: json_atom_def startswith_def)
next
  case (JBool b)
  show ?case unfolding decodes_def
    by (cases b; intro allI impI; case_tac f) (auto simp: json_atom_def startswith_def)
qed simp_all

lemma json_loads_text:
  assumes "plain_json j" "list_all json_ws t"
  shows "json_loads (json_text sp j @ t) = Some j"
proof -
  have "skip_ws (json_text sp j @ t) = json_text sp j @ t"
    using value_start_skip [OF value_start_append [OF json_text_start]] by blast
  moreover have "number_ends t" using assms(2) by (cases t) (auto simp: number_ends_def json_ws_def py_digit_def)
  then have "json_value (2 * length (json_text sp j @ t) + 2) (json_text sp j @ t) = Some (j, t)"
    using decodes_plain [OF assms(1), unfolded decodes_def] by (simp del: json_value.simps)
  moreover have "skip_ws t = []" using assms(2) by (simp add: skip_ws_def list_all_iff)
  ultimately show ?thesis by (simp add: json_loads_def)
qed

end

interpretation compact: json_layout "[]"
  by unfold_locales simp

interpretation spaced: json_layout "'' ''"
  by unfold_locales (simp add: json_ws_def)

end
