(* ===== verification/Object_Scan.thy ===== *)
theory Object_Scan
  imports Py_Json
begin

text \<open>
  The balanced-brace scan that \<open>_extract_json\<close> (llm.py) and \<open>parse_output\<close> (benchmark.py) share:
  from every opening brace of a text, the shortest slice whose braces balance outside strings is
  offered to a reader, until the reader answers. A decoded text of code points becomes a
  \<open>string\<close> by \<open>text_of\<close>, which is exact below 256. The lemmas show that the slice offered at the
  start of an encoded object is that object, and that the first answer is the scan's.
\<close>

section \<open>Decoded texts\<close>

definition text_of :: "nat list \<Rightarrow> string" where
  "text_of ns = map char_of ns"

definition codes :: "string \<Rightarrow> nat list" where
  "codes s = map of_char s"

definition json_get :: "(nat list \<times> json) list \<Rightarrow> string \<Rightarrow> json option" where
  "json_get d k = map_of d (codes k)"

section \<open>The scan\<close>

text \<open>
  The loop over the characters: the depth, whether it is in a string, whether the last character
  was an escape. The result is the number of characters up to the brace that closes the object.
\<close>

fun object_len :: "nat \<Rightarrow> bool \<Rightarrow> bool \<Rightarrow> string \<Rightarrow> nat option" where
  "object_len depth in_string escape [] = None"
| "object_len depth in_string escape (ch # s) =
     (if in_string then
        (if escape then map_option Suc (object_len depth True False s)
         else if ch = CHR 0x5C then map_option Suc (object_len depth True True s)
         else map_option Suc (object_len depth (ch \<noteq> CHR 0x22) False s))
      else if ch = CHR 0x22 then map_option Suc (object_len depth True escape s)
      else if ch = CHR ''{'' then map_option Suc (object_len (depth + 1) False escape s)
      else if ch = CHR ''}'' then
        (if depth - 1 = 0 then Some 1 else map_option Suc (object_len (depth - 1) False escape s))
      else map_option Suc (object_len depth False escape s))"

fun scan_objects :: "(string \<Rightarrow> 'a option) \<Rightarrow> string \<Rightarrow> 'a option" where
  "scan_objects read [] = None"
| "scan_objects read (ch # s) =
     (if ch = CHR ''{'' then
        (case object_len 0 False False (ch # s) of
           Some n \<Rightarrow> (case read (take n (ch # s)) of Some x \<Rightarrow> Some x | None \<Rightarrow> scan_objects read s)
         | None \<Rightarrow> scan_objects read s)
      else scan_objects read s)"

lemma scan_objects_sound:
  assumes "scan_objects read s = Some x"
  shows "\<exists>t. sublist (CHR ''{'' # t) s \<and> read (CHR ''{'' # t) = Some x"
  using assms
proof (induction s)
  case (Cons ch s)
  show ?case
  proof (cases "scan_objects read s = Some x")
    case True
    then show ?thesis using Cons.IH by (meson sublist_Cons_right)
  next
    case False
    then obtain n where n: "ch = CHR ''{''" "object_len 0 False False (ch # s) = Some n" "read (take n (ch # s)) = Some x"
      using Cons.prems by (auto split: if_splits option.splits)
    then obtain m where "n = Suc m" by (auto split: if_splits)
    then show ?thesis using n sublist_take [of n "ch # s"] by (intro exI [of _ "take m s"]) simp
  qed
qed simp

section \<open>The scan passes over encoded values\<close>

text \<open>Counting \<open>n\<close> characters more.\<close>

definition advance :: "nat \<Rightarrow> nat option \<Rightarrow> nat option" where
  "advance n = map_option ((+) n)"

lemma advance_simps [simp]:
  "advance 0 x = x" "advance m (advance n x) = advance (m + n) x" "advance n (Some k) = Some (n + k)"
  by (cases x; simp add: advance_def)+

lemma advance_Suc: "map_option Suc x = advance (Suc 0) x"
  by (cases x; simp add: advance_def)

text \<open>The loop, outside and inside a string.\<close>

lemma object_len_other:
  "c \<notin> {CHR 0x22, CHR ''{'', CHR ''}''} \<Longrightarrow> object_len d False False (c # s) = advance 1 (object_len d False False s)"
  by (simp add: advance_Suc)

lemma object_len_special:
  "object_len d False False (CHR 0x22 # s) = advance 1 (object_len d True False s)"
  "object_len d False False (CHR ''{'' # s) = advance 1 (object_len (Suc d) False False s)"
  "object_len (Suc (Suc d)) False False (CHR ''}'' # s) = advance 1 (object_len (Suc d) False False s)"
  "object_len (Suc 0) False False (CHR ''}'' # s) = Some 1"
  by (simp_all add: advance_Suc)

lemma object_len_in_string:
  "c \<notin> {CHR 0x22, CHR 0x5C} \<Longrightarrow> object_len d True False (c # s) = advance 1 (object_len d True False s)"
  "object_len d True False (CHR 0x5C # c # s) = advance (Suc (Suc 0)) (object_len d True False s)"
  "object_len d True False (CHR 0x22 # s) = advance 1 (object_len d False False s)"
  by (simp_all add: advance_Suc)

declare object_len.simps [simp del]

definition balanced :: "string \<Rightarrow> bool" where
  "balanced s \<longleftrightarrow> (\<forall>d t. object_len (Suc d) False False (s @ t) = advance (length s) (object_len (Suc d) False False t))"

lemma balanced_Nil [simp]: "balanced []"
  by (simp add: balanced_def)

lemma balanced_append: "balanced s \<Longrightarrow> balanced t \<Longrightarrow> balanced (s @ t)"
  by (simp add: balanced_def)

lemma balanced_chr: "c \<notin> {CHR 0x22, CHR ''{'', CHR ''}''} \<Longrightarrow> balanced [c]"
  by (simp add: balanced_def object_len_other)

lemma balanced_chrs: "list_all p s \<Longrightarrow> \<not> p (CHR 0x22) \<Longrightarrow> \<not> p (CHR ''{'') \<Longrightarrow> \<not> p (CHR ''}'') \<Longrightarrow> balanced s"
proof (induction s)
  case (Cons c s)
  then have "balanced s" by simp
  moreover have "c \<notin> {CHR 0x22, CHR ''{'', CHR ''}''}" using Cons.prems by auto
  then have "balanced [c]" by (rule balanced_chr)
  ultimately show ?case using balanced_append [of "[c]" s] by simp
qed simp

lemma balanced_join: "balanced sep \<Longrightarrow> list_all balanced ss \<Longrightarrow> balanced (join sep ss)"
  by (induction sep ss rule: join.induct) (simp_all add: balanced_append)

lemma object_len_braces:
  assumes "balanced s"
  shows "object_len 0 False False (CHR ''{'' # s @ CHR ''}'' # t) = Some (length s + 2)"
    and "object_len (Suc d) False False (CHR ''{'' # s @ CHR ''}'' # t) =
      advance (length s + 2) (object_len (Suc d) False False t)"
  using assms by (simp_all add: balanced_def object_len_special)

lemma balanced_braces: "balanced s \<Longrightarrow> balanced (CHR ''{'' # s @ ''}'')"
  using object_len_braces(2) by (simp add: balanced_def [of "CHR ''{'' # s @ ''}''"])

lemma esc_char_in_string:
  assumes "n < 128"
  shows "object_len d True False (esc_char n @ s) = advance (length (esc_char n)) (object_len d True False s)"
proof -
  consider (simple) "n \<in> {0x22, 0x5C, 10, 13, 9, 12, 8}"
    | (hex) "n \<notin> {0x22, 0x5C, 10, 13, 9, 12, 8}" "n < 32 \<or> n = 127"
    | (plain) "n \<notin> {0x22, 0x5C, 10, 13, 9, 12, 8}" "32 \<le> n" "n \<noteq> 127" by force
  then show ?thesis
  proof cases
    case simple
    then show ?thesis by (auto simp: esc_char_def object_len_in_string)
  next
    case hex
    have "list_all (\<lambda>k. hex_digit k \<noteq> CHR 0x22 \<and> hex_digit k \<noteq> CHR 0x5C) [0..<16]" by code_simp
    then have "hex_digit k \<noteq> CHR 0x22 \<and> hex_digit k \<noteq> CHR 0x5C" if "k < 16" for k
      using that by (simp add: list_all_iff)
    from this [of "n div 16"] this [of "n mod 16"] show ?thesis
      using hex assms by (auto simp: esc_char_def object_len_in_string)
  next
    case plain
    then have "esc_char n = [char_of n]" by (simp add: esc_char_def)
    then show ?thesis using plain_char [OF assms] plain(1) by (simp add: object_len_in_string)
  qed
qed

lemma balanced_string:
  assumes "ascii ns"
  shows "balanced (dump_string ns)"
proof -
  have "object_len d True False (concat (map esc_char ns) @ s) =
      advance (length (concat (map esc_char ns))) (object_len d True False s)" for d s
    using assms by (induction ns) (simp_all add: ascii_def esc_char_in_string)
  then show ?thesis by (simp add: balanced_def dump_string_def object_len_special object_len_in_string)
qed

lemma balanced_digits: "list_all py_digit s \<Longrightarrow> balanced s"
  by (erule balanced_chrs) (simp_all add: py_digit_def)

lemma balanced_int: "balanced (str_int i)"
proof -
  have "balanced (digits_of n)" for n by (intro balanced_digits digits_of_digits)
  moreover have "balanced ''-''" by (intro balanced_chr) simp
  ultimately show ?thesis using balanced_append by (fastforce simp: str_int_def)
qed

lemma balanced_float:
  assumes "0 \<le> r"
  shows "balanced (fixed 3 r)"
proof -
  have "balanced (decimals (n mod 1000))" for n using decimals_1000 [of "n mod 1000"] by (intro balanced_digits) simp
  moreover have "balanced ''.''" by (intro balanced_chr) simp
  ultimately show ?thesis unfolding fixed_3 [OF assms]
    using balanced_append balanced_digits [OF digits_of_digits] by blast
qed

lemma balanced_brackets: "balanced s \<Longrightarrow> balanced (''['' @ s @ '']'')"
  by (intro balanced_append balanced_chr) simp_all

lemma balanced_sep:
  assumes "c \<notin> {CHR 0x22, CHR ''{'', CHR ''}''}" "list_all json_ws sp"
  shows "balanced (c # sp)"
proof -
  have "balanced sp" using assms(2) by (rule balanced_chrs) (simp_all add: json_ws_def)
  from balanced_append [OF balanced_chr [OF assms(1)] this] show ?thesis by simp
qed

lemma balanced_member:
  assumes "balanced (json_text sp v)" "ascii k" "list_all json_ws sp"
  shows "balanced (dump_string k @ '':'' @ sp @ json_text sp v)"
proof -
  have "balanced (CHR '':'' # sp)" using balanced_sep [OF _ assms(3)] by simp
  from balanced_append [OF balanced_string [OF assms(2)] balanced_append [OF this assms(1)]] show ?thesis by simp
qed

lemma balanced_members:
  assumes "\<And>k v. (k, v) \<in> set kvs \<Longrightarrow> balanced (json_text sp v) \<and> ascii k" "list_all json_ws sp"
  shows "list_all balanced (map (\<lambda>(k, v). dump_string k @ '':'' @ sp @ json_text sp v) kvs)"
  unfolding list_all_iff
proof
  fix s
  assume "s \<in> set (map (\<lambda>(k, v). dump_string k @ '':'' @ sp @ json_text sp v) kvs)"
  then obtain k v where "(k, v) \<in> set kvs" "s = dump_string k @ '':'' @ sp @ json_text sp v" by auto
  then show "balanced s" using balanced_member [OF _ _ assms(2)] assms(1) by blast
qed

lemma balanced_list:
  assumes "list_all balanced ss" "list_all json_ws sp"
  shows "balanced (join ('','' @ sp) ss)"
  using assms balanced_sep [of "CHR '',''" sp] by (simp add: balanced_join)

lemma balanced_text:
  assumes "plain_json j" "list_all json_ws sp"
  shows "balanced (json_text sp j)"
  using assms(1)
proof (induction j)
  case (JArr vs)
  then have "list_all balanced (map (json_text sp) vs)" by (auto simp: list_all_iff)
  from balanced_brackets [OF balanced_list [OF this assms(2)]] show ?case by simp
next
  case (JObj kvs)
  have "balanced (json_text sp v) \<and> ascii k" if "(k, v) \<in> set kvs" for k v
    using JObj that by (fastforce simp: list_all_iff)
  from balanced_members [OF this assms(2)]
  have "list_all balanced (map (\<lambda>(k, v). dump_string k @ '':'' @ sp @ json_text sp v) kvs)" .
  from balanced_braces [OF balanced_list [OF this assms(2)]] show ?case by simp
next
  case (JBool b)
  then show ?case by (auto intro!: balanced_chrs [of "\<lambda>c. c \<in> set ''truefals''"])
qed (simp_all add: balanced_string balanced_int balanced_float balanced_chrs [of "\<lambda>c. c \<in> set ''null''"])

lemma object_len_text:
  assumes "plain_json (JObj kvs)" "list_all json_ws sp"
  shows "object_len 0 False False (json_text sp (JObj kvs) @ t) = Some (length (json_text sp (JObj kvs)))"
proof -
  have "balanced (json_text sp v) \<and> ascii k" if "(k, v) \<in> set kvs" for k v
    using assms(1) that balanced_text [OF _ assms(2)] by (fastforce simp: list_all_iff)
  from balanced_members [OF this assms(2)]
  have "list_all balanced (map (\<lambda>(k, v). dump_string k @ '':'' @ sp @ json_text sp v) kvs)" .
  from object_len_braces(1) [OF balanced_list [OF this assms(2)]] show ?thesis by simp
qed

section \<open>Readers of objects\<close>

text \<open>
  A reader of slices that answers \<open>wanted d\<close> on the text of an object. The scan then finds the
  first wanted object of a text, whatever follows it, if no brace precedes it.
\<close>

locale object_reader =
  fixes read :: "string \<Rightarrow> 'a option" and wanted :: "(nat list \<times> json) list \<Rightarrow> 'a option"
  assumes read_text: "plain_json (JObj d) \<Longrightarrow> list_all json_ws sp \<Longrightarrow> read (json_text sp (JObj d)) = wanted d"
begin

lemma scan_finds:
  assumes "plain_json (JObj d)" "list_all json_ws sp" "CHR ''{'' \<notin> set pre" "wanted d = Some x"
  shows "scan_objects read (pre @ json_text sp (JObj d) @ post) = Some x"
  using assms(3)
proof (induction pre)
  case (Cons c pre)
  then have "c \<noteq> CHR ''{''" "scan_objects read (pre @ json_text sp (JObj d) @ post) = Some x" by auto
  then show ?case by (simp del: json_text.simps)
next
  case Nil
  obtain u where u: "json_text sp (JObj d) = CHR ''{'' # u" by simp
  show ?case using object_len_text [OF assms(1,2), of post] read_text [OF assms(1,2)] assms(4) by (simp add: u)
qed

end

section \<open>Objects and prose\<close>

text \<open>A text that starts with a brace decodes to an object, or not at all.\<close>

lemma json_members_object: "json_members f acc s = Some (v, t) \<Longrightarrow> \<exists>d. v = JObj d"
proof (induction f arbitrary: acc s)
  case (Suc f)
  then show ?case by (auto split: if_splits option.splits list.splits)
qed simp

lemma json_loads_object:
  assumes "json_loads (CHR ''{'' # s) = Some v"
  shows "\<exists>d. v = JObj d"
proof -
  have "skip_ws (CHR ''{'' # s) = CHR ''{'' # s" by (intro skip_ws_other) (simp add: json_ws_def)
  then obtain f t where "json_value (Suc f) (CHR ''{'' # s) = Some (v, t)"
    using assms by (auto simp: json_loads_def simp del: json_value.simps split: option.splits if_splits)
  then show ?thesis using json_members_object
    by (auto split: if_splits list.splits)
qed

text \<open>
  Prose before an object: what a number or a word of the prose takes leaves the brace behind, so
  the whole text does not decode.
\<close>

lemma mem_drop: "c \<in> set s \<Longrightarrow> c \<notin> set (take n s) \<Longrightarrow> c \<in> set (drop n s)"
  by (metis Un_iff append_take_drop_id set_append)

lemma brace_digits: "list_all py_digit s \<Longrightarrow> CHR ''{'' \<notin> set s"
proof -
  have "\<not> py_digit CHR ''{''" by (simp add: py_digit_def)
  then show "list_all py_digit s \<Longrightarrow> ?thesis" unfolding list_all_iff by blast
qed

lemma takeWhile_digits: "list_all py_digit (takeWhile py_digit s)"
  by (auto simp: list_all_iff dest: set_takeWhileD)

lemma mem_drop_prefix: "prefix p s \<Longrightarrow> c \<in> set s \<Longrightarrow> c \<notin> set p \<Longrightarrow> c \<in> set (drop (length p) s)"
  by (auto simp: prefix_def)

lemma int_digits_prefix: "prefix (int_digits s) s \<and> list_all py_digit (int_digits s)"
  using takeWhile_is_prefix takeWhile_digits by (auto simp: int_digits_def startswith_def py_digit_def)

lemma frac_brace:
  assumes "CHR ''{'' \<in> set s" "frac_digits s \<noteq> []"
  shows "CHR ''{'' \<in> set (drop (Suc (length (frac_digits s))) s)"
proof -
  obtain t where t: "s = CHR ''.'' # t" "frac_digits s = takeWhile py_digit t"
    using assms(2) by (cases s) (auto simp: frac_digits_def startswith_def split: if_splits)
  then show ?thesis using assms(1) mem_drop_prefix [OF takeWhile_is_prefix, of "CHR ''{''" t py_digit]
      brace_digits [OF takeWhile_digits [of t]] by auto
qed

lemma exponent_brace:
  assumes "CHR ''{'' \<in> set s" "exponent_part s = Some (e, n)"
  shows "CHR ''{'' \<in> set (drop n s)"
proof -
  obtain c t where s: "s = c # t" "c = CHR ''e'' \<or> c = CHR ''E''"
    using assms(2) by (cases s) (auto simp: exponent_part_def split: if_splits)
  let ?signed = "startswith t ''-'' \<or> startswith t ''+''"
  let ?u = "if ?signed then tl t else t"
  have n: "n = length (takeWhile py_digit ?u) + (if ?signed then 2 else 1)"
    using assms(2) s by (auto simp: exponent_part_def Let_def split: if_splits)
  have "CHR ''{'' \<in> set ?u" using assms(1) s by (cases t) (auto simp: startswith_def)
  then have "CHR ''{'' \<in> set (drop (length (takeWhile py_digit ?u)) ?u)"
    by (rule mem_drop_prefix [OF takeWhile_is_prefix]) (rule brace_digits [OF takeWhile_digits])
  moreover have "drop n s = drop (length (takeWhile py_digit ?u)) ?u"
    using s(1) n by (cases t) (auto simp: startswith_def)
  ultimately show ?thesis by simp
qed

lemma json_number_brace:
  assumes "CHR ''{'' \<in> set s" "json_number s = Some (v, t)"
  shows "CHR ''{'' \<in> set t"
proof -
  define s1 where "s1 = (if startswith s ''-'' then tl s else s)"
  define s2 where "s2 = drop (length (int_digits s1)) s1"
  define s3 where "s3 = (if frac_digits s2 = [] then s2 else drop (Suc (length (frac_digits s2))) s2)"
  have "CHR ''{'' \<in> set s1" using assms(1) by (cases s) (auto simp: s1_def startswith_def)
  then have "CHR ''{'' \<in> set s2"
    unfolding s2_def using int_digits_prefix [of s1] mem_drop_prefix [OF _ _ brace_digits] by simp
  then have s3: "CHR ''{'' \<in> set s3" using frac_brace by (auto simp: s3_def)
  have "t = s3 \<or> (\<exists>e n. exponent_part s3 = Some (e, n) \<and> t = drop n s3)"
    using assms(2) unfolding json_number_def Let_def s1_def [symmetric] s2_def [symmetric] s3_def [symmetric]
    by (cases "exponent_part s3") (auto split: if_splits)
  then show ?thesis using s3 exponent_brace by blast
qed

lemma json_atom_brace:
  assumes "CHR ''{'' \<in> set s" "json_atom s = Some (v, t)"
  shows "CHR ''{'' \<in> set t"
proof -
  have word: "CHR ''{'' \<in> set (drop n s)" if "startswith s p" "length p = n" "CHR ''{'' \<notin> set p" for p n
    using mem_drop_prefix that assms(1) by (auto simp: startswith_def)
  have "startswith s ''null'' \<Longrightarrow> CHR ''{'' \<in> set (drop 4 s)" "startswith s ''true'' \<Longrightarrow> CHR ''{'' \<in> set (drop 4 s)"
    "startswith s ''false'' \<Longrightarrow> CHR ''{'' \<in> set (drop 5 s)" "startswith s ''NaN'' \<Longrightarrow> CHR ''{'' \<in> set (drop 3 s)"
    "startswith s ''Infinity'' \<Longrightarrow> CHR ''{'' \<in> set (drop 8 s)"
    "startswith s ''-Infinity'' \<Longrightarrow> CHR ''{'' \<in> set (drop 9 s)"
    by (erule word; simp)+
  then show ?thesis
    using assms(2) json_number_brace [OF assms(1), of v t] unfolding json_atom_def
    by (simp split: if_splits)
qed

definition prose :: "string \<Rightarrow> bool" where
  "prose s \<longleftrightarrow> (\<forall>c \<in> set s. c \<noteq> CHR 0x22 \<and> c \<noteq> CHR ''['' \<and> c \<noteq> CHR ''{'')"

lemma json_loads_prose:
  assumes "prose pre" "\<not> list_all json_ws pre"
  shows "json_loads (pre @ CHR ''{'' # s) = None"
proof -
  let ?s = "pre @ CHR ''{'' # s"
  obtain c u where u: "skip_ws ?s = c # u" "c \<in> set pre" "CHR ''{'' \<in> set (c # u)"
  proof -
    obtain a c b where ab: "pre = a @ c # b" "list_all json_ws a" "\<not> json_ws c"
      using assms(2) split_list_first_prop [of pre "\<lambda>c. \<not> json_ws c"] by (auto simp: list_all_iff)
    then have "skip_ws ?s = c # b @ CHR ''{'' # s" by (simp add: skip_ws_def list_all_iff dropWhile_append2)
    then show thesis using that ab(1) by simp
  qed
  have brace: "CHR ''{'' \<in> set t" if "json_value f (c # u) = Some (v, t)" for f v t
    using that u assms(1) json_atom_brace [of "c # u" v t] by (cases f) (auto simp: prose_def)
  have "skip_ws t \<noteq> []" if "CHR ''{'' \<in> set t" for t
    using that by (auto simp: skip_ws_def json_ws_def)
  then show ?thesis using brace u(1) by (auto simp: json_loads_def simp del: json_value.simps split: option.splits)
qed

end
