(* ===== verification/Bench_Run.thy ===== *)
theory Bench_Run
  imports Object_Scan Py_Regex
begin

text \<open>
  The benchmark runner, benchmark.py, and the counters of perf.py: what is read from the output of
  a benchmark program (a JSON object with \<open>runtime_ns\<close>, else \<open>RESULT_NS=\<close>, else the wall-clock
  time), and the median over the rounds. What a run of the program answers (success, output,
  nanoseconds elapsed) is an argument. A \<open>float\<close> is a \<open>pyfloat\<close>; a conversion that overflows is
  left out, as \<open>Py_Float\<close> has no bound on the exponent, and texts are ASCII.
\<close>

section \<open>Floats with infinities and NaN\<close>

datatype pyfloat = NInf | Fin rat | PInf | Nan

text \<open>Python's order on the values other than NaN, which is put last.\<close>

instantiation pyfloat :: linorder
begin

definition less_eq_pyfloat :: "pyfloat \<Rightarrow> pyfloat \<Rightarrow> bool" where
  "less_eq_pyfloat a b \<longleftrightarrow>
     (case a of NInf \<Rightarrow> True | Nan \<Rightarrow> b = Nan | PInf \<Rightarrow> b = PInf \<or> b = Nan
      | Fin x \<Rightarrow> (case b of NInf \<Rightarrow> False | Fin y \<Rightarrow> x \<le> y | _ \<Rightarrow> True))"

definition less_pyfloat :: "pyfloat \<Rightarrow> pyfloat \<Rightarrow> bool" where
  "less_pyfloat a b \<longleftrightarrow> a \<le> b \<and> \<not> b \<le> (a :: pyfloat)"

instance
  by intro_classes (auto simp: less_eq_pyfloat_def less_pyfloat_def split: pyfloat.splits)

end

fun pf_add :: "pyfloat \<Rightarrow> pyfloat \<Rightarrow> pyfloat" where
  "pf_add (Fin x) (Fin y) = Fin (fl (x + y))"
| "pf_add Nan b = Nan"
| "pf_add a Nan = Nan"
| "pf_add PInf b = (if b = NInf then Nan else PInf)"
| "pf_add NInf b = (if b = PInf then Nan else NInf)"
| "pf_add (Fin x) b = b"

fun pf_neg :: "pyfloat \<Rightarrow> pyfloat" where
  "pf_neg (Fin x) = Fin (- x)"
| "pf_neg PInf = NInf"
| "pf_neg NInf = PInf"
| "pf_neg Nan = Nan"

text \<open>Quotient by a positive finite number.\<close>

definition pf_div :: "pyfloat \<Rightarrow> rat \<Rightarrow> pyfloat" where
  "pf_div a k = (case a of Fin x \<Rightarrow> Fin (fl (x / k)) | _ \<Rightarrow> a)"

text \<open>\<open>float(s)\<close>: blanks around it, a sign, digits that single underscores may separate.\<close>

fun no_underscores :: "char \<Rightarrow> string \<Rightarrow> string option" where
  "no_underscores p [] = (if p = CHR ''_'' then None else Some [])"
| "no_underscores p (c # s) =
     (if c = CHR ''_'' then (if py_digit p then no_underscores c s else None)
      else if p = CHR ''_'' \<and> \<not> py_digit c then None
      else map_option ((#) c) (no_underscores c s))"

definition unsigned_float :: "string \<Rightarrow> pyfloat option" where
  "unsigned_float s =
     (if lower s \<in> {''inf'', ''infinity''} then Some PInf
      else if lower s = ''nan'' then Some Nan
      else
        let whole = takeWhile py_digit s; r = drop (length whole) s;
            point = startswith r ''.''; decs = (if point then takeWhile py_digit (tl r) else []);
            r = (if point then drop (Suc (length decs)) r else r);
            value = of_int (val_digits (whole @ decs)) / 10 ^ length decs
        in if whole @ decs = [] then None
           else (case exponent_part r of
               None \<Rightarrow> if r = [] then Some (Fin (fl value)) else None
             | Some (e, n) \<Rightarrow> if drop n r = [] then Some (Fin (fl (value * rat_power10 e))) else None))"

definition float_text :: "string \<Rightarrow> pyfloat option" where
  "float_text s =
     (case no_underscores CHR '' '' (strip s) of
        None \<Rightarrow> None
      | Some t \<Rightarrow>
          if startswith t ''-'' then map_option pf_neg (unsigned_float (tl t))
          else if startswith t ''+'' then unsigned_float (tl t)
          else unsigned_float t)"

text \<open>\<open>float(v)\<close> of a decoded value; \<open>None\<close> is a \<open>TypeError\<close> or \<open>ValueError\<close>.\<close>

definition float_of :: "json \<Rightarrow> pyfloat option" where
  "float_of j =
     (case j of JInt i \<Rightarrow> Some (Fin (fl (of_int i))) | JFloat r \<Rightarrow> Some (Fin r) | JNan \<Rightarrow> Some Nan
      | JInf b \<Rightarrow> Some (if b then PInf else NInf) | JBool b \<Rightarrow> Some (Fin (if b then 1 else 0))
      | JStr ns \<Rightarrow> float_text (text_of ns) | _ \<Rightarrow> None)"

section \<open>A measurement\<close>

record bench_result =
  br_runtime_ns :: pyfloat
  br_cycles :: "pyfloat option"
  br_instructions :: "pyfloat option"
  br_branches :: "pyfloat option"
  br_branch_misses :: "pyfloat option"
  br_l1_misses :: "pyfloat option"
  br_extra :: "(nat list \<times> json) list"
  br_rounds :: nat
  br_raw_output :: string

definition COUNTER_KEYS :: "string list" where
  "COUNTER_KEYS = [''cycles'', ''instructions'', ''branches'', ''branch_misses'', ''l1_misses'']"

definition new_result :: "pyfloat \<Rightarrow> string \<Rightarrow> bench_result" where
  "new_result runtime output = \<lparr>br_runtime_ns = runtime, br_cycles = None, br_instructions = None, br_branches = None,
     br_branch_misses = None, br_l1_misses = None, br_extra = [], br_rounds = 0, br_raw_output = output\<rparr>"

definition get_counter :: "bench_result \<Rightarrow> string \<Rightarrow> pyfloat option" where
  "get_counter b key =
     (if key = ''cycles'' then br_cycles b else if key = ''instructions'' then br_instructions b
      else if key = ''branches'' then br_branches b else if key = ''branch_misses'' then br_branch_misses b
      else if key = ''l1_misses'' then br_l1_misses b else None)"

definition set_counter :: "string \<Rightarrow> pyfloat \<Rightarrow> bench_result \<Rightarrow> bench_result" where
  "set_counter key v b =
     (if key = ''cycles'' then b\<lparr>br_cycles := Some v\<rparr> else if key = ''instructions'' then b\<lparr>br_instructions := Some v\<rparr>
      else if key = ''branches'' then b\<lparr>br_branches := Some v\<rparr>
      else if key = ''branch_misses'' then b\<lparr>br_branch_misses := Some v\<rparr>
      else if key = ''l1_misses'' then b\<lparr>br_l1_misses := Some v\<rparr> else b)"

definition merge_counters :: "bench_result \<Rightarrow> bench_result \<Rightarrow> bench_result" where
  "merge_counters self other =
     fold (\<lambda>key b. case get_counter other key of Some v \<Rightarrow> set_counter key v b | None \<Rightarrow> b) COUNTER_KEYS self"

text \<open>\<open>f"{x:8.nf}"\<close>.\<close>

definition fixed8 :: "nat \<Rightarrow> pyfloat \<Rightarrow> string" where
  "fixed8 n x =
     (let s = (case x of Fin r \<Rightarrow> fixed n r | PInf \<Rightarrow> ''inf'' | NInf \<Rightarrow> ''-inf'' | Nan \<Rightarrow> ''nan'')
      in replicate (8 - length s) CHR '' '' @ s)"

definition counter_line :: "string \<Rightarrow> pyfloat option \<Rightarrow> string list" where
  "counter_line label v = (case v of Some x \<Rightarrow> [label @ fixed8 1 x] | None \<Rightarrow> [])"

definition bench_evidence :: "bench_result \<Rightarrow> string" where
  "bench_evidence b = join [CHR 0x0A]
     ([''runtime             '' @ fixed8 2 (br_runtime_ns b) @ '' ns'']
      @ counter_line ''cycles              '' (br_cycles b)
      @ counter_line ''instructions        '' (br_instructions b)
      @ counter_line ''branches            '' (br_branches b)
      @ counter_line ''branch-misses       '' (br_branch_misses b)
      @ counter_line ''L1-dcache-misses    '' (br_l1_misses b))"

definition pf_json :: "pyfloat \<Rightarrow> json" where
  "pf_json x = (case x of Fin r \<Rightarrow> JFloat r | PInf \<Rightarrow> JInf True | NInf \<Rightarrow> JInf False | Nan \<Rightarrow> JNan)"

definition to_dict :: "bench_result \<Rightarrow> (string \<times> json) list" where
  "to_dict b = [(''runtime_ns'', pf_json (br_runtime_ns b))]
     @ concat (map (\<lambda>key. case get_counter b key of Some v \<Rightarrow> [(key, pf_json v)] | None \<Rightarrow> []) COUNTER_KEYS)
     @ [(''rounds'', JInt (int (br_rounds b)))]"

section \<open>Reading the output\<close>

datatype bench_error = BenchKeyError | BenchValueError | BenchAssertionError

definition from_dict :: "(nat list \<times> json) list \<Rightarrow> string \<Rightarrow> bench_error + bench_result" where
  "from_dict d output =
     (let b = fold (\<lambda>key b. case Option.bind (json_get d key) float_of of Some v \<Rightarrow> set_counter key v b | None \<Rightarrow> b)
            COUNTER_KEYS ((new_result Nan output)\<lparr>br_extra := d\<rparr>)
      in case json_get d ''runtime_ns'' of
           None \<Rightarrow> Inl BenchKeyError
         | Some v \<Rightarrow> Inr (b\<lparr>br_runtime_ns := (case float_of v of Some x \<Rightarrow> x | None \<Rightarrow> Nan)\<rparr>))"

definition RESULT_NS_RE :: rx where
  "RESULT_NS_RE = seqs [lit ''RESULT_NS'', Star ws, chr CHR ''='', Star ws,
     Grp 1 (rep1 (Cls (\<lambda>c. py_digit c \<or> c = CHR ''.'')))]"

definition measured_object :: "string \<Rightarrow> (nat list \<times> json) list option" where
  "measured_object s =
     (case json_loads s of
        Some (JObj d) \<Rightarrow> if json_get d ''runtime_ns'' \<noteq> None then Some d else None
      | _ \<Rightarrow> None)"

definition parse_output :: "string \<Rightarrow> pyfloat \<Rightarrow> bench_error + bench_result" where
  "parse_output output wall_ns =
     (case scan_objects measured_object output of
        Some d \<Rightarrow> from_dict d output
      | None \<Rightarrow>
          (case re_search RESULT_NS_RE output of
             Some g \<Rightarrow>
               (case float_text (group_str g 1) of
                  Some x \<Rightarrow> Inr (new_result x output)
                | None \<Rightarrow> Inl BenchValueError)
           | None \<Rightarrow> Inr (new_result wall_ns output)))"

section \<open>Rounds and their median\<close>

definition median :: "pyfloat list \<Rightarrow> pyfloat" where
  "median xs =
     (let d = sort xs; n = length xs
      in if odd n then d ! (n div 2) else pf_div (pf_add (d ! (n div 2 - 1)) (d ! (n div 2))) 2)"

fun bench_rounds :: "(bool \<times> string \<times> nat) list \<Rightarrow> pyfloat list \<Rightarrow> bench_result option
    \<Rightarrow> bench_error + (pyfloat list \<times> bench_result) option" where
  "bench_rounds [] samples prev =
     (case prev of None \<Rightarrow> Inl BenchAssertionError | Some b \<Rightarrow> Inr (Some (samples, b)))"
| "bench_rounds ((success, output, elapsed) # rs) samples prev =
     (if \<not> success then Inr None
      else case parse_output output (Fin (fl (of_nat elapsed))) of
          Inl e \<Rightarrow> Inl e
        | Inr measured \<Rightarrow>
            if br_runtime_ns measured = Nan then Inr None
            else bench_rounds rs (samples @ [br_runtime_ns measured]) (Some measured))"

definition bench_run :: "int \<Rightarrow> (nat \<Rightarrow> bool \<times> string \<times> nat) \<Rightarrow> bench_error + bench_result option" where
  "bench_run rounds answers =
     (case bench_rounds (map answers [0..<nat (max 1 rounds)]) [] None of
        Inl e \<Rightarrow> Inl e
      | Inr None \<Rightarrow> Inr None
      | Inr (Some (samples, final)) \<Rightarrow>
          Inr (Some (merge_counters ((new_result (median samples) (br_raw_output final))
            \<lparr>br_extra := br_extra final, br_rounds := length samples\<rparr>) final)))"

section \<open>Counters of perf\<close>

text \<open>
  What \<open>Perf.stat\<close> reads from the output of a successful run: the numbers of the decoded object,
  by event. With no brace in the output, \<open>find\<close> answers -1 and the last character is decoded.
\<close>

definition perf_decode :: "string \<Rightarrow> json option" where
  "perf_decode output =
     (case json_loads output of
        Some v \<Rightarrow> Some v
      | None \<Rightarrow>
          json_loads (case find_sub ''{'' output of Some i \<Rightarrow> drop i output | None \<Rightarrow> drop (length output - 1) output))"

definition perf_value :: "json \<Rightarrow> pyfloat option" where
  "perf_value j =
     (case j of
        JObj d \<Rightarrow> Option.bind (json_get d ''value'') float_of
      | JInt i \<Rightarrow> float_of j | JFloat r \<Rightarrow> float_of j | JNan \<Rightarrow> float_of j | JInf b \<Rightarrow> float_of j | JBool b \<Rightarrow> float_of j
      | _ \<Rightarrow> None)"

definition perf_stat :: "bool \<Rightarrow> string \<Rightarrow> (nat list \<times> pyfloat) list option" where
  "perf_stat success output =
     (if \<not> success then None
      else case perf_decode output of
          Some (JObj d) \<Rightarrow>
            (let counters = concat (map (\<lambda>(k, v). case perf_value v of Some x \<Rightarrow> [(k, x)] | None \<Rightarrow> []) d)
             in if counters = [] then None else Some counters)
        | _ \<Rightarrow> None)"

section \<open>Counters\<close>

lemma get_set_counter:
  "get_counter (set_counter k v b) k' = (if k = k' \<and> k \<in> set COUNTER_KEYS then Some v else get_counter b k')"
  by (simp add: get_counter_def set_counter_def COUNTER_KEYS_def)

lemma set_counter_other [simp]:
  "br_runtime_ns (set_counter k v b) = br_runtime_ns b" "br_extra (set_counter k v b) = br_extra b"
  "br_rounds (set_counter k v b) = br_rounds b" "br_raw_output (set_counter k v b) = br_raw_output b"
  by (simp_all add: set_counter_def)

text \<open>The loops over the keys: a key with a value gets it, the rest of the record stays.\<close>

lemma fold_counters:
  "get_counter (fold (\<lambda>k b. case f k of Some v \<Rightarrow> set_counter k v b | None \<Rightarrow> b) ks b) key =
    (if key \<in> set ks \<and> key \<in> set COUNTER_KEYS \<and> f key \<noteq> None then f key else get_counter b key)"
  by (induction ks arbitrary: b) (auto simp: get_set_counter split: option.splits)

lemma fold_counters_other:
  "br_runtime_ns (fold (\<lambda>k b. case f k of Some v \<Rightarrow> set_counter k v b | None \<Rightarrow> b) ks b) = br_runtime_ns b"
  "br_extra (fold (\<lambda>k b. case f k of Some v \<Rightarrow> set_counter k v b | None \<Rightarrow> b) ks b) = br_extra b"
  "br_rounds (fold (\<lambda>k b. case f k of Some v \<Rightarrow> set_counter k v b | None \<Rightarrow> b) ks b) = br_rounds b"
  "br_raw_output (fold (\<lambda>k b. case f k of Some v \<Rightarrow> set_counter k v b | None \<Rightarrow> b) ks b) = br_raw_output b"
  by (induction ks arbitrary: b) (auto split: option.splits)

lemma new_result_simps [simp]:
  "get_counter (new_result x s) key = None" "br_runtime_ns (new_result x s) = x" "br_raw_output (new_result x s) = s"
  "br_extra (new_result x s) = []" "br_rounds (new_result x s) = 0"
  by (simp_all add: new_result_def get_counter_def)

lemma get_counter_update [simp]:
  "get_counter (b\<lparr>br_runtime_ns := x\<rparr>) key = get_counter b key" "get_counter (b\<lparr>br_extra := d\<rparr>) key = get_counter b key"
  "get_counter (b\<lparr>br_rounds := n\<rparr>) key = get_counter b key"
  by (simp_all add: get_counter_def)

lemma from_dict_runtime:
  assumes "json_get d ''runtime_ns'' = Some v"
  shows "\<exists>b. from_dict d output = Inr b \<and> br_runtime_ns b = (case float_of v of Some x \<Rightarrow> x | None \<Rightarrow> Nan)
    \<and> br_extra b = d \<and> br_raw_output b = output
    \<and> (\<forall>key \<in> set COUNTER_KEYS. get_counter b key = Option.bind (json_get d key) float_of)"
  using assms by (simp add: from_dict_def Let_def fold_counters fold_counters_other)

section \<open>An object in the output\<close>

interpretation measured: object_reader measured_object "\<lambda>d. if json_get d ''runtime_ns'' \<noteq> None then Some d else None"
proof unfold_locales
  fix d sp
  assume d: "plain_json (JObj d)" "list_all json_ws sp"
  have "json_loads (json_text sp (JObj d)) = Some (JObj d)"
    using json_layout.json_loads_text [OF _ d(1), of sp "[]"] d(2) by (simp add: json_layout_def)
  then show "measured_object (json_text sp (JObj d)) = (if json_get d ''runtime_ns'' \<noteq> None then Some d else None)"
    by (simp add: measured_object_def del: json_text.simps)
qed


definition demo_object :: "(nat list \<times> json) list" where
  "demo_object = [(codes ''function'', JStr (codes ''memcpy'')), (codes ''cycles'', JInt 8),
     (codes ''sizes'', JObj [(codes ''16'', JInt 3)]), (codes ''runtime_ns'', JFloat (5 / 4))]"


section \<open>The median\<close>

lemma length_filter_sort: "length (filter p (sort xs)) = length (filter p xs)"
  by (simp add: filter_sort)

lemma below_nth_sorted:
  assumes "sorted d" "k < length d"
  shows "length (filter (\<lambda>x. x < d ! k) d) \<le> k" "length (filter (\<lambda>x. d ! k < x) d) \<le> length d - k - 1"
proof -
  have "filter (\<lambda>x. x < d ! k) (drop k d) = []" "filter (\<lambda>x. d ! k < x) (take (Suc k) d) = []"
    using assms by (auto simp: filter_empty_conv in_set_conv_nth not_less intro!: sorted_nth_mono)
  then have "filter (\<lambda>x. x < d ! k) d = filter (\<lambda>x. x < d ! k) (take k d)"
    "filter (\<lambda>x. d ! k < x) d = filter (\<lambda>x. d ! k < x) (drop (Suc k) d)"
    by (metis append_Nil2 append_take_drop_id filter_append) (metis append_Nil append_take_drop_id filter_append \<open>filter (\<lambda>x. d ! k < x) (take (Suc k) d) = []\<close>)
  then show "length (filter (\<lambda>x. x < d ! k) d) \<le> k" "length (filter (\<lambda>x. d ! k < x) d) \<le> length d - k - 1"
    using length_filter_le [of "\<lambda>x. x < d ! k" "take k d"] length_filter_le [of "\<lambda>x. d ! k < x" "drop (Suc k) d"] assms(2)
    by simp_all
qed

lemma median_odd:
  assumes "odd (length xs)"
  shows "median xs \<in> set xs \<and> 2 * length (filter (\<lambda>x. x < median xs) xs) < length xs
    \<and> 2 * length (filter (\<lambda>x. median xs < x) xs) < length xs"
proof -
  let ?d = "sort xs" and ?k = "length xs div 2"
  have k: "?k < length ?d" using assms by (cases xs) auto
  have m: "median xs = ?d ! ?k" using assms by (simp add: median_def Let_def)
  have "length (filter (\<lambda>x. x < ?d ! ?k) xs) \<le> ?k" "length (filter (\<lambda>x. ?d ! ?k < x) xs) \<le> length xs - ?k - 1"
    using below_nth_sorted [OF sorted_sort k] by (simp_all add: length_filter_sort)
  moreover have "?d ! ?k \<in> set xs" using nth_mem [OF k] by simp
  moreover have "length xs = 2 * ?k + 1" using assms by presburger
  ultimately show ?thesis unfolding m by linarith
qed

section \<open>A run\<close>

text \<open>What one successful, readable round contributes.\<close>

definition round_ok :: "bool \<times> string \<times> nat \<Rightarrow> bench_result \<Rightarrow> bool" where
  "round_ok = (\<lambda>(success, output, elapsed) b.
     success \<and> parse_output output (Fin (fl (of_nat elapsed))) = Inr b \<and> br_runtime_ns b \<noteq> Nan)"

lemma bench_rounds_some:
  assumes "bench_rounds rs samples prev = Inr (Some (xs, b))"
  shows "\<exists>bs. list_all2 round_ok rs bs \<and> xs = samples @ map br_runtime_ns bs \<and> Some b = (if bs = [] then prev else Some (last bs))"
  using assms
proof (induction rs samples prev rule: bench_rounds.induct)
  case (2 success out elapsed rs samples prev)
  then obtain m where m: "success" "parse_output out (Fin (fl (of_nat elapsed))) = Inr m" "br_runtime_ns m \<noteq> Nan"
      "bench_rounds rs (samples @ [br_runtime_ns m]) (Some m) = Inr (Some (xs, b))"
    by (auto split: if_splits sum.splits)
  then obtain bs where bs: "list_all2 round_ok rs bs" "xs = samples @ map br_runtime_ns (m # bs)"
      "Some b = (if bs = [] then Some m else Some (last bs))"
    using 2 by auto
  then show ?case using m by (intro exI [of _ "m # bs"]) (auto simp: round_ok_def)
qed (auto split: option.splits)

lemma bench_rounds_ok:
  assumes "list_all2 round_ok rs bs"
  shows "bench_rounds rs samples prev =
    (case if bs = [] then prev else Some (last bs) of None \<Rightarrow> Inl BenchAssertionError
     | Some b \<Rightarrow> Inr (Some (samples @ map br_runtime_ns bs, b)))"
  using assms
proof (induction rs bs arbitrary: samples prev rule: list_all2_induct)
  case (Cons r rs b bs)
  obtain success out elapsed where r: "r = (success, out, elapsed)" by (metis prod_cases3)
  show ?case using Cons by (auto simp: r round_ok_def)
qed (simp split: option.split)

definition run_result :: "bench_result list \<Rightarrow> bench_result" where
  "run_result bs = merge_counters
     ((new_result (median (map br_runtime_ns bs)) (br_raw_output (last bs)))
      \<lparr>br_extra := br_extra (last bs), br_rounds := length bs\<rparr>) (last bs)"

lemma bench_run_iff:
  "bench_run rounds answers = Inr (Some b) \<longleftrightarrow>
    (\<exists>bs. list_all2 round_ok (map answers [0..<nat (max 1 rounds)]) bs \<and> b = run_result bs)"
proof
  assume "bench_run rounds answers = Inr (Some b)"
  then obtain xs e where e: "bench_rounds (map answers [0..<nat (max 1 rounds)]) [] None = Inr (Some (xs, e))"
      "b = merge_counters ((new_result (median xs) (br_raw_output e))\<lparr>br_extra := br_extra e, br_rounds := length xs\<rparr>) e"
    by (auto simp: bench_run_def split: sum.splits option.splits)
  then obtain bs where bs: "list_all2 round_ok (map answers [0..<nat (max 1 rounds)]) bs" "xs = map br_runtime_ns bs"
      "Some e = (if bs = [] then None else Some (last bs))"
    using bench_rounds_some [OF e(1)] by auto
  then show "\<exists>bs. list_all2 round_ok (map answers [0..<nat (max 1 rounds)]) bs \<and> b = run_result bs"
    using e(2) by (intro exI [of _ bs]) (auto simp: run_result_def split: if_splits)
next
  assume "\<exists>bs. list_all2 round_ok (map answers [0..<nat (max 1 rounds)]) bs \<and> b = run_result bs"
  then obtain bs where bs: "list_all2 round_ok (map answers [0..<nat (max 1 rounds)]) bs" "b = run_result bs" by blast
  have "bs \<noteq> []" using list_all2_lengthD [OF bs(1)] by auto
  then show "bench_run rounds answers = Inr (Some b)"
    using bench_rounds_ok [OF bs(1), of "[]" None] bs(2) by (simp add: bench_run_def run_result_def)
qed

lemma merge_counters_runtime: "br_runtime_ns (merge_counters a b) = br_runtime_ns a"
  by (simp add: merge_counters_def fold_counters_other)

text \<open>
  C19. A benchmark run answers exactly when every one of its rounds (at least one) succeeds and is
  readable. The runtime it answers is the median of the rounds: with an odd number of rounds one
  of the measured values, fewer than half of them below it and fewer than half above, so that a
  minority of outliers cannot move it past the others. The counters are those of the last round.
\<close>

theorem bench_run_median:
  "bench_run rounds answers = Inr (Some b) \<longleftrightarrow>
    (\<exists>bs. list_all2 round_ok (map answers [0..<nat (max 1 rounds)]) bs \<and> b = run_result bs
      \<and> (odd (length bs) \<longrightarrow> br_runtime_ns b \<in> br_runtime_ns ` set bs
        \<and> 2 * length (filter (\<lambda>m. br_runtime_ns m < br_runtime_ns b) bs) < length bs
        \<and> 2 * length (filter (\<lambda>m. br_runtime_ns b < br_runtime_ns m) bs) < length bs))"
proof -
  have "br_runtime_ns (run_result bs) \<in> br_runtime_ns ` set bs
      \<and> 2 * length (filter (\<lambda>m. br_runtime_ns m < br_runtime_ns (run_result bs)) bs) < length bs
      \<and> 2 * length (filter (\<lambda>m. br_runtime_ns (run_result bs) < br_runtime_ns m) bs) < length bs" if "odd (length bs)" for bs
    using median_odd [of "map br_runtime_ns bs"] that
    by (simp add: run_result_def merge_counters_runtime filter_map o_def)
  then show ?thesis unfolding bench_run_iff by blast
qed

definition demo_line :: "string \<Rightarrow> bool \<times> string \<times> nat" where
  "demo_line t = (True, ''{'' @ [CHR 0x22] @ ''runtime_ns'' @ [CHR 0x22] @ '':'' @ t @ ''}'', 0)"

definition demo_answers :: "nat \<Rightarrow> bool \<times> string \<times> nat" where
  "demo_answers i = demo_line ([''2.000'', ''7.000'', ''2.500''] ! i)"

definition demo_result :: bench_result where
  "demo_result = (case bench_run 3 demo_answers of Inr (Some b) \<Rightarrow> b | _ \<Rightarrow> new_result Nan [])"

lemma demo_run: "bench_run 3 demo_answers = Inr (Some demo_result) \<and> br_runtime_ns demo_result = Fin (5 / 2)"
  by code_simp

lemma bench_run_median_witness:
  "\<exists>bs. list_all2 round_ok (map demo_answers [0..<nat (max 1 3)]) bs \<and> demo_result = run_result bs
      \<and> (odd (length bs) \<longrightarrow> br_runtime_ns demo_result \<in> br_runtime_ns ` set bs
        \<and> 2 * length (filter (\<lambda>m. br_runtime_ns m < br_runtime_ns demo_result) bs) < length bs
        \<and> 2 * length (filter (\<lambda>m. br_runtime_ns demo_result < br_runtime_ns m) bs) < length bs)"
  using demo_run bench_run_median [of 3 demo_answers demo_result] by blast

text \<open>A number that ends a sentence is not one \<open>float\<close> reads, and nothing catches its exception.\<close>

lemma result_ns_raises: "parse_output ''RESULT_NS=1.25.'' (Fin 1) = Inl BenchValueError"
  by code_simp

end
