(* ===== verification/Noise_Floor.thy ===== *)
theory Noise_Floor
  imports Bench_Run
begin

text \<open>
  The noise floor of a benchmark, measure_noise_floor.py: independent runs of one binary, the
  band between their first and last decile relative to the median, and the exit status. What the
  runs answer and whether the build succeeded are arguments; the description of the machine and
  the JSON file are output.
\<close>

section \<open>Arithmetic on floats\<close>

definition pf_sub :: "pyfloat \<Rightarrow> pyfloat \<Rightarrow> pyfloat" where
  "pf_sub a b = pf_add a (pf_neg b)"

text \<open>Product with a finite number that is not negative.\<close>

definition pf_scale :: "rat \<Rightarrow> pyfloat \<Rightarrow> pyfloat" where
  "pf_scale k a = (case a of Fin x \<Rightarrow> Fin (fl (k * x)) | _ \<Rightarrow> if k = 0 then Nan else a)"

text \<open>Quotient by a float other than zero.\<close>

definition pf_quot :: "pyfloat \<Rightarrow> pyfloat \<Rightarrow> pyfloat" where
  "pf_quot a b =
     (case b of
        Nan \<Rightarrow> Nan
      | Fin y \<Rightarrow> (case a of Fin x \<Rightarrow> Fin (fl (x / y)) | _ \<Rightarrow> if y < 0 then pf_neg a else a)
      | _ \<Rightarrow> (case a of Fin x \<Rightarrow> Fin 0 | _ \<Rightarrow> Nan))"

section \<open>Samples\<close>

datatype noise_error = SystemExit string | UsageError string | BenchFailure bench_error | StatisticsError

fun measure :: "nat \<Rightarrow> int \<Rightarrow> (bool \<times> string \<times> nat) list \<Rightarrow> pyfloat list \<Rightarrow> noise_error + pyfloat list" where
  "measure i rounds [] samples = Inr samples"
| "measure i rounds (a # as) samples =
     (case bench_run 1 (\<lambda>_. a) of
        Inl e \<Rightarrow> Inl (BenchFailure e)
      | Inr None \<Rightarrow> Inl (SystemExit (''benchmark failed on independent run '' @ str_nat (i + 1) @ ''/'' @ str_int rounds))
      | Inr (Some b) \<Rightarrow> measure (i + 1) rounds as (samples @ [br_runtime_ns b]))"

text \<open>\<open>statistics.quantiles(samples, n=10, method="inclusive")\<close>: the nine cut points.\<close>

definition decile :: "pyfloat list \<Rightarrow> nat \<Rightarrow> pyfloat" where
  "decile d i =
     (let k = i * (length d - 1); j = k div 10; delta = k mod 10
      in pf_div (pf_add (pf_scale (of_nat (10 - delta)) (d ! j)) (pf_scale (of_nat delta) (d ! (j + 1)))) 10)"

definition deciles :: "pyfloat list \<Rightarrow> pyfloat list" where
  "deciles xs = map (decile (sort xs)) [1..<10]"

record noise_report =
  nf_function :: string
  nf_floor_pct :: pyfloat
  nf_rounds :: int
  nf_median :: pyfloat
  nf_p10 :: pyfloat
  nf_p90 :: pyfloat
  nf_min :: pyfloat
  nf_max :: pyfloat

text \<open>\<open>round(x, 4)\<close>.\<close>

definition pf_round4 :: "pyfloat \<Rightarrow> pyfloat" where
  "pf_round4 a = (case a of Fin x \<Rightarrow> Fin (fl (of_int (round_even (x * 10000)) / 10000)) | _ \<Rightarrow> a)"

definition spread_pct :: "pyfloat list \<Rightarrow> pyfloat" where
  "spread_pct xs =
     (let mid = median xs;
          lo = Min (set xs); hi = Max (set xs);
          p10 = (if 10 \<le> length xs then hd (deciles xs) else lo);
          p90 = (if 10 \<le> length xs then last (deciles xs) else hi)
      in if mid \<noteq> Fin 0 then pf_scale 100 (pf_quot (pf_sub p90 p10) mid) else PInf)"

definition noise_report_of :: "string \<Rightarrow> int \<Rightarrow> pyfloat list \<Rightarrow> noise_report" where
  "noise_report_of function rounds xs =
     \<lparr>nf_function = function, nf_floor_pct = pf_round4 (spread_pct xs), nf_rounds = rounds, nf_median = median xs,
       nf_p10 = (if 10 \<le> length xs then hd (deciles xs) else Min (set xs)),
       nf_p90 = (if 10 \<le> length xs then last (deciles xs) else Max (set xs)),
       nf_min = Min (set xs), nf_max = Max (set xs)\<rparr>"

section \<open>The command\<close>

text \<open>\<open>spread_pct >= args.max_pct\<close>, false for NaN.\<close>

definition pf_at_least :: "rat \<Rightarrow> pyfloat \<Rightarrow> bool" where
  "pf_at_least m a \<longleftrightarrow> (case a of Fin x \<Rightarrow> m \<le> x | PInf \<Rightarrow> True | _ \<Rightarrow> False)"

definition noise_command :: "string \<Rightarrow> string option \<Rightarrow> string list \<Rightarrow> (string \<Rightarrow> string option) \<Rightarrow> noise_error + string \<times> string list" where
  "noise_command here function benchmark build =
     (if benchmark = [] \<and> (function = None \<or> function = Some []) then Inl (UsageError ''pass --function or --benchmark'')
      else
        let name = (case function of None \<Rightarrow> ''unknown'' | Some f \<Rightarrow> if f = [] then ''unknown'' else f)
        in if benchmark \<noteq> [] then Inr (name, benchmark)
           else (case build (''bench_'' @ name) of
               Some msg \<Rightarrow> Inl (SystemExit (''build failed for bench_'' @ name @ '':'' @ [CHR 0x0A] @ msg))
             | None \<Rightarrow> Inr (name, [here @ ''/_bench_bin/bench_'' @ name])))"

text \<open>The report that is written, and the exit status.\<close>

definition noise_main :: "string \<Rightarrow> string option \<Rightarrow> string list \<Rightarrow> (string \<Rightarrow> string option) \<Rightarrow> int \<Rightarrow> rat
    \<Rightarrow> (string list \<Rightarrow> nat \<Rightarrow> bool \<times> string \<times> nat) \<Rightarrow> noise_error + noise_report \<times> nat" where
  "noise_main here function benchmark build rounds max_pct answers =
     (case noise_command here function benchmark build of
        Inl e \<Rightarrow> Inl e
      | Inr (name, command) \<Rightarrow>
          (case measure 0 rounds (map (answers command) [0..<nat rounds]) [] of
             Inl e \<Rightarrow> Inl e
           | Inr samples \<Rightarrow>
               if samples = [] then Inl StatisticsError
               else Inr (noise_report_of name rounds samples, if pf_at_least max_pct (spread_pct samples) then 1 else 0)))"

section \<open>Trimming\<close>

lemma sort_snoc_max:
  assumes "\<forall>x \<in> set xs. x \<le> (y :: 'a :: linorder)"
  shows "sort (xs @ [y]) = sort xs @ [y]"
proof -
  have insort: "insort x (d @ [y]) = insort x d @ [y]" if "x \<le> y" for x d
    using that by (induction d) auto
  show ?thesis using assms by (induction xs) (auto simp: insort)
qed

lemma decile_trim:
  assumes "11 \<le> length d" "i < 10"
  shows "decile (d @ [y]) i = decile (d @ [z]) i"
proof -
  have "i * length d \<le> 9 * length d" using assms(2) by (intro mult_le_mono1) simp
  then have "i * length d div 10 + 1 < length d" using assms(1) by linarith
  then show ?thesis by (simp add: decile_def Let_def nth_append)
qed

lemma sorted_trim:
  assumes "11 \<le> length xs" "\<forall>x \<in> set xs. x \<le> y" "\<forall>x \<in> set xs. x \<le> z"
  shows "deciles (xs @ [y]) = deciles (xs @ [z])" "median (xs @ [y]) = median (xs @ [z])"
    "Min (set (xs @ [y])) = Min (set (xs @ [z]))" "Max (set (xs @ [y])) = y"
proof -
  have sorts: "sort (xs @ [y]) = sort xs @ [y]" "sort (xs @ [z]) = sort xs @ [z]"
    using sort_snoc_max assms(2,3) by blast+
  show "deciles (xs @ [y]) = deciles (xs @ [z])"
    unfolding deciles_def sorts using decile_trim [of "sort xs" _ y z] assms(1) by simp
  have "length xs div 2 < length xs" "Suc (length xs div 2) < length xs" "Suc 0 < length xs"
    using assms(1) by linarith+
  then show "median (xs @ [y]) = median (xs @ [z])" unfolding median_def sorts Let_def by (simp add: nth_append)
  have "xs \<noteq> []" using assms(1) by auto
  then have "Min (set xs) \<le> y" "Min (set xs) \<le> z" using assms(2,3) by auto
  then show "Min (set (xs @ [y])) = Min (set (xs @ [z]))" using \<open>xs \<noteq> []\<close> by (simp add: min_absorb2)
  show "Max (set (xs @ [y])) = y" using assms(2) by (intro Max_eqI) auto
qed

text \<open>
  C20. The trimmed band tolerates an outlier, as the header of the script asks: with twelve or more
  runs (the default is twenty), how slow the slowest run was has no influence on the median, on
  the two deciles or on the noise floor that is recorded.
\<close>

theorem outlier_ignored:
  assumes "11 \<le> length xs" "\<forall>x \<in> set xs. x \<le> y" "\<forall>x \<in> set xs. x \<le> z"
  shows "noise_report_of function rounds (xs @ [y]) = (noise_report_of function rounds (xs @ [z]))\<lparr>nf_max := y\<rparr>"
proof -
  have "10 \<le> length (xs @ [u])" for u using assms(1) by simp
  then have "spread_pct (xs @ [y]) = spread_pct (xs @ [z])"
    using sorted_trim [OF assms] unfolding spread_pct_def Let_def by simp
  then show ?thesis using sorted_trim [OF assms] assms(1) unfolding noise_report_of_def by simp
qed

lemma outlier_ignored_witness:
  "noise_report_of ''memcpy'' 12 (replicate 11 (Fin 2) @ [Fin 3]) =
    (noise_report_of ''memcpy'' 12 (replicate 11 (Fin 2) @ [PInf]))\<lparr>nf_max := Fin 3\<rparr>"
  by (rule outlier_ignored) (simp_all add: less_eq_pyfloat_def)

text \<open>
  A spread that is not a number is not at least the limit: the script reports success and records
  it. It arises from runs that report an infinite time.
\<close>

lemma nan_spread: "spread_pct (replicate 3 PInf) = Nan \<and> \<not> pf_at_least 2 (spread_pct (replicate 3 PInf))"
  by code_simp

end
