(* ===== verification/Harness_Cli.thy ===== *)
theory Harness_Cli
  imports Optimizer Bench_Run
begin

text \<open>
  The command line of the optimizer, arm-optimize.py: locating the source of a function, the default
  commands, the calibrated noise floor, and the decisions of \<open>main\<close> up to the optimizer it builds.
  The parsed arguments and what the environment answers (which files exist, their texts, which
  language models can be reached) are records. A path is a string; making it absolute is left out.
\<close>

section \<open>Sources\<close>

definition GLOBAL_NAME :: rx where
  "GLOBAL_NAME = seqs [GLOBAL_LINE,
     Grp 1 (rep1 (Cls (\<lambda>c. char_between CHR ''A'' CHR ''Z'' c \<or> char_between CHR ''a'' CHR ''z'' c \<or> py_digit c
       \<or> c = CHR ''_'' \<or> c = CHR ''.'')))]"

definition global_names :: "string \<Rightarrow> string list" where
  "global_names src = concat (map (\<lambda>l. case re_match GLOBAL_NAME l of Some g \<Rightarrow> [group_str g 1] | None \<Rightarrow> []) (nl_lines src))"

definition list_functions :: "string \<Rightarrow> string \<Rightarrow> string + string list" where
  "list_functions path src =
     (let functions = global_names src
      in if functions = [] then Inl (''no .global functions found in '' @ path) else Inr functions)"

text \<open>The files below \<open>src\<close>, sorted by path, with their text unless they cannot be read.\<close>

definition find_source_for_function :: "string \<Rightarrow> (string \<times> string option) list \<Rightarrow> string \<Rightarrow> string + string" where
  "find_source_for_function workdir files function =
     (let found = map fst (filter (\<lambda>(path, src). case src of None \<Rightarrow> False | Some s \<Rightarrow> search_lines (GLOBAL_OF function) s) files)
      in case found of
           [] \<Rightarrow> Inl (''could not find function '' @ py_repr function @ '' in '' @ workdir @ ''/src; pass --source to specify its file'')
         | [m] \<Rightarrow> Inr m
         | ms \<Rightarrow> Inl (''function '' @ py_repr function @ '' is defined in multiple files:'' @ [CHR 0x0A]
             @ join [CHR 0x0A] (map (\<lambda>m. ''  '' @ m) ms) @ [CHR 0x0A] @ ''pass --source to disambiguate''))"

section \<open>Defaults\<close>

record environment =
  en_exists :: "string \<Rightarrow> bool"
  en_text :: "string \<Rightarrow> string option"
  en_sources :: "(string \<times> string option) list"
  en_reachable :: "string list \<Rightarrow> bool"
  en_docs :: "string option list"

definition default_tests :: "environment \<Rightarrow> string \<Rightarrow> string list \<Rightarrow> string list" where
  "default_tests en function explicit =
     (if explicit \<noteq> [] then explicit
      else if en_exists en (''tests/unit/test_'' @ function @ ''.c'')
      then [''make -C tests/unit build && ./tests/unit/_obj/test_'' @ function]
      else [''make -C tests/unit test''])"

definition default_benchmark :: "environment \<Rightarrow> string \<Rightarrow> string list option" where
  "default_benchmark en function =
     (if en_exists en (''scripts/benchmarks/bench_'' @ function @ ''.c'')
      then Some [''make -s -C scripts/benchmarks bench_'' @ function, ''&&'',
        ''./scripts/benchmarks/_bench_bin/bench_'' @ function]
      else None)"

definition default_noise_floor :: "environment \<Rightarrow> string \<Rightarrow> pyfloat option" where
  "default_noise_floor en function =
     (let path = ''scripts/benchmarks/bench_'' @ function @ ''.noise.json''
      in if \<not> en_exists en path then None
         else case Option.bind (en_text en path) json_loads of
             Some (JObj d) \<Rightarrow> Option.bind (json_get d ''noise_floor_pct'') float_of
           | _ \<Rightarrow> None)"

definition default_differential :: "string list" where
  "default_differential = [''python3'', ''scripts/differential.py'', ''--cases'', ''400'']"

section \<open>The decisions of main\<close>

record cli_args =
  ca_function :: string
  ca_source :: "string option"
  ca_list_functions :: bool
  ca_workdir :: string
  ca_out :: "string option"
  ca_iterations :: int
  ca_candidates :: int
  ca_rounds :: int
  ca_tests :: "string list"
  ca_benchmark :: "string list"
  ca_noise_floor :: "rat option"
  ca_differential :: "string option"
  ca_llm :: "string list"
  ca_llm_model :: string
  ca_llm_url :: string
  ca_judge_model :: "string option"
  ca_mutate_only :: bool
  ca_no_mutations :: bool
  ca_min_improvement :: rat
  ca_target :: string
  ca_strategy :: string
  ca_workload_keyword :: "string option"
  ca_min_workload_share :: "rat option"
  ca_abi_check :: bool
  ca_apply :: bool
  ca_quiet :: bool

text \<open>A backend: an Ollama server with a model, or a command.\<close>

datatype backend = OllamaHttp string string | Command "string list"

definition backend_key :: "backend \<Rightarrow> string list" where
  "backend_key b = (case b of OllamaHttp model url \<Rightarrow> [''ollama-http'', url] | Command argv \<Rightarrow> argv)"

record harness =
  ha_source :: string
  ha_function :: string
  ha_workdir :: string
  ha_outdir :: string
  ha_iterations :: int
  ha_candidates :: int
  ha_llm :: "backend option"
  ha_judge :: "backend option"
  ha_tests :: "string list"
  ha_benchmark :: "string list"
  ha_noise_floor :: pyfloat
  ha_rounds :: int
  ha_abi_check :: bool
  ha_differential :: "string list option"
  ha_use_mutations :: bool
  ha_min_improvement :: rat
  ha_target :: string
  ha_apply :: bool
  ha_quiet :: bool
  ha_strategy :: strategy

datatype cli_result =
    Listing "string list"
  | ParserError string
  | CliExit string
  | CliRaise string
  | Harness harness

definition llm_setup :: "environment \<Rightarrow> cli_args \<Rightarrow> cli_result + backend option \<times> bool" where
  "llm_setup en a =
     (if ca_mutate_only a then Inr (None, True)
      else
        let mutations = \<not> ca_no_mutations a
        in case ca_llm a of
             [] \<Rightarrow> if mutations then Inr (None, True)
               else Inl (ParserError ''nothing to propose candidates with: pass --llm or remove --no-mutations'')
           | word # words \<Rightarrow>
               let llm = (if word = ''ollama'' then OllamaHttp (ca_llm_model a) (rstrip_of (\<lambda>c. c = CHR ''/'') (ca_llm_url a)) else Command (word # words))
               in Inr (if en_reachable en (backend_key llm) then Some llm else None, mutations))"

text \<open>The command backend of the judge runs the command of the proposer; only the server takes the model.\<close>

definition judge_setup :: "cli_args \<Rightarrow> backend option \<Rightarrow> backend option" where
  "judge_setup a llm =
     (case (ca_judge_model a, llm) of
        (Some model, Some (OllamaHttp m url)) \<Rightarrow> if model = [] then None else Some (OllamaHttp model (rstrip_of (\<lambda>c. c = CHR ''/'') (ca_llm_url a)))
      | (Some model, Some (Command argv)) \<Rightarrow> if model = [] then None else Some (Command argv)
      | _ \<Rightarrow> None)"

definition cli_source :: "environment \<Rightarrow> cli_args \<Rightarrow> string + string" where
  "cli_source en a =
     (case ca_source a of
        Some path \<Rightarrow> if en_exists en path then Inr path else Inl (''source file not found: '' @ path)
      | None \<Rightarrow> find_source_for_function (ca_workdir a) (en_sources en) (ca_function a))"

definition cli_benchmark :: "environment \<Rightarrow> cli_args \<Rightarrow> string list option" where
  "cli_benchmark en a = (if ca_benchmark a \<noteq> [] then Some (ca_benchmark a) else default_benchmark en (ca_function a))"

definition cli_noise_floor :: "environment \<Rightarrow> cli_args \<Rightarrow> pyfloat option" where
  "cli_noise_floor en a =
     (case ca_noise_floor a of Some r \<Rightarrow> Some (Fin r) | None \<Rightarrow> default_noise_floor en (ca_function a))"

definition cli_differential :: "cli_args \<Rightarrow> string list option" where
  "cli_differential a =
     (case ca_differential a of
        None \<Rightarrow> None
      | Some d \<Rightarrow> if d = [] then None else if d = ''default'' then Some default_differential else Some [d])"

definition no_benchmark :: "string \<Rightarrow> string" where
  "no_benchmark function = ''no benchmark available for '' @ py_repr function
     @ ''; pass --benchmark, or add scripts/benchmarks/bench_<function>.c (docs/SCRIPTS.md -- there is no wall-clock ''
     @ ''fallback; a candidate can never be accepted on one)''"

definition no_noise_floor :: "string \<Rightarrow> string" where
  "no_noise_floor function = ''no calibrated noise floor for '' @ py_repr function
     @ ''; pass --noise-floor <pct>, or run scripts/benchmarks/measure_noise_floor.py first to write scripts/benchmarks/bench_''
     @ function @ ''.noise.json (docs/SCRIPTS.md -- a benchmark that cannot distinguish the expected improvement ''
     @ ''must fail closed, not silently accept a result inside the noise band)''"

definition build_harness :: "environment \<Rightarrow> cli_args \<Rightarrow> string \<Rightarrow> cli_result" where
  "build_harness en a src =
     (case llm_setup en a of
        Inl e \<Rightarrow> e
      | Inr (llm, mutations) \<Rightarrow>
          (case cli_benchmark en a of
             None \<Rightarrow> ParserError (no_benchmark (ca_function a))
           | Some benchmark \<Rightarrow>
               (case cli_noise_floor en a of
                  None \<Rightarrow> ParserError (no_noise_floor (ca_function a))
                | Some noise_floor \<Rightarrow>
                    (case build_strategy (ca_strategy a) (ca_function a) (en_docs en) (ca_workload_keyword a) (ca_min_workload_share a) of
                       Inl (StrategyTargetError msg) \<Rightarrow> ParserError msg
                     | Inl (ValueError msg) \<Rightarrow> CliRaise msg
                     | Inr strategy \<Rightarrow> Harness
                         \<lparr>ha_source = src, ha_function = ca_function a, ha_workdir = ca_workdir a,
                           ha_outdir = (case ca_out a of Some d \<Rightarrow> d | None \<Rightarrow> ca_workdir a @ ''/.arm-optimize''),
                           ha_iterations = ca_iterations a, ha_candidates = ca_candidates a,
                           ha_llm = llm, ha_judge = judge_setup a llm,
                           ha_tests = default_tests en (ca_function a) (ca_tests a), ha_benchmark = benchmark,
                           ha_noise_floor = noise_floor, ha_rounds = ca_rounds a, ha_abi_check = ca_abi_check a,
                           ha_differential = cli_differential a, ha_use_mutations = mutations,
                           ha_min_improvement = ca_min_improvement a, ha_target = ca_target a,
                           ha_apply = ca_apply a, ha_quiet = ca_quiet a, ha_strategy = strategy\<rparr>))))"

definition cli_main :: "environment \<Rightarrow> cli_args \<Rightarrow> cli_result" where
  "cli_main en a =
     (if ca_list_functions a then
        (case ca_source a of
           None \<Rightarrow> ParserError ''--list-functions requires --source''
         | Some path \<Rightarrow>
             (case en_text en path of
                None \<Rightarrow> CliRaise path
              | Some src \<Rightarrow> (case list_functions path src of Inl msg \<Rightarrow> CliExit msg | Inr fs \<Rightarrow> Listing fs)))
      else if ca_function a = [] then ParserError ''--function is required''
      else if \<not> en_exists en ''src'' then CliExit (''--workdir '' @ ca_workdir a @ '' does not look like the sarm root'')
      else case cli_source en a of Inl msg \<Rightarrow> CliExit msg | Inr src \<Rightarrow> build_harness en a src)"

section \<open>Failing closed\<close>

lemma find_source_unique:
  "find_source_for_function workdir files function = Inr m \<longleftrightarrow>
    map fst (filter (\<lambda>(path, src). case src of None \<Rightarrow> False | Some s \<Rightarrow> search_lines (GLOBAL_OF function) s) files) = [m]"
  by (auto simp: find_source_for_function_def Let_def split: list.splits)

lemma default_tests_nonempty: "default_tests en function explicit \<noteq> []"
  by (simp add: default_tests_def)

lemma build_harness_ok:
  assumes "build_harness en a src = Harness h"
  shows "ha_source h = src \<and> cli_benchmark en a = Some (ha_benchmark h) \<and> cli_noise_floor en a = Some (ha_noise_floor h)
    \<and> build_strategy (ca_strategy a) (ca_function a) (en_docs en) (ca_workload_keyword a) (ca_min_workload_share a) = Inr (ha_strategy h)
    \<and> llm_setup en a = Inr (ha_llm h, ha_use_mutations h) \<and> ha_tests h \<noteq> []"
proof -
  have "llm_setup en a \<noteq> Inl (Harness h)"
    by (auto simp: llm_setup_def Let_def split: list.splits)
  then show ?thesis
    using assms by (auto simp: build_harness_def default_tests_nonempty split: sum.splits option.splits strategy_error.splits prod.splits)
qed


definition demo_env :: environment where
  "demo_env = \<lparr>en_exists = (\<lambda>p. p \<noteq> ''tests/unit/test_f.c''),
     en_text = (\<lambda>p. Some (''{'' @ [CHR 0x22] @ ''noise_floor_pct'' @ [CHR 0x22] @ '': 1}'')),
     en_sources = [(''src/a.S'', Some ''.global g''), (''src/b.S'', Some ''.global f'')],
     en_reachable = (\<lambda>c. False), en_docs = []\<rparr>"

definition demo_args :: cli_args where
  "demo_args = \<lparr>ca_function = ''f'', ca_source = None, ca_list_functions = False, ca_workdir = ''/sarm'', ca_out = None,
     ca_iterations = 20, ca_candidates = 1, ca_rounds = 5, ca_tests = [],
     ca_benchmark = [], ca_noise_floor = None, ca_differential = None, ca_llm = [''ollama''], ca_llm_model = ''m'',
     ca_llm_url = ''u'', ca_judge_model = None, ca_mutate_only = False, ca_no_mutations = True,
     ca_min_improvement = 0, ca_target = ''apple-silicon'', ca_strategy = ''speed'',
     ca_workload_keyword = None, ca_min_workload_share = None, ca_abi_check = True, ca_apply = False, ca_quiet = False\<rparr>"

definition demo_harness :: harness where
  "demo_harness = (case cli_main demo_env demo_args of Harness h \<Rightarrow> h)"

text \<open>
  With \<open>--no-mutations\<close> and a model that cannot be reached, nothing is left to propose candidates;
  the script announces the rule-based mutations and builds the harness.
\<close>

lemma demo_main:
  "cli_main demo_env demo_args = Harness demo_harness \<and> ha_llm demo_harness = None \<and> \<not> ha_use_mutations demo_harness"
  by code_simp


text \<open>A calibration file can hold NaN, which passes as a calibrated noise floor.\<close>

lemma nan_floor:
  "default_noise_floor (demo_env\<lparr>en_text := (\<lambda>p. Some (''{'' @ [CHR 0x22] @ ''noise_floor_pct'' @ [CHR 0x22] @ '': NaN}''))\<rparr>) ''f'' = Some Nan"
  by code_simp

end
