(* ===== verification/Llm_Reply.thy ===== *)
theory Llm_Reply
  imports Object_Scan
begin

text \<open>
  The language-model backends of llm.py: the tolerant extraction of a JSON object from a reply,
  its parsing into a candidate, the request loops of both backends, and what the optimizer reads
  from the reply of its judge. The replies are arguments. A text of code points becomes a
  \<open>string\<close> by \<open>text_of\<close>, which is exact below 256. \<open>str\<close> of a decoded value is \<open>py_str\<close>, whose
  argument \<open>repr\<close> stands for the representation of a float, a list or an object.
\<close>

section \<open>Extraction\<close>

definition py_str :: "(json \<Rightarrow> string) \<Rightarrow> json \<Rightarrow> string" where
  "py_str repr j =
     (case j of JStr ns \<Rightarrow> text_of ns | JNull \<Rightarrow> ''None'' | JBool b \<Rightarrow> (if b then ''True'' else ''False'')
      | JInt i \<Rightarrow> str_int i | _ \<Rightarrow> repr j)"

text \<open>
  The group of the first match of \<open>```(?:json)?\s*(.*?)```\<close>. The part before the group only takes
  characters other than a backtick, so a match fails exactly when no second fence follows, and
  then every later start fails too.
\<close>

definition fence_body :: "string \<Rightarrow> string option" where
  "fence_body text =
     (case find_sub ''```'' text of
        None \<Rightarrow> None
      | Some i \<Rightarrow>
          (let r = drop (i + 3) text;
               r = (if startswith r ''json'' then drop 4 r else r);
               r = lstrip_of py_space r
           in map_option (\<lambda>n. take n r) (find_sub ''```'' r)))"

definition extract_json :: "string \<Rightarrow> json option" where
  "extract_json reply =
     (let s = strip reply;
          s = (case fence_body s of Some b \<Rightarrow> strip b | None \<Rightarrow> s)
      in case json_loads s of
           Some data \<Rightarrow> (case data of JObj d \<Rightarrow> Some data | _ \<Rightarrow> None)
         | None \<Rightarrow> scan_objects json_loads s)"

section \<open>Candidates\<close>

record llm_candidate =
  llm_assembly :: string
  llm_explanation :: string
  llm_raw :: string

datatype llm_error = AttributeError

definition parse_reply :: "(json \<Rightarrow> string) \<Rightarrow> string \<Rightarrow> llm_error + llm_candidate option" where
  "parse_reply repr reply =
     (case extract_json reply of
        None \<Rightarrow>
          (let assembly = strip reply
           in Inr (if assembly = [] then None
                   else Some \<lparr>llm_assembly = assembly, llm_explanation = [], llm_raw = reply\<rparr>))
      | Some (JObj d) \<Rightarrow>
          (let assembly = strip (case json_get d ''assembly'' of Some v \<Rightarrow> py_str repr v | None \<Rightarrow> [])
           in Inr (if assembly = [] then None
                   else Some \<lparr>llm_assembly = assembly,
                     llm_explanation = strip (case json_get d ''explanation'' of Some v \<Rightarrow> py_str repr v | None \<Rightarrow> []),
                     llm_raw = reply\<rparr>))
      | Some _ \<Rightarrow> Inl AttributeError)"

text \<open>The loop of both backends: the first reply without a candidate ends it with \<open>None\<close>.\<close>

fun request_all :: "('r \<Rightarrow> llm_error + llm_candidate option) \<Rightarrow> 'r list \<Rightarrow> llm_candidate list
    \<Rightarrow> llm_error + llm_candidate list option" where
  "request_all ask [] results = Inr (Some results)"
| "request_all ask (r # rs) results =
     (case ask r of
        Inl e \<Rightarrow> Inl e
      | Inr None \<Rightarrow> Inr None
      | Inr (Some c) \<Rightarrow> request_all ask rs (results @ [c]))"

text \<open>A reply of the server: its body, or \<open>None\<close> for a failed request.\<close>

definition http_candidate :: "(json \<Rightarrow> string) \<Rightarrow> string option \<Rightarrow> llm_error + llm_candidate option" where
  "http_candidate repr body =
     (case body of
        None \<Rightarrow> Inr None
      | Some b \<Rightarrow>
          (case json_loads b of
             None \<Rightarrow> Inr None
           | Some (JObj d) \<Rightarrow>
               (case json_get d ''response'' of
                  None \<Rightarrow> parse_reply repr []
                | Some (JStr ns) \<Rightarrow> parse_reply repr (text_of ns)
                | Some _ \<Rightarrow> Inl AttributeError)
           | Some _ \<Rightarrow> Inl AttributeError))"

definition generate_http :: "(json \<Rightarrow> string) \<Rightarrow> string option list \<Rightarrow> llm_error + llm_candidate list option" where
  "generate_http repr bodies = request_all (http_candidate repr) bodies []"

text \<open>A run of the command: whether it succeeded, and its output.\<close>

definition command_candidate :: "(json \<Rightarrow> string) \<Rightarrow> bool \<times> string \<Rightarrow> llm_error + llm_candidate option" where
  "command_candidate repr = (\<lambda>(success, output). if success then parse_reply repr output else Inr None)"

definition generate_command :: "(json \<Rightarrow> string) \<Rightarrow> (bool \<times> string) list \<Rightarrow> llm_error + llm_candidate list option" where
  "generate_command repr results = request_all (command_candidate repr) results []"

section \<open>The judge\<close>

definition truthy :: "json \<Rightarrow> bool" where
  "truthy j =
     (case j of JNull \<Rightarrow> False | JBool b \<Rightarrow> b | JInt i \<Rightarrow> i \<noteq> 0 | JFloat r \<Rightarrow> r \<noteq> 0
      | JStr ns \<Rightarrow> ns \<noteq> [] | JArr vs \<Rightarrow> vs \<noteq> [] | JObj d \<Rightarrow> d \<noteq> [] | _ \<Rightarrow> True)"

text \<open>The verdict the optimizer reads from what the judge generated.\<close>

definition ask_judge :: "(json \<Rightarrow> string) \<Rightarrow> llm_candidate list option \<Rightarrow> (bool \<times> string) option" where
  "ask_judge repr results =
     (case results of
        Some (c # cs) \<Rightarrow>
          (case extract_json (llm_raw c) of
             Some (JObj d) \<Rightarrow>
               if d = [] then None
               else Some (case json_get d ''keep'' of Some v \<Rightarrow> truthy v | None \<Rightarrow> True,
                      case json_get d ''reason'' of Some v \<Rightarrow> py_str repr v | None \<Rightarrow> ''judge rejected'')
           | _ \<Rightarrow> None)
      | _ \<Rightarrow> None)"

section \<open>What is extracted\<close>

lemma scan_objects_object: "scan_objects json_loads s = Some v \<Longrightarrow> \<exists>d. v = JObj d"
  using scan_objects_sound [of json_loads s v] json_loads_object by blast

lemma extract_json_object: "extract_json reply = Some v \<Longrightarrow> \<exists>d. v = JObj d"
  by (auto simp: extract_json_def Let_def dest: scan_objects_object split: option.splits json.splits)

lemma parse_reply_total: "\<exists>c. parse_reply repr reply = Inr c"
  using extract_json_object [of reply]
  by (cases "extract_json reply") (auto simp: parse_reply_def Let_def)

lemma parse_reply_candidate:
  assumes "parse_reply repr reply = Inr (Some c)"
  shows "llm_assembly c \<noteq> [] \<and> strip (llm_assembly c) = llm_assembly c \<and> llm_raw c = reply"
  using assms by (auto simp: parse_reply_def Let_def split: option.splits json.splits if_splits)

section \<open>An object in a reply\<close>

text \<open>Text around an encoded object: prose before it, no code fence anywhere.\<close>

definition wraps :: "string \<Rightarrow> string \<Rightarrow> (nat list \<times> json) list \<Rightarrow> string \<Rightarrow> bool" where
  "wraps pre sp d post \<longleftrightarrow> plain_json (JObj d) \<and> list_all json_ws sp \<and> prose pre \<and> number_ends post
     \<and> \<not> has_sub ''```'' (pre @ json_text sp (JObj d) @ post)"

interpretation json: object_reader json_loads "\<lambda>d. Some (JObj d)"
proof unfold_locales
  fix d sp
  assume d: "plain_json (JObj d)" "list_all json_ws sp"
  show "json_loads (json_text sp (JObj d)) = Some (JObj d)"
    using json_layout.json_loads_text [OF _ d(1), of sp "[]"] d(2) by (simp add: json_layout_def)
qed

lemma strip_around:
  assumes "x \<noteq> []" "\<not> py_space (hd x)" "\<not> py_space (last x)"
  shows "strip (pre @ x @ post) = dropWhile py_space pre @ x @ rstrip_of py_space post"
proof -
  have "dropWhile py_space (pre @ x @ post) = dropWhile py_space pre @ x @ post"
    using assms(1,2) by (cases x) (auto simp: dropWhile_append dropWhile_eq_Nil_conv)
  moreover have "dropWhile py_space (rev post @ rev x @ rev u) = dropWhile py_space (rev post) @ rev x @ rev u" for u
    using assms(1,3) by (cases "rev x") (auto simp: dropWhile_append dropWhile_eq_Nil_conv last_rev [symmetric] rev_swap)
  ultimately show ?thesis by (simp add: strip_def lstrip_of_def rstrip_of_def)
qed

lemma json_loads_object_text:
  assumes "plain_json (JObj d)" "list_all json_ws sp" "number_ends t"
  shows "json_loads (json_text sp (JObj d) @ t) = (if skip_ws t = [] then Some (JObj d) else None)"
proof -
  let ?s = "json_text sp (JObj d) @ t"
  have "skip_ws ?s = ?s"
    using value_start_skip [OF value_start_append [OF json_text_start]] by blast
  moreover have "json_value (2 * length ?s + 2) ?s = Some (JObj d, t)"
    using json_layout.decodes_plain [OF _ assms(1), of sp, unfolded decodes_def] assms(2,3)
    by (simp add: json_layout_def del: json_value.simps json_text.simps)
  ultimately show ?thesis by (simp add: json_loads_def del: json_value.simps json_text.simps)
qed

lemma extract_wrapped:
  assumes "wraps pre sp d post"
  shows "extract_json (pre @ json_text sp (JObj d) @ post) = Some (JObj d)"
proof -
  let ?x = "json_text sp (JObj d)"
  define s where "s = dropWhile py_space pre @ ?x @ rstrip_of py_space post"
  have w: "plain_json (JObj d)" "list_all json_ws sp" "prose pre" "number_ends post" "\<not> has_sub ''```'' (pre @ ?x @ post)"
    using assms by (simp_all add: wraps_def del: json_text.simps)
  obtain u where u: "?x = CHR ''{'' # u" by simp
  have strip: "strip (pre @ ?x @ post) = s"
    unfolding s_def by (rule strip_around) (simp_all add: py_space_def)
  obtain a where a: "pre = a @ dropWhile py_space pre" by (metis takeWhile_dropWhile_id)
  obtain b where b: "post = rstrip_of py_space post @ b"
    by (metis rstrip_of_def rev_append rev_rev_ident takeWhile_dropWhile_id)
  have "sublist s (pre @ ?x @ post)"
    unfolding s_def sublist_def by (intro exI [of _ a] exI [of _ b]) (metis a append.assoc b)
  then have "\<not> sublist ''```'' s" using w(5) sublist_order.order_trans unfolding has_sub_def find_sub_None not_not by blast
  then have "fence_body s = None" unfolding fence_body_def by (simp add: find_sub_None [THEN iffD2])
  moreover have ends: "number_ends (rstrip_of py_space post)"
    using w(4) b by (cases "rstrip_of py_space post") (auto simp: number_ends_def)
  have scan: "scan_objects json_loads s = Some (JObj d)"
    unfolding s_def using w(3) set_dropWhile_subset [of py_space pre]
    by (intro json.scan_finds w(1,2)) (auto simp: prose_def)
  have "json_loads s = Some (JObj d) \<or> json_loads s = None"
  proof (cases "dropWhile py_space pre")
    case Nil
    then have "s = ?x @ rstrip_of py_space post" unfolding s_def by (simp only: append_Nil)
    then show ?thesis using json_loads_object_text [OF w(1,2) ends] by (simp del: json_text.simps)
  next
    case (Cons c p)
    then have "\<not> json_ws c" using hd_dropWhile [of py_space pre] by (auto simp: json_ws_def py_space_def)
    moreover have "prose (c # p)" using w(3) set_dropWhile_subset [of py_space pre] Cons by (auto simp: prose_def)
    ultimately have "json_loads ((c # p) @ CHR ''{'' # u @ rstrip_of py_space post) = None"
      by (intro json_loads_prose) auto
    moreover have "s = (c # p) @ CHR ''{'' # u @ rstrip_of py_space post"
      unfolding s_def Cons u by (simp only: append_Cons)
    ultimately show ?thesis by simp
  qed
  ultimately show ?thesis using scan unfolding extract_json_def strip by auto
qed

section \<open>Correctness\<close>

definition reply_candidate :: "(json \<Rightarrow> string) \<Rightarrow> (nat list \<times> json) list \<Rightarrow> string \<Rightarrow> llm_candidate option" where
  "reply_candidate repr d reply =
     (let get = (\<lambda>k. strip (case json_get d k of Some v \<Rightarrow> py_str repr v | None \<Rightarrow> []))
      in if get ''assembly'' = [] then None
         else Some \<lparr>llm_assembly = get ''assembly'', llm_explanation = get ''explanation'', llm_raw = reply\<rparr>)"

lemma parse_wrapped:
  assumes "wraps pre sp d post"
  shows "parse_reply repr (pre @ json_text sp (JObj d) @ post) =
    Inr (reply_candidate repr d (pre @ json_text sp (JObj d) @ post))"
  using extract_wrapped [OF assms]
  by (simp add: parse_reply_def reply_candidate_def Let_def del: json_text.simps split: option.splits)

text \<open>
  C17. Round trip: an object that a model encodes and puts into a reply, with prose before it and
  any text after it, is read back: the candidate's assembly and explanation are the encoded
  fields, stripped, whatever the order of the fields and the separators. The prose has no
  double quote and no opening brace or bracket, the reply no code fence.
\<close>

theorem reply_read_back:
  assumes "wraps pre sp d post"
    and "json_get d ''assembly'' = Some (JStr a)" "strip (text_of a) \<noteq> []"
    and "json_get d ''explanation'' = Some (JStr e)"
  shows "parse_reply repr (pre @ json_text sp (JObj d) @ post) =
    Inr (Some \<lparr>llm_assembly = strip (text_of a), llm_explanation = strip (text_of e),
      llm_raw = pre @ json_text sp (JObj d) @ post\<rparr>)"
  using assms(2-4) unfolding parse_wrapped [OF assms(1)]
  by (simp add: reply_candidate_def py_str_def del: json_text.simps)

definition demo_reply :: "(nat list \<times> json) list" where
  "demo_reply = [(codes ''explanation'', JStr (codes ''uses {q0}'')), (codes ''assembly'', JStr (codes ''ldr q0, [x1] ''))]"

lemma demo_wraps: "wraps ''Sure: '' '' '' demo_reply '' Done.''"
  by code_simp

lemma reply_read_back_witness:
  "parse_reply (\<lambda>_. []) (''Sure: '' @ json_text '' '' (JObj demo_reply) @ '' Done.'') =
    Inr (Some \<lparr>llm_assembly = strip (text_of (codes ''ldr q0, [x1] '')), llm_explanation = strip (text_of (codes ''uses {q0}'')),
      llm_raw = ''Sure: '' @ json_text '' '' (JObj demo_reply) @ '' Done.''\<rparr>)"
proof (rule reply_read_back [OF demo_wraps])
  show "json_get demo_reply ''assembly'' = Some (JStr (codes ''ldr q0, [x1] ''))" by code_simp
  show "strip (text_of (codes ''ldr q0, [x1] '')) \<noteq> []" by code_simp
  show "json_get demo_reply ''explanation'' = Some (JStr (codes ''uses {q0}''))" by code_simp
qed

lemma request_all_some:
  assumes "request_all ask rs acc = Inr (Some cs)"
  shows "\<exists>ds. cs = acc @ ds \<and> list_all2 (\<lambda>r c. ask r = Inr (Some c)) rs ds"
  using assms
proof (induction ask rs acc rule: request_all.induct)
  case (2 ask r rs acc)
  then obtain c where c: "ask r = Inr (Some c)" "request_all ask rs (acc @ [c]) = Inr (Some cs)"
    by (auto split: sum.splits option.splits)
  then obtain ds where "cs = (acc @ [c]) @ ds" "list_all2 (\<lambda>r c. ask r = Inr (Some c)) rs ds" using 2 by blast
  then show ?case using c(1) by (intro exI [of _ "c # ds"]) simp
qed simp

lemma request_all_total:
  assumes "\<forall>r \<in> set rs. \<exists>c. ask r = Inr c"
  shows "\<exists>cs. request_all ask rs acc = Inr cs"
  using assms by (induction ask rs acc rule: request_all.induct) (force split: sum.splits option.splits)+

text \<open>
  The command backend returns on every sequence of replies: none of them raises an exception.
  Its answer is one candidate per requested reply, all of whose runs succeeded, each with a
  non-empty assembly text without blanks at its ends; otherwise it answers nothing at all.
\<close>

theorem generate_command_correct:
  "case generate_command repr results of
     Inl e \<Rightarrow> False
   | Inr None \<Rightarrow> True
   | Inr (Some cs) \<Rightarrow> list_all2 (\<lambda>r c. fst r \<and> llm_raw c = snd r \<and> llm_assembly c \<noteq> []
       \<and> strip (llm_assembly c) = llm_assembly c) results cs"
proof -
  have "\<exists>c. command_candidate repr r = Inr c" for r
    using parse_reply_total by (auto simp: command_candidate_def split: prod.splits)
  then obtain out where out: "generate_command repr results = Inr out"
    using request_all_total [of results "command_candidate repr" "[]"] unfolding generate_command_def by blast
  have "list_all2 (\<lambda>r c. fst r \<and> llm_raw c = snd r \<and> llm_assembly c \<noteq> [] \<and> strip (llm_assembly c) = llm_assembly c) results cs"
    if "out = Some cs" for cs
  proof -
    have "list_all2 (\<lambda>r c. command_candidate repr r = Inr (Some c)) results cs"
      using request_all_some [of _ results "[]" cs] out that by (auto simp: generate_command_def)
    then show ?thesis
      by (rule list_all2_mono) (auto simp: command_candidate_def dest: parse_reply_candidate split: prod.splits if_splits)
  qed
  then show ?thesis unfolding out by (auto split: option.splits)
qed

text \<open>The reply the judge is asked for has no assembly text, and is thrown away.\<close>

lemma generate_no_assembly:
  assumes "wraps pre sp d post" "json_get d ''assembly'' = None"
  shows "generate_command repr ((True, pre @ json_text sp (JObj d) @ post) # rs) = Inr None"
proof -
  have "strip [] = []" by (simp add: strip_def lstrip_of_def rstrip_of_def)
  then have "reply_candidate repr d reply = None" for reply using assms(2) by (simp add: reply_candidate_def)
  then show ?thesis
    using parse_wrapped [OF assms(1)] by (simp add: generate_command_def command_candidate_def del: json_text.simps)
qed

text \<open>
  JSON that is not an object counts as no JSON at all: a list goes to the optimizer as assembly text.
\<close>

lemma list_reply: "parse_reply repr ''[1]'' = Inr (Some \<lparr>llm_assembly = ''[1]'', llm_explanation = [], llm_raw = ''[1]''\<rparr>)"
  by code_simp

end
