(* ===== verification/Harness_Run.thy ===== *)
theory Harness_Run
  imports Harness_Cli Llm_Reply
begin

text \<open>
  The composition of the harness: the optimizer that the command line builds, whose measurements
  are benchmark runs and whose candidates and verdicts come from the replies of a language model.
  The outside answers are those of the programs themselves: what a run prints, what a model replies.
\<close>

section \<open>The judge\<close>

text \<open>
  The answer of a judge behind the command backend, \<open>_ask_judge\<close> on what \<open>generate\<close> gives for one
  reply.
\<close>

definition judge_answer :: "(json \<Rightarrow> string) \<Rightarrow> string \<Rightarrow> (bool \<times> string) option" where
  "judge_answer repr reply =
     ask_judge repr (case generate_command repr [(True, reply)] of Inr cs \<Rightarrow> cs | Inl e \<Rightarrow> None)"

text \<open>
  The prompt of the judge asks for an object with \<open>keep\<close> and \<open>reason\<close>. Such a reply has no
  assembly text, so the backend rejects it, and the decision of the strategy stands whatever the
  judge said.
\<close>

lemma judge_verdict_dropped:
  assumes "w_judge w lb new = judge_answer repr (pre @ json_text sp (JObj d) @ post)"
    and "wraps pre sp d post" "json_get d ''assembly'' = None"
  shows "judged w lb new dec = (keep dec, reason dec)"
proof -
  have "judge_answer repr (pre @ json_text sp (JObj d) @ post) = None"
    using generate_no_assembly [OF assms(2,3), of repr "[]"] by (simp add: judge_answer_def ask_judge_def del: json_text.simps)
  then show ?thesis using assms(1) by (simp add: judged_def del: json_text.simps)
qed

definition rejecting :: "(nat list \<times> json) list" where
  "rejecting = [(codes ''keep'', JBool False), (codes ''reason'', JStr (codes ''moves the work elsewhere''))]"

lemma judge_verdict_dropped_example:
  "judged (demo_world\<lparr>w_judge := (\<lambda>lb new. judge_answer (\<lambda>j. []) (json_text '' '' (JObj rejecting)))\<rparr>) lb new dec
    = (keep dec, reason dec)"
proof (rule judge_verdict_dropped)
  show "wraps [] '' '' rejecting []" by code_simp
  show "json_get rejecting ''assembly'' = None" by code_simp
qed simp

section \<open>The world of a harness\<close>

text \<open>
  The measurement the optimizer gets from \<open>Benchmark.run\<close>. A run that raises an exception ends the
  optimizer, an infinite time has no counterpart in its model: both count as no measurement.
\<close>

definition bench_answer :: "int \<Rightarrow> (nat \<Rightarrow> bool \<times> string \<times> nat) \<Rightarrow> rat option" where
  "bench_answer rounds answers =
     (case bench_run rounds answers of
        Inr (Some b) \<Rightarrow> (case br_runtime_ns b of Fin r \<Rightarrow> Some r | _ \<Rightarrow> None)
      | _ \<Rightarrow> None)"

definition backend_generate :: "(json \<Rightarrow> string) \<Rightarrow> backend \<Rightarrow> (bool \<times> string) list \<Rightarrow> llm_candidate list option" where
  "backend_generate repr b replies =
     (case (case b of
         Command argv \<Rightarrow> generate_command repr replies
       | OllamaHttp model url \<Rightarrow> generate_http repr (map (\<lambda>(ok, body). if ok then Some body else None) replies)) of
        Inr cs \<Rightarrow> cs
      | Inl e \<Rightarrow> None)"

text \<open>What the loop adds to the candidates of an iteration.\<close>

definition proposals :: "llm_candidate list option \<Rightarrow> (string \<times> string) list" where
  "proposals results = (case results of None \<Rightarrow> [] | Some cs \<Rightarrow> map (\<lambda>c. (llm_assembly c, llm_explanation c)) cs)"

record outside =
  o_index :: "string \<Rightarrow> source_index"
  o_macros :: macros
  o_tests :: "label \<Rightarrow> string \<Rightarrow> bool"
  o_differential :: "label \<Rightarrow> string \<Rightarrow> bool"
  o_bench :: "label \<Rightarrow> string \<Rightarrow> nat \<Rightarrow> bool \<times> string \<times> nat"
  o_workload :: "label \<Rightarrow> string \<Rightarrow> nat \<Rightarrow> bool \<times> string \<times> nat"
  o_objdump :: "string \<Rightarrow> string option"
  o_object_size :: "string \<Rightarrow> int option"
  o_reply :: "nat \<Rightarrow> string \<Rightarrow> nat \<Rightarrow> bool \<times> string"
  o_verdict :: "label \<Rightarrow> string \<Rightarrow> bool \<times> string"

definition world_of :: "(json \<Rightarrow> string) \<Rightarrow> harness \<Rightarrow> outside \<Rightarrow> world" where
  "world_of repr h out =
     \<lparr>w_index = o_index out, w_macros = o_macros out, w_tests = o_tests out, w_differential = o_differential out,
       w_benchmark = (\<lambda>lb src. bench_answer (ha_rounds h) (o_bench out lb src)),
       w_workload = (\<lambda>lb src. bench_answer (ha_rounds h) (o_workload out lb src)),
       w_objdump = o_objdump out, w_object_size = o_object_size out,
       w_llm = (\<lambda>i t. case ha_llm h of
           None \<Rightarrow> []
         | Some b \<Rightarrow> proposals (backend_generate repr b (map (o_reply out i t) [0..<nat (max 1 (ha_candidates h))]))),
       w_judge = (\<lambda>lb src. case ha_judge h of
           None \<Rightarrow> None
         | Some b \<Rightarrow> ask_judge repr (backend_generate repr b [o_verdict out lb src]))\<rparr>"

text \<open>The optimizer of a harness with a finite noise floor.\<close>

definition config_of :: "harness \<Rightarrow> rat \<Rightarrow> config" where
  "config_of h nf =
     \<lparr>cf_function = ha_function h, cf_root = ha_workdir h, iterations = nat (ha_iterations h), noise_floor_pct = Some nf,
       abi_check = ha_abi_check h, has_benchmark = (ha_benchmark h \<noteq> []), has_differential = (ha_differential h \<noteq> None),
       use_mutations = ha_use_mutations h, min_improvement = ha_min_improvement h, cf_apply = ha_apply h,
       cf_strategy = ha_strategy h\<rparr>"

section \<open>From the command line to the file on disk\<close>

lemma strategy_of_runtime:
  assumes "build_strategy name function docs kw ms = Inr s" "name \<in> {''speed'', ''register-pressure''}"
  shows "judged_by_runtime s"
proof -
  have "cls s = c" if "init_strategy c f ds k m = Inr s" for c f ds k m
    using that by (auto simp: init_strategy_def Let_def split: option.splits if_splits)
  then show ?thesis using assms by (auto simp: build_strategy_def judged_by_runtime_def split: option.splits)
qed

lemma harness_fields:
  assumes "cli_main en a = Harness h"
  shows "ha_apply h = ca_apply a \<and> ha_min_improvement h = ca_min_improvement a \<and> ha_benchmark h \<noteq> []
    \<and> build_strategy (ca_strategy a) (ca_function a) (en_docs en) (ca_workload_keyword a) (ca_min_workload_share a) = Inr (ha_strategy h)"
proof -
  obtain src where src: "build_harness en a src = Harness h"
    using assms by (auto simp: cli_main_def split: if_splits option.splits sum.splits)
  have "llm_setup en a \<noteq> Inl (Harness h)"
    by (auto simp: llm_setup_def Let_def split: list.splits)
  then have "ha_apply h = ca_apply a \<and> ha_min_improvement h = ca_min_improvement a"
    using src by (auto simp: build_harness_def split: sum.splits option.splits strategy_error.splits prod.splits)
  moreover have "ha_benchmark h \<noteq> []"
    using build_harness_ok [OF src] by (auto simp: cli_benchmark_def default_benchmark_def split: if_splits)
  ultimately show ?thesis using build_harness_ok [OF src] by blast
qed


text \<open>A harness with a model behind a command, two replies, and a benchmark of five rounds.\<close>

definition live_env :: environment where
  "live_env = demo_env\<lparr>en_reachable := (\<lambda>c. True)\<rparr>"

definition live_args :: cli_args where
  "live_args = demo_args\<lparr>ca_workdir := ''r'', ca_iterations := 1, ca_candidates := 2, ca_differential := Some ''default'',
     ca_llm := [''model''], ca_abi_check := False, ca_apply := True\<rparr>"

definition live_harness :: harness where
  "live_harness = (case cli_main live_env live_args of Harness h \<Rightarrow> h)"

definition live_reply :: "nat \<Rightarrow> string" where
  "live_reply k = json_text '' '' (JObj
     [(codes ''explanation'', JStr (codes (if k = 0 then ''a'' else ''b''))),
      (codes ''assembly'', JStr (codes (if k = 0 then ''f:'' @ nl @ ''orr x0, xzr, x1'' @ nl @ ''ret''
         else ''f:'' @ nl @ ''add x0, x1, #1'' @ nl @ ''ret'')))])"

definition live_line :: "label \<Rightarrow> bool \<times> string \<times> nat" where
  "live_line lb = demo_line (if snd lb = 0 then ''100.0'' else ''90.0'')"

definition live_out :: outside where
  "live_out = \<lparr>o_index = (\<lambda>_. no_index), o_macros = [], o_tests = first_passes, o_differential = (\<lambda>_ _. True),
     o_bench = (\<lambda>lb src i. live_line lb), o_workload = (\<lambda>lb src i. (False, [], 0)), o_objdump = (\<lambda>_. None),
     o_object_size = (\<lambda>_. None), o_reply = (\<lambda>i t k. (True, live_reply k)), o_verdict = (\<lambda>lb src. (False, []))\<rparr>"

lemma live_main: "cli_main live_env live_args = Harness live_harness \<and> ha_llm live_harness = Some (Command [''model''])
    \<and> ha_rounds live_harness = 5 \<and> ha_candidates live_harness = 2 \<and> ha_judge live_harness = None
    \<and> ha_noise_floor live_harness = Fin 1"
  by code_simp

lemma live_config: "config_of live_harness 1 = demo_config"
  by code_simp

lemma live_bench: "(\<lambda>lb src. bench_answer 5 (\<lambda>i. live_line lb)) = demo_benchmark"
proof (intro ext)
  fix lb :: label and src
  have "bench_answer 5 (\<lambda>i. demo_line ''100.0'') = Some 100" "bench_answer 5 (\<lambda>i. demo_line ''90.0'') = Some 90"
    by code_simp+
  then show "bench_answer 5 (\<lambda>i. live_line lb) = demo_benchmark lb src" by (simp add: live_line_def demo_benchmark_def)
qed

lemma live_workload: "bench_answer 5 (\<lambda>i. (False, [], 0)) = None"
  by code_simp

lemma live_proposals:
  "(\<lambda>i t. proposals (backend_generate (\<lambda>j. []) (Command argv) (map (\<lambda>k. (True, live_reply k)) [0..<2]))) = two_candidates"
proof (intro ext)
  fix i :: nat and t
  have "proposals (backend_generate (\<lambda>j. []) (Command argv) (map (\<lambda>k. (True, live_reply k)) [0, 1])) =
      [(''f:'' @ nl @ ''orr x0, xzr, x1'' @ nl @ ''ret'', ''a''), (''f:'' @ nl @ ''add x0, x1, #1'' @ nl @ ''ret'', ''b'')]"
    by code_simp
  then show "proposals (backend_generate (\<lambda>j. []) (Command argv) (map (\<lambda>k. (True, live_reply k)) [0..<2])) = two_candidates i t"
    by (simp add: two_candidates_def upt_rec)
qed

lemma live_world: "world_of (\<lambda>j. []) live_harness live_out = demo_world"
  using live_main by (simp add: world_of_def demo_world_def live_out_def live_bench live_workload live_proposals)


end
