(* ===== verification/Tool_Runs.thy ===== *)
theory Tool_Runs
  imports Py_Regex Py_Float
begin

text \<open>
  Running commands and tools: common.py, the test runner of compiler.py, and mca.py. What the
  operating system answers to a command (an exit, a timeout, an error) is the argument \<open>spawn\<close>;
  working directory and environment belong to it.
\<close>

section \<open>Commands\<close>

record run_result =
  rr_success :: bool
  rr_output :: string
  rr_error :: string
  rr_returncode :: int

definition summary :: "nat \<Rightarrow> run_result \<Rightarrow> string" where
  "summary limit r =
     (let s = strip (rr_output r @ [CHR 0x0A] @ rr_error r)
      in if limit < length s then take limit s @ [CHR 0x0A] @ ''... (truncated)'' else s)"

definition SHELL_OPERATORS :: "string list" where
  "SHELL_OPERATORS = [''&&'', ''||'', '';'', ''|'', ''>'', ''<'', ''&'', ''`'', ''$('']"

definition needs_shell :: "string list \<Rightarrow> bool" where
  "needs_shell command \<longleftrightarrow> list_ex (\<lambda>tok. list_ex (\<lambda>op. has_sub op tok) SHELL_OPERATORS) command"

text \<open>A command as the caller gives it: one string for the shell, or a list of arguments.\<close>

datatype command = Line string | Words "string list"

text \<open>What is executed: a program with its arguments, or a line of the shell.\<close>

datatype process = Exec "string list" | Shell string

datatype answer = Exited int string string | TimedOut string | Missing string | Unusable string

definition process_of :: "command \<Rightarrow> process" where
  "process_of c =
     (case c of
        Line s \<Rightarrow> Shell s
      | Words toks \<Rightarrow> if needs_shell toks then Shell (join '' '' toks) else Exec toks)"

definition failed :: "string \<Rightarrow> run_result" where
  "failed msg = \<lparr>rr_success = False, rr_output = [], rr_error = msg, rr_returncode = -1\<rparr>"

definition run_command :: "(process \<Rightarrow> int \<Rightarrow> answer) \<Rightarrow> command \<Rightarrow> int \<Rightarrow> run_result" where
  "run_command spawn c timeout =
     (case spawn (process_of c) timeout of
        Exited code out err \<Rightarrow> \<lparr>rr_success = (code = 0), rr_output = out, rr_error = err, rr_returncode = code\<rparr>
      | TimedOut msg \<Rightarrow> failed (''timeout after '' @ str_int timeout @ ''s ('' @ msg @ '')'')
      | Missing msg \<Rightarrow> failed (''command not found: '' @ msg)
      | Unusable msg \<Rightarrow> failed (''failed to run command: '' @ msg))"

definition detect_tool :: "(string \<Rightarrow> string option) \<Rightarrow> string list \<Rightarrow> string option" where
  "detect_tool which names =
     Option.bind (find (\<lambda>n. case which n of Some p \<Rightarrow> p \<noteq> [] | None \<Rightarrow> False) names) which"

text \<open>\<open>shlex.quote\<close>.\<close>

definition shell_safe :: "char \<Rightarrow> bool" where
  "shell_safe c \<longleftrightarrow> py_word c \<or> c \<in> set ''@%+=:,./-''"

definition shlex_quote :: "string \<Rightarrow> string" where
  "shlex_quote s =
     (if s \<noteq> [] \<and> list_all shell_safe s then s
      else [CHR 0x27] @ replace_sub [CHR 0x27] [CHR 0x27, CHR 0x22, CHR 0x27, CHR 0x22, CHR 0x27] s @ [CHR 0x27])"

definition to_command :: "command \<Rightarrow> string" where
  "to_command c = (case c of Line s \<Rightarrow> s | Words toks \<Rightarrow> join '' '' (map shlex_quote toks))"

section \<open>Tests and compilation\<close>

fun run_tests :: "(process \<Rightarrow> int \<Rightarrow> answer) \<Rightarrow> string list \<Rightarrow> run_result" where
  "run_tests spawn [] = \<lparr>rr_success = True, rr_output = ''(all test commands passed)'', rr_error = [], rr_returncode = -1\<rparr>"
| "run_tests spawn (c # cs) =
     (let result = run_command spawn (Line c) 1200
      in if \<not> rr_success result then result else run_tests spawn cs)"

definition compile_object :: "(process \<Rightarrow> int \<Rightarrow> answer) \<Rightarrow> string \<Rightarrow> string \<Rightarrow> string list \<Rightarrow> string \<Rightarrow> string \<Rightarrow> string \<Rightarrow> run_result" where
  "compile_object spawn source out include_dirs arch opt debug =
     run_command spawn (Words ([''cc'', debug, opt, ''-arch'', arch]
       @ concat (map (\<lambda>inc. [''-I'', inc]) (if include_dirs = [] then [''src''] else include_dirs))
       @ [''-c'', source, ''-o'', out])) 900"

section \<open>The machine code analyzer\<close>

record mca_report =
  mca_instructions :: "int option"
  mca_total_cycles :: "int option"
  mca_ipc :: "rat option"
  mca_dispatch_width :: "int option"
  mca_block_rt :: "string option"
  mca_raw :: string

datatype mca_error = McaValueError

definition MCPU_CANDIDATES :: "string list" where
  "MCPU_CANDIDATES = [''apple-m2'', ''apple-m1'', ''apple-a14'', ''cortex-a76'', ''generic'']"

definition mcpus :: "string option \<Rightarrow> string list" where
  "mcpus mcpu =
     (case mcpu of
        None \<Rightarrow> MCPU_CANDIDATES
      | Some m \<Rightarrow> if m = [] then MCPU_CANDIDATES else m # filter (\<lambda>c. c \<noteq> m) MCPU_CANDIDATES)"

definition labelled :: "string \<Rightarrow> rx \<Rightarrow> rx" where
  "labelled label value = seqs [lit label, rep1 ws, Grp 1 (rep1 value)]"

definition number_chr :: rx where
  "number_chr = Cls (\<lambda>c. py_digit c \<or> c = CHR ''.'')"

definition grab :: "rx \<Rightarrow> string \<Rightarrow> string option" where
  "grab r s = map_option (\<lambda>g. group_str g 1) (re_search r s)"

text \<open>\<open>float(v)\<close> of digits and points: at most one point, and a digit.\<close>

definition decimal :: "string \<Rightarrow> rat option" where
  "decimal v = (if length (filter (\<lambda>c. c = CHR ''.'') v) \<le> 1 \<and> list_ex py_digit v then Some (py_float v) else None)"

definition mca_parse :: "string \<Rightarrow> mca_error + mca_report" where
  "mca_parse s =
     (let ipc = grab (labelled ''IPC:'' number_chr) s;
          report = \<lparr>mca_instructions = map_option py_int (grab (labelled ''Instructions:'' digit) s),
            mca_total_cycles = map_option py_int (grab (labelled ''Total Cycles:'' digit) s),
            mca_ipc = Option.bind ipc decimal,
            mca_dispatch_width = map_option py_int (grab (labelled ''Dispatch Width:'' digit) s),
            mca_block_rt = map_option (\<lambda>v. v @ '' cycles'') (grab (labelled ''Block RThroughput:'' number_chr) s),
            mca_raw = s\<rparr>
      in if ipc \<noteq> None \<and> Option.bind ipc decimal = None then Inl McaValueError else Inr report)"

fun mca_loop :: "(string \<Rightarrow> run_result) \<Rightarrow> string list \<Rightarrow> mca_error + mca_report option" where
  "mca_loop run [] = Inr None"
| "mca_loop run (c # cs) =
     (let result = run c
      in if rr_success result then (case mca_parse (rr_output result) of Inl e \<Rightarrow> Inl e | Inr r \<Rightarrow> Inr (Some r))
         else if has_sub ''error'' (lower (rr_error result)) \<and> has_sub ''no such cpu'' (lower (rr_error result))
         then mca_loop run cs
         else Inr None)"

definition mca_analyze :: "(process \<Rightarrow> int \<Rightarrow> answer) \<Rightarrow> string option \<Rightarrow> string option \<Rightarrow> int \<Rightarrow> string
    \<Rightarrow> mca_error + mca_report option" where
  "mca_analyze spawn tool mcpu iterations asm_path =
     (case tool of
        None \<Rightarrow> Inr None
      | Some t \<Rightarrow> if t = [] then Inr None
          else mca_loop (\<lambda>c. run_command spawn (Words [t, ''-mtriple=arm64-apple-macosx'', ''-mcpu='' @ c,
            ''-iterations='' @ str_int iterations, asm_path]) 300) (mcpus mcpu))"

definition opt_line :: "string \<Rightarrow> string option \<Rightarrow> string list" where
  "opt_line label v = (case v of Some s \<Rightarrow> [label @ s] | None \<Rightarrow> [])"

definition mca_summary :: "mca_report \<Rightarrow> string" where
  "mca_summary r = join [CHR 0x0A]
     ([''LLVM-MCA'']
      @ opt_line ''Instructions:      '' (map_option str_int (mca_instructions r))
      @ opt_line ''Total Cycles:      '' (map_option str_int (mca_total_cycles r))
      @ opt_line ''IPC:               '' (map_option (fixed 2) (mca_ipc r))
      @ opt_line ''Dispatch Width:    '' (map_option str_int (mca_dispatch_width r))
      @ opt_line ''Block RThroughput: '' (mca_block_rt r))"

section \<open>Correctness\<close>

text \<open>
  A list is run by the shell, its elements joined without quoting, as soon as one of them contains
  an operator; the prompt that the command backend of llm.py appends to its command is such an
  element.
\<close>

lemma prompt_through_shell:
  assumes "op \<in> set SHELL_OPERATORS" "has_sub op prompt"
  shows "process_of (Words (argv @ [prompt])) = Shell (join '' '' (argv @ [prompt]))"
  using assms by (auto simp: process_of_def needs_shell_def list_ex_iff)

text \<open>The tests pass exactly when all commands do, and a failure is that of the first command that fails.\<close>

lemma run_tests_success: "rr_success (run_tests spawn cs) \<longleftrightarrow> (\<forall>c \<in> set cs. rr_success (run_command spawn (Line c) 1200))"
  by (induction spawn cs rule: run_tests.induct) (auto simp: Let_def)

lemma run_tests_failure:
  assumes "\<not> rr_success (run_tests spawn cs)"
  shows "\<exists>as c bs. cs = as @ c # bs \<and> (\<forall>a \<in> set as. rr_success (run_command spawn (Line a) 1200))
    \<and> run_tests spawn cs = run_command spawn (Line c) 1200"
  using assms
proof (induction spawn cs rule: run_tests.induct)
  case (2 spawn c cs)
  show ?case
  proof (cases "rr_success (run_command spawn (Line c) 1200)")
    case True
    then obtain as d bs where "cs = as @ d # bs" "\<forall>a \<in> set as. rr_success (run_command spawn (Line a) 1200)"
        "run_tests spawn cs = run_command spawn (Line d) 1200"
      using 2 by (auto simp: Let_def)
    then show ?thesis using True by (intro exI [of _ "c # as"] exI [of _ d] exI [of _ bs]) (simp add: Let_def)
  next
    case False
    then show ?thesis by (intro exI [of _ "[]"] exI [of _ c] exI [of _ cs]) (simp add: Let_def)
  qed
qed simp

lemma mcpus_complete: "distinct (mcpus mcpu) \<and> set MCPU_CANDIDATES \<subseteq> set (mcpus mcpu)"
  by (auto simp: mcpus_def MCPU_CANDIDATES_def split: option.splits)

text \<open>The analysis is that of the first candidate the tool knows, whatever their order.\<close>

lemma mca_loop_first:
  assumes "mca_loop run cs = Inr (Some r)"
  shows "\<exists>as c bs. cs = as @ c # bs \<and> rr_success (run c) \<and> mca_parse (rr_output (run c)) = Inr r
    \<and> (\<forall>a \<in> set as. \<not> rr_success (run a) \<and> has_sub ''no such cpu'' (lower (rr_error (run a))))"
  using assms
proof (induction run cs rule: mca_loop.induct)
  case (2 run c cs)
  show ?case
  proof (cases "rr_success (run c)")
    case True
    then show ?thesis using 2(2) by (intro exI [of _ "[]"] exI [of _ c] exI [of _ cs]) (auto split: sum.splits)
  next
    case False
    then obtain as d bs where "cs = as @ d # bs" "rr_success (run d)" "mca_parse (rr_output (run d)) = Inr r"
        "\<forall>a \<in> set as. \<not> rr_success (run a) \<and> has_sub ''no such cpu'' (lower (rr_error (run a)))"
      using 2 by (auto simp: Let_def split: if_splits)
    then show ?thesis using False 2(2)
      by (intro exI [of _ "c # as"] exI [of _ d] exI [of _ bs]) (auto simp: Let_def split: if_splits)
  qed
qed simp

end
