(* ===== verification/Fuzz_Soak.thy ===== *)
theory Fuzz_Soak
  imports Py_Text
begin

text \<open>
  The soak driver fuzz_soak.py: which suites are selected, which campaign a finding belongs to, and
  the loop over rounds and suites with its exit status. The answers of the fuzz binaries, the
  seeds drawn at random and the number of rounds after which the deadline or the user ends a run
  without a fixed number of rounds are arguments; the log and the printed report are output.
\<close>

section \<open>Suites and findings\<close>

definition SUITES :: "string list" where
  "SUITES = [''test_fuzz_tls_record'', ''test_fuzz_tls_handshake'', ''test_fuzz_http'', ''test_frag_socket'', ''test_frag_http'']"

definition suite_matches :: "string \<Rightarrow> string list \<Rightarrow> bool" where
  "suite_matches name wanted \<longleftrightarrow> wanted = [] \<or> list_ex (\<lambda>w. w = name \<or> has_sub w name) wanted"

definition selected_suites :: "string list \<Rightarrow> string list" where
  "selected_suites wanted = filter (\<lambda>s. suite_matches s wanted) SUITES"

definition basename :: "string \<Rightarrow> string" where
  "basename path = rev (takeWhile (\<lambda>c. c \<noteq> CHR ''/'') (rev path))"

definition campaign_of :: "string \<Rightarrow> string option" where
  "campaign_of finding =
     (let parts = split_chr CHR ''-'' (basename finding)
      in map_option (\<lambda>i. join ''-'' (drop 1 (take i parts)))
           (find (\<lambda>i. startswith (parts ! i) ''seed'' \<and> 2 \<le> i) [0..<length parts]))"

text \<open>The command that shrinks a finding, if its campaign can be told.\<close>

definition minimize_command :: "string \<Rightarrow> string \<Rightarrow> string \<Rightarrow> string \<Rightarrow> string list option" where
  "minimize_command root obj binary finding =
     (case campaign_of finding of
        None \<Rightarrow> None
      | Some campaign \<Rightarrow> if campaign = [] then None
          else Some [root @ ''/scripts/fuzz_minimize.py'', obj @ ''/'' @ binary, campaign, finding])"

section \<open>The loop\<close>

text \<open>What one run of a suite answers: its exit code and the new files among the findings.\<close>

record soak_state =
  so_found :: nat
  so_done :: nat
  so_minimized :: "(string \<times> string) list"

definition shrinkable :: "bool \<Rightarrow> string list \<Rightarrow> string list" where
  "shrinkable minimize new = (if minimize then filter (\<lambda>f. endswith f ''.bin'') new else [])"

text \<open>The suites of a round; the flag says that the soak stops.\<close>

fun soak_round :: "(string \<Rightarrow> int \<times> string list) \<Rightarrow> bool \<Rightarrow> bool \<Rightarrow> string list \<Rightarrow> soak_state \<Rightarrow> soak_state \<times> bool" where
  "soak_round run minimize keep_going [] st = (st, False)"
| "soak_round run minimize keep_going (binary # bs) st =
     (case run binary of
        (rc, new) \<Rightarrow>
          if rc = 0 then soak_round run minimize keep_going bs st
          else
            let st = st\<lparr>so_found := so_found st + 1,
              so_minimized := so_minimized st @ map (\<lambda>f. (binary, f)) (shrinkable minimize new)\<rparr>
            in if keep_going then soak_round run minimize keep_going bs st else (st, True))"

fun soak_rounds :: "(nat \<Rightarrow> int) \<Rightarrow> (nat \<Rightarrow> int \<Rightarrow> string \<Rightarrow> int \<times> string list) \<Rightarrow> bool \<Rightarrow> bool \<Rightarrow> string list \<Rightarrow> int list \<Rightarrow> nat
    \<Rightarrow> soak_state \<Rightarrow> soak_state" where
  "soak_rounds draw run minimize keep_going suites seeds 0 st = st"
| "soak_rounds draw run minimize keep_going suites seeds (Suc n) st =
     (let seed = (case seeds of s # ss \<Rightarrow> s | [] \<Rightarrow> draw (so_done st));
          (st', stop) = soak_round (run (so_done st) seed) minimize keep_going suites st;
          st' = st'\<lparr>so_done := so_done st + 1\<rparr>
      in if stop then st' else soak_rounds draw run minimize keep_going suites (drop 1 seeds) n st')"

definition soak_main :: "(nat \<Rightarrow> int) \<Rightarrow> (nat \<Rightarrow> int \<Rightarrow> string \<Rightarrow> int \<times> string list) \<Rightarrow> bool \<Rightarrow> bool \<Rightarrow> string list \<Rightarrow> int list \<Rightarrow> nat
    \<Rightarrow> soak_state \<times> nat" where
  "soak_main draw run minimize keep_going wanted seeds rounds =
     (let suites = selected_suites wanted;
          start = \<lparr>so_found = 0, so_done = 0, so_minimized = []\<rparr>
      in if suites = [] then (start, 2)
         else let st = soak_rounds draw run minimize keep_going suites seeds rounds start
           in (st, if so_found st = 0 then 0 else 1))"

section \<open>Correctness\<close>

lemma split_chr_append:
  assumes "c \<notin> set s"
  shows "split_chr c (s @ c # t) = s # split_chr c t"
  using assms by (induction s) auto

lemma split_chr_head: "split_chr c s \<noteq> []"
  by (induction s) (auto split: list.splits)

lemma split_chr_prefix:
  assumes "c \<notin> set s"
  shows "\<exists>r rs. split_chr c (s @ t) = (s @ r) # rs"
  using assms
proof (induction s)
  case Nil
  then show ?case using split_chr_head [of c t] by (cases "split_chr c t") auto
next
  case (Cons a s)
  then obtain r rs where "split_chr c (s @ t) = (s @ r) # rs" by auto
  then show ?case using Cons.prems by auto
qed

lemma basename_path:
  assumes "CHR ''/'' \<notin> set name"
  shows "basename (dir @ CHR ''/'' # name) = name"
proof -
  have "takeWhile (\<lambda>c. c \<noteq> CHR ''/'') (rev name @ CHR ''/'' # rev dir) = rev name"
    using assms by (subst takeWhile_append2) auto
  then show ?thesis by (simp add: basename_def)
qed

text \<open>The campaign is read back from the name the harness gives to a finding.\<close>

lemma campaign_roundtrip:
  assumes "CHR ''-'' \<notin> set suite" "CHR ''-'' \<notin> set campaign"
    and "CHR ''/'' \<notin> set (suite @ campaign @ rest)"
  shows "campaign_of (dir @ ''/'' @ suite @ ''-'' @ campaign @ ''-seed'' @ rest) = Some campaign"
proof -
  obtain r rs where r: "split_chr CHR ''-'' (''seed'' @ rest) = (''seed'' @ r) # rs"
    using split_chr_prefix [of "CHR ''-''" "''seed''" rest] by auto
  have "split_chr CHR ''-'' (suite @ ''-'' @ campaign @ ''-seed'' @ rest) = suite # campaign # (''seed'' @ r) # rs"
    using split_chr_append [OF assms(1)] split_chr_append [OF assms(2)] r by simp
  moreover have "basename (dir @ ''/'' @ suite @ ''-'' @ campaign @ ''-seed'' @ rest) = suite @ ''-'' @ campaign @ ''-seed'' @ rest"
    using basename_path [of "suite @ ''-'' @ campaign @ ''-seed'' @ rest" dir] assms(3) by simp
  moreover have "[0..<Suc (Suc (Suc n))] = 0 # 1 # 2 # [3..<Suc (Suc (Suc n))]" for n
    by (simp add: upt_rec numeral_2_eq_2 numeral_3_eq_3)
  ultimately show ?thesis by (simp add: campaign_of_def startswith_def del: upt_Suc)
qed

lemma soak_round_found:
  assumes "soak_round run minimize keep_going bs st = (st', stop)"
  shows "so_found st \<le> so_found st' \<and> (so_found st' = so_found st \<longleftrightarrow> (\<forall>b \<in> set bs. fst (run b) = 0))
    \<and> (stop \<longleftrightarrow> \<not> keep_going \<and> so_found st' \<noteq> so_found st)"
  using assms
proof (induction run minimize keep_going bs st rule: soak_round.induct)
  case (2 run minimize keep_going binary bs st)
  obtain rc new where rc: "run binary = (rc, new)" by fastforce
  show ?case
  proof (cases "rc = 0")
    case True
    then show ?thesis using 2 rc by auto
  next
    case False
    show ?thesis
    proof (cases keep_going)
      case True
      then show ?thesis using 2(2) [OF rc [symmetric] False _ True] 2(3) rc False by (auto simp: Let_def)
    next
      case False
      then show ?thesis using 2(3) rc \<open>rc \<noteq> 0\<close> by (auto simp: Let_def)
    qed
  qed
qed auto

text \<open>The soak fails exactly when a run of some suite in some round failed, and then it knows how many.\<close>

lemma soak_rounds_quiet:
  assumes "\<forall>i seed. \<forall>b \<in> set suites. fst (run i seed b) = 0"
  shows "so_found (soak_rounds draw run minimize keep_going suites seeds n st) = so_found st
    \<and> so_done (soak_rounds draw run minimize keep_going suites seeds n st) = so_done st + n"
proof (induction n arbitrary: seeds st)
  case (Suc n)
  let ?seed = "case seeds of s # ss \<Rightarrow> s | [] \<Rightarrow> draw (so_done st)"
  obtain st' stop where r: "soak_round (run (so_done st) ?seed) minimize keep_going suites st = (st', stop)" by fastforce
  have "so_found st' = so_found st" "\<not> stop" using soak_round_found [OF r] assms by auto
  then show ?case using r Suc [of "drop 1 seeds" "st'\<lparr>so_done := so_done st + 1\<rparr>"] by (simp add: Let_def)
qed simp

end
