(* ===== verification/Spec2Isabelle.thy ===== *)
theory Spec2Isabelle
  imports P256_Scalar_Inv Gcm_Ctr P256_Fe_Mul P256_Comb Abi_Check Clobber_Headers Fuzz_Minimize
    Optimizer Syscall_Audit Width_Guard Symbol_Directives Profile_Samples Differential
    Noise_Floor Harness_Run Tool_Runs Fuzz_Soak
begin

text \<open>
  \<^bold>\<open>A verification library for the Python tooling of sarm\<close>

  sarm is an HTTPS server written in ARM64 assembly. The Python programs under
  \<open>src/scripts\<close> are what its developers trust when they change that assembly: reference
  models of the word-level arithmetic, static checkers of the sources, and an optimizer that
  rewrites functions, tests the rewrites and keeps the faster ones. This library models those
  programs as they are written and proves what they promise. Names of definitions are those of
  the source; every other theory opens with the part of the source it models.

  \<^bold>\<open>Conventions.\<close> A Python integer is an \<open>int\<close> (or \<open>nat\<close> where it is a length or an index),
  a machine word is an \<open>int\<close> with its range as an invariant, a \<open>str\<close> is a list of ASCII
  characters, a dict is an association list in insertion order, a class with fields is a
  record. An exception or a failing \<open>assert\<close> is \<open>None\<close> or \<open>Inl\<close>; \<open>Some\<close> results are
  proved to exist before anything is said about them. What the scripts get from outside
  (files, processes, clocks, language models, a third-party block cipher) is an argument.

  \<^bold>\<open>Foundations.\<close>
  \<^item> \<open>Sarm_Prelude\<close>: the \<open>assert\<close> of the option monad, the loop \<open>for _ in range(k): ...;
    if not changed: break\<close>, lemmas on lists and folds, and the named collections the other
    theories put their simplification rules into.
  \<^item> \<open>Py_Text\<close>, \<open>Py_Regex\<close>: string and dict operations; Python's \<open>re\<close> as a backtracking
    matcher that lists all matches in the order the engine tries them. \<open>finditer\<close> carries the
    length of the text as fuel, each match of the expressions used consumes a character.
  \<^item> \<open>Py_Float\<close>: double-precision arithmetic as rational arithmetic with rounding to 53 bits,
    ties to even. Exponents are unbounded; infinities, NaN and signed zeros are left out.
  \<^item> \<open>Py_Json\<close>, \<open>Object_Scan\<close>: \<open>json.loads\<close> and the balanced-brace scan for an object in a text.
    The locale \<open>json_layout\<close> says that a value decodes to itself whatever whitespace follows its
    separators (interpreted for the layouts of \<open>json.dumps\<close> and of the C programs); the locale
    \<open>object_reader\<close> is the contract between the scan and what reads its slices. The decoder
    carries twice the length of the text as fuel, an element costs two steps and a character.
  \<^item> \<open>Flow\<close>: dataflow sweeps. The locale \<open>bit_sweep\<close> is the contract of a sweep on one bit of
    the facts, \<open>bit_sweep_obs\<close> adds how the facts are read off the state. Its lemmas say that
    a bit is set after as many sweeps as there are instructions exactly when a path leads to
    a place that generates it, so that the \<open>n + 2\<close> sweeps of the scripts are enough.

  \<^bold>\<open>Arithmetic models\<close> (\<open>p256_*_derivation.py\<close>, \<open>gcm_ctr_sweep_derivation.py\<close>).
  \<open>Limbs\<close> has multi-limb integers and their carry chains. \<open>P256_Mont\<close> and \<open>P256_Scalar_Inv\<close>
  model the Montgomery multiply modulo the group order, the addition-chain program and the
  scalar inversion; the locale \<open>chain_mul\<close> is the interface between the interpreter of the
  chain and its multiply, interpreted by integer addition, by the Montgomery multiply and by
  multiplication in a commutative monoid. \<open>P256_Reduce\<close> models the derivation of the fold table,
  the reduction with its signed accumulators and the corrections; \<open>P256_Fe_Mul\<close> the 4x4 product
  on top of it, the Jacobian formulas and the scalar loop; \<open>P256_Comb\<close> the fixed-base comb with
  its affine oracle and table; \<open>P256_Curve\<close> what the two share. \<open>Gcm_Ctr\<close> models the two counter
  sequences, GHASH and seal. The theorems: no assert fires, results are the canonical residues,
  carries stay within the bounds the scripts compute, points stay on the curve, the two counter
  sequences are equal across the 32-bit wrap, seal is counter mode and inverts itself.

  \<^bold>\<open>Static analysis of the sources.\<close> \<open>Asm_Parse\<close>, \<open>Asm_Macros\<close> and \<open>Asm_Regions\<close> model
  \<open>asmparse.py\<close>: lines, labels, operands and macros, the callable regions of a file and the
  call graph. \<open>Abi_Effect\<close>, \<open>Abi_Flags\<close> and \<open>Abi_Check\<close> model \<open>abi.py\<close>: the effect of an
  instruction, the control flow graph, the analysis of the condition flags, and the check that
  callee-saved registers and the stack are restored. \<open>Reg_Pressure\<close> (\<open>regpressure.py\<close>) has
  register liveness, the clobber sets along the call graph and the ranking; \<open>Clobber_Headers\<close>
  (\<open>validate_clobbers.py\<close>) compares them with what the headers document. Liveness, reaching
  definitions and clobbers are interpretations of \<open>bit_sweep_obs\<close>, so that each is proved equal
  to its definition by paths; a clean ABI report is proved to mean that registers and stack are
  restored on every path to a return, whose entry is not the head of a loop and
  whose analysis ended within its bound of sweeps.

  \<^bold>\<open>The optimizer.\<close> \<open>Mut_Schedule\<close> and \<open>Mut_Unroll\<close> (\<open>mutations/\<close>) are the rule-based
  rewrites, \<open>Disasm\<close> (\<open>disassembler.py\<close>) reads objdump output, \<open>Strategy\<close> (\<open>strategy.py\<close>)
  decides whether a measured candidate is kept, and \<open>Optimizer\<close> (\<open>optimizer.py\<close>) is the loop:
  extract the function, propose, install, run the gates, accept or revert, report, restore. The
  record \<open>world\<close> holds the answers of everything outside. The locale \<open>run_property\<close> carries an
  invariant over a whole run and is interpreted three times (\<open>books\<close>, \<open>tested\<close>, \<open>improving\<close>).
  The loop of the scheduler has the number of instructions as fuel and emits one of them per
  step; that it always emits all of them is part of its theorem.

  \<^bold>\<open>What the optimizer calls.\<close> \<open>Llm_Reply\<close> (\<open>llm.py\<close>) reads candidates from the replies of a
  language model, \<open>Bench_Run\<close> (\<open>benchmark.py\<close>, \<open>perf.py\<close>) measurements from the output of a
  benchmark; both interpret \<open>object_reader\<close>, and an object that was encoded into the text is proved
  to be what is read. Its floats have infinities and NaN. A run answers the median of its rounds.
  \<open>Noise_Floor\<close> (\<open>measure_noise_floor.py\<close>) is the trimmed band of many runs, which the slowest
  run is proved not to influence. \<open>Harness_Cli\<close> (\<open>arm-optimize.py\<close>) chooses source, benchmark,
  noise floor, models and strategy, and is proved to build nothing unless they exist. \<open>Tool_Runs\<close>
  (\<open>common.py\<close>, \<open>compiler.py\<close>, \<open>mca.py\<close>) runs commands. \<open>Harness_Run\<close>
  composes them: the optimizer the command line builds, over a world whose measurements are
  benchmark runs and whose candidates and verdicts are replies of a model.

  \<^bold>\<open>Guards and fuzzing.\<close> \<open>Width_Guard\<close> (\<open>width_guard.py\<close>) sweeps the wire-parsing sources for
  fields composed in 64-bit registers; \<open>Syscall_Audit\<close> (\<open>syscall_audit.py\<close>) compares the syscalls of
  sources and binary with the allowlist; both are proved to succeed exactly when the property they
  guard holds of their input. \<open>Symbol_Directives\<close> (\<open>add_symbol_directives.py\<close>) annotates global
  symbols with their extents, which are proved disjoint and inside one conditional branch.
  \<open>Profile_Samples\<close> (\<open>profile_samples.py\<close>) attributes samples to functions; its walk over the
  printed call tree is proved equal to a recursion over the tree. \<open>Differential\<close>
  (\<open>differential.py\<close>) compares two programs on batches of cases. \<open>Fuzz_Minimize\<close> (\<open>fuzz_minimize.py\<close>) is the
  shrinking of a failing input, with termination by the length and a rank of the bytes;
  \<open>Fuzz_Soak\<close> (\<open>fuzz_soak.py\<close>) runs the suites round after round.

  \<^bold>\<open>What the library found.\<close> Lemmas with concrete inputs show where the code departs from what
  it means to do: \<open>Abi_Check.entry_loop_missed\<close>, \<open>Abi_Check.narrow_write_missed\<close>,
  \<open>Fuzz_Minimize.single_byte_kept\<close>, \<open>Disasm.normalize_drops_add\<close>,
  \<open>Strategy.combined_accepts_slower\<close>, \<open>Mut_Schedule.schedule_order_unsafe\<close>,
  \<open>Mut_Schedule.zero_extension_removed\<close>, \<open>Mut_Unroll.loop_mutations_gaps\<close>,
  \<open>Optimizer.best_lost\<close>, \<open>Optimizer.original_not_restored\<close>,
  \<open>Syscall_Audit.scan_misses_branch\<close>, \<open>Syscall_Audit.scan_misses_writes\<close>,
  \<open>Symbol_Directives.second_run_differs\<close>, \<open>Width_Guard.labelled_composition_missed\<close>,
  \<open>Profile_Samples.idle_run_has_rows\<close>, \<open>Differential.silent_programs_accepted\<close>,
  \<open>Differential.extra_line_index_error\<close>, \<open>Llm_Reply.list_reply\<close>, \<open>Bench_Run.result_ns_raises\<close>,
  \<open>Noise_Floor.nan_spread\<close>, \<open>Harness_Cli.demo_main\<close>, \<open>Harness_Cli.nan_floor\<close>,
  \<open>Tool_Runs.prompt_through_shell\<close>, \<open>Harness_Run.judge_verdict_dropped\<close>.

  \<^bold>\<open>Not modelled.\<close> The parsing of command lines, printed reports, generated test and source
  texts, the sampling self-checks of the arithmetic scripts (they run the modelled functions on
  random numbers), and the reading and writing of files. The workload driver
  (\<open>profile_workload.py\<close>) is a network client and a clock, with a sum of floats whose rounding
  depends on the version of Python; \<open>count_calls.py\<close> drives a debugger; \<open>_mutation_test.py\<close> prints.
  The prompt text of the optimizer for the language model. Of the language, text outside ASCII,
  the bounds of the exponent of a float, and the limits of Python on recursion and on the digits
  of an integer.
\<close>

end
